(* ===== verification/Prelude.thy ===== *)
theory Prelude
  imports Main "HOL-Library.Word"
begin

text \<open>
  Shared vocabulary of the development: the machine integers of the sources as words, the
  outcome of a C computation (a value, or the fault that ends it), byte-addressed memory, and
  the little-endian representation of integers. Every component theory builds on this one.
\<close>

unbundle bit_operations_syntax

section \<open>Machine integers and outcomes\<close>

type_synonym u8 = "8 word"
type_synonym u16 = "16 word"
type_synonym u32 = "32 word"
type_synonym u64 = "64 word"

text \<open>The bytes of a string literal.\<close>

definition bytes :: "string \<Rightarrow> u8 list" where
  "bytes s = map of_char s"

text \<open>
  What ends a C computation other than a return: a failed \<open>assert\<close>, an access outside an
  object, a null dereference, a trapping division, or a loop that never leaves.
\<close>

datatype fault = AssertFail | WildAccess | NullDeref | DivideTrap | Diverge

type_synonym 'a res = "fault + 'a"

definition bindE :: "'a res \<Rightarrow> ('a \<Rightarrow> 'b res) \<Rightarrow> 'b res" where
  "bindE r f = (case r of Inl e \<Rightarrow> Inl e | Inr x \<Rightarrow> f x)"

definition assertE :: "bool \<Rightarrow> unit res" where
  "assertE p = (if p then Inr () else Inl AssertFail)"

fun foldE :: "('a \<Rightarrow> 's \<Rightarrow> 's res) \<Rightarrow> 'a list \<Rightarrow> 's \<Rightarrow> 's res" where
  "foldE f [] s = Inr s"
| "foldE f (x # xs) s = bindE (f x s) (foldE f xs)"

lemma bindE_Inr [simp]: "bindE (Inr x) f = f x"
  by (simp add: bindE_def)

lemma bindE_Inl [simp]: "bindE (Inl e) f = Inl e"
  by (simp add: bindE_def)

lemma bindE_eq_Inr: "bindE r f = Inr y \<longleftrightarrow> (\<exists>x. r = Inr x \<and> f x = Inr y)"
  by (cases r) auto

lemma assertE_True [simp]: "p \<Longrightarrow> assertE p = Inr ()"
  by (simp add: assertE_def)

lemma assertE_False [simp]: "\<not> p \<Longrightarrow> assertE p = Inl AssertFail"
  by (simp add: assertE_def)

lemma foldE_append: "foldE f (xs @ ys) s = bindE (foldE f xs s) (foldE f ys)"
  by (induction xs arbitrary: s) (auto simp: bindE_def split: sum.splits)

text \<open>A loop whose body succeeds on every state of an invariant succeeds and keeps it.\<close>

lemma foldE_invariant:
  assumes "I s"
    and "\<And>x s. x \<in> set xs \<Longrightarrow> I s \<Longrightarrow> \<exists>s'. f x s = Inr s' \<and> I s'"
  shows "\<exists>s'. foldE f xs s = Inr s' \<and> I s'"
  using assms
proof (induction xs arbitrary: s)
  case Nil
  then show ?case by simp
next
  case (Cons x xs)
  obtain s1 where "f x s = Inr s1" "I s1"
    using Cons.prems by (meson list.set_intros(1))
  then show ?case
    using Cons.IH [of s1] Cons.prems(2) by auto
qed

section \<open>Word arithmetic without wrap-around\<close>

named_theorems unat_ok \<open>word operations read as natural numbers, where nothing wraps\<close>

lemma unat_add_ok [unat_ok]:
  "unat a + unat b < 2 ^ LENGTH('a) \<Longrightarrow> unat (a + b :: 'a::len word) = unat a + unat b"
  using unat_add_lem by blast

lemma unat_mult_ok [unat_ok]:
  "unat a * unat b < 2 ^ LENGTH('a) \<Longrightarrow> unat (a * b :: 'a::len word) = unat a * unat b"
  using unat_mult_lem by blast

lemma unat_sub_ok [unat_ok]:
  "unat b \<le> unat a \<Longrightarrow> unat (a - b :: 'a::len word) = unat a - unat b"
  by (simp add: unat_sub word_le_nat_alt)

lemma unat_of_nat_ok [unat_ok]: "n < 2 ^ LENGTH('a) \<Longrightarrow> unat (of_nat n :: 'a::len word) = n"
  by (simp add: unat_of_nat)

lemma word_of_nat_unat_eq: "unat w = n \<Longrightarrow> w = of_nat n"
  by auto

section \<open>Byte memory\<close>

text \<open>
  A buffer of the C program: its size in bytes and its contents. Only the first \<open>msize\<close>
  addresses belong to the object; the checked accessors below fault outside it.
\<close>

record mem =
  msize :: nat
  mbyte :: "nat \<Rightarrow> u8"

definition peek :: "mem \<Rightarrow> nat \<Rightarrow> nat \<Rightarrow> u8 list" where
  "peek m off n = map (mbyte m) [off..<off + n]"

definition poke :: "mem \<Rightarrow> nat \<Rightarrow> u8 list \<Rightarrow> mem" where
  "poke m off bs =
     m\<lparr>mbyte := (\<lambda>i. if off \<le> i \<and> i < off + length bs then bs ! (i - off) else mbyte m i)\<rparr>"

definition rd :: "nat \<Rightarrow> nat \<Rightarrow> mem \<Rightarrow> u8 list res" where
  "rd off n m = (if off + n \<le> msize m then Inr (peek m off n) else Inl WildAccess)"

definition wr :: "nat \<Rightarrow> u8 list \<Rightarrow> mem \<Rightarrow> mem res" where
  "wr off bs m = (if off + length bs \<le> msize m then Inr (poke m off bs) else Inl WildAccess)"

text \<open>The two routines of \<open>string.h\<close> that the disk tools use, inside one buffer.\<close>

definition c_memset :: "nat \<Rightarrow> u8 \<Rightarrow> nat \<Rightarrow> mem \<Rightarrow> mem res" where
  "c_memset off v n m = wr off (replicate n v) m"

definition c_memcpy :: "nat \<Rightarrow> nat \<Rightarrow> nat \<Rightarrow> mem \<Rightarrow> mem res" where
  "c_memcpy dst src n m = bindE (rd src n m) (\<lambda>bs. wr dst bs m)"

text \<open>A buffer as \<open>calloc\<close> or a fresh sparse file delivers it.\<close>

definition blank :: "nat \<Rightarrow> mem" where
  "blank n = \<lparr>msize = n, mbyte = (\<lambda>_. 0)\<rparr>"

lemma msize_poke [simp]: "msize (poke m off bs) = msize m"
  by (simp add: poke_def)

lemma length_peek [simp]: "length (peek m off n) = n"
  by (simp add: peek_def)

lemma mbyte_poke:
  "mbyte (poke m off bs) i = (if off \<le> i \<and> i < off + length bs then bs ! (i - off) else mbyte m i)"
  by (simp add: poke_def)

lemma mbyte_poke_outside [simp]: "i < off \<or> off + length bs \<le> i \<Longrightarrow> mbyte (poke m off bs) i = mbyte m i"
  by (auto simp: mbyte_poke)

lemma peek_cong: "(\<And>i. off \<le> i \<Longrightarrow> i < off + n \<Longrightarrow> mbyte m i = mbyte m' i) \<Longrightarrow> peek m off n = peek m' off n"
  by (simp add: peek_def)

lemma nth_peek [simp]: "i < n \<Longrightarrow> peek m off n ! i = mbyte m (off + i)"
  by (simp add: peek_def)

lemma peek_eq_iff: "peek m off n = peek m' off' n \<longleftrightarrow> (\<forall>i<n. mbyte m (off + i) = mbyte m' (off' + i))"
  by (simp add: list_eq_iff_nth_eq)

lemma peek_poke_same [simp]: "n = length bs \<Longrightarrow> peek (poke m off bs) off n = bs"
  by (rule nth_equalityI) (simp_all add: mbyte_poke)

lemma peek_poke_disjoint [simp]:
  "off' + n \<le> off \<or> off + length bs \<le> off' \<Longrightarrow> peek (poke m off bs) off' n = peek m off' n"
  by (rule peek_cong) (auto simp: mbyte_poke)

lemma peek_poke_inside:
  assumes "off \<le> off'" "off' + n \<le> off + length bs"
  shows "peek (poke m off bs) off' n = take n (drop (off' - off) bs)"
proof (rule nth_equalityI)
  show "length (peek (poke m off bs) off' n) = length (take n (drop (off' - off) bs))"
    using assms by simp
next
  fix i
  assume "i < length (peek (poke m off bs) off' n)"
  with assms have "i < n" "off \<le> off' + i" "off' + i < off + length bs" by auto
  then show "peek (poke m off bs) off' n ! i = take n (drop (off' - off) bs) ! i"
    using assms by (simp add: mbyte_poke)
qed

lemma poke_peek [simp]: "poke m off (peek m off n) = m"
proof -
  have "(\<lambda>i. if off \<le> i \<and> i < off + n then peek m off n ! (i - off) else mbyte m i) = mbyte m"
    by (auto simp: fun_eq_iff)
  then show ?thesis by (simp add: poke_def)
qed

lemma peek_append: "peek m off (a + b) = peek m off a @ peek m (off + a) b"
proof -
  have "[off..<off + (a + b)] = [off..<off + a] @ [off + a..<off + a + b]"
    using upt_add_eq_append [of off "off + a" b] by (simp add: add.assoc)
  then show ?thesis by (simp add: peek_def)
qed

lemma poke_append: "poke (poke m off xs) (off + length xs) ys = poke m off (xs @ ys)"
  by (rule mem.equality) (auto simp: mbyte_poke nth_append fun_eq_iff)

lemma poke_behind: "off' = off + length xs \<Longrightarrow> poke (poke m off xs) off' ys = poke m off (xs @ ys)"
  by (simp add: poke_append)

lemma poke_before: "off' = off + length xs \<Longrightarrow> poke (poke m off' ys) off xs = poke m off (xs @ ys)"
  by (rule mem.equality) (auto simp: mbyte_poke nth_append fun_eq_iff)

lemma poke_Nil [simp]: "poke m off [] = m"
  by (rule mem.equality) (auto simp: mbyte_poke fun_eq_iff)

lemma take_peek: "take k (peek m off n) = peek m off (min k n)"
  by (simp add: peek_def take_map take_upt min_def)

text \<open>A region holds the concatenation of several pieces iff each piece is at its place.\<close>

fun pieces_at :: "mem \<Rightarrow> nat \<Rightarrow> u8 list list \<Rightarrow> bool" where
  "pieces_at m p [] = True"
| "pieces_at m p (b # bs) = (peek m p (length b) = b \<and> pieces_at m (p + length b) bs)"

lemma peek_concat: "n = length (concat bs) \<Longrightarrow> peek m p n = concat bs \<longleftrightarrow> pieces_at m p bs"
proof (induction bs arbitrary: p n)
  case Nil
  then show ?case by (simp add: peek_def)
next
  case (Cons b bs)
  then show ?case by (simp add: peek_append)
qed

lemma wr_ok [simp]: "off + length bs \<le> msize m \<Longrightarrow> wr off bs m = Inr (poke m off bs)"
  by (simp add: wr_def)

lemma rd_ok [simp]: "off + n \<le> msize m \<Longrightarrow> rd off n m = Inr (peek m off n)"
  by (simp add: rd_def)

lemma memset_ok [simp]: "off + n \<le> msize m \<Longrightarrow> c_memset off v n m = Inr (poke m off (replicate n v))"
  by (simp add: c_memset_def)

lemma memcpy_ok [simp]:
  "src + n \<le> msize m \<Longrightarrow> dst + n \<le> msize m \<Longrightarrow> c_memcpy dst src n m = Inr (poke m dst (peek m src n))"
  by (simp add: c_memcpy_def)

lemma wr_size: "wr off bs m = Inr m' \<Longrightarrow> msize m' = msize m"
  by (auto simp: wr_def split: if_splits)

section \<open>Little-endian representation\<close>

primrec le_enc :: "nat \<Rightarrow> 'a::len word \<Rightarrow> u8 list" where
  "le_enc 0 w = []"
| "le_enc (Suc n) w = ucast w # le_enc n (drop_bit 8 w)"

primrec le_dec :: "u8 list \<Rightarrow> 'a::len word" where
  "le_dec [] = 0"
| "le_dec (b # bs) = ucast b OR push_bit 8 (le_dec bs)"

lemma length_le_enc [simp]: "length (le_enc n w) = n"
  by (induction n arbitrary: w) auto

lemma nth_le_enc: "i < n \<Longrightarrow> le_enc n w ! i = ucast (drop_bit (8 * i) w)"
  by (induction n arbitrary: i w)
    (auto simp: nth_Cons' drop_bit_drop_bit algebra_simps less_Suc_eq_0_disj)

lemma bit_le_dec_bound: "bit (le_dec bs :: 'a::len word) i \<Longrightarrow> i < 8 * length bs"
proof (induction bs arbitrary: i)
  case Nil
  then show ?case by simp
next
  case (Cons b bs)
  then show ?case
    by (auto simp: bit_simps dest: bit_imp_le_length) (use Cons.IH [of "i - 8"] in force)
qed

lemma le_dec_enc_take: "le_dec (le_enc n w) = take_bit (8 * n) (w :: 'a::len word)"
proof (induction n arbitrary: w)
  case 0
  then show ?case by simp
next
  case (Suc n)
  show ?case
    by (rule bit_word_eqI) (auto simp: Suc bit_simps)
qed

lemma le_dec_enc [simp]: "LENGTH('a) \<le> 8 * n \<Longrightarrow> le_dec (le_enc n w) = (w :: 'a::len word)"
  by (simp add: le_dec_enc_take take_bit_word_eq_self)

lemma le_enc_dec:
  "8 * length bs \<le> LENGTH('a) \<Longrightarrow> le_enc (length bs) (le_dec bs :: 'a::len word) = bs"
proof (induction bs)
  case Nil
  then show ?case by simp
next
  case (Cons b bs)
  have lo: "ucast (ucast b OR push_bit 8 (le_dec bs) :: 'a word) = b"
    using Cons.prems by (intro bit_word_eqI) (auto simp: bit_simps)
  have hi: "drop_bit 8 (ucast b OR push_bit 8 (le_dec bs) :: 'a word) = le_dec bs"
  proof (rule bit_word_eqI)
    fix n
    assume "n < LENGTH('a)"
    have "\<not> bit b (8 + n)"
      using bit_imp_le_length [of b "8 + n"] by auto
    moreover have "8 + n < LENGTH('a)" if "bit (le_dec bs :: 'a word) n"
      using bit_le_dec_bound [OF that] Cons.prems by simp
    ultimately show "bit (drop_bit 8 (ucast b OR push_bit 8 (le_dec bs) :: 'a word)) n =
        bit (le_dec bs :: 'a word) n"
      by (auto simp: bit_simps)
  qed
  show ?case
    using Cons by (simp only: le_dec.simps le_enc.simps length_Cons lo hi) simp
qed

lemma le_enc_dec_eq: "length bs = n \<Longrightarrow> 8 * n \<le> LENGTH('a) \<Longrightarrow> le_enc n (le_dec bs :: 'a::len word) = bs"
  using le_enc_dec by blast

lemma le_enc_add: "le_enc (a + b) w = le_enc a w @ le_enc b (drop_bit (8 * a) w)"
  by (induction a arbitrary: w) (simp_all add: drop_bit_drop_bit add.commute)

lemma le_enc_zero: "le_enc n 0 = replicate n 0"
  by (induction n) simp_all

section \<open>What changes in memory\<close>

text \<open>Addresses outside a list of ranges, and two memories that agree there.\<close>

definition outside :: "(nat \<times> nat) list \<Rightarrow> nat \<Rightarrow> bool" where
  "outside rs a \<longleftrightarrow> (\<forall>(p, n)\<in>set rs. a < p \<or> p + n \<le> a)"

definition only_changed :: "(nat \<times> nat) list \<Rightarrow> mem \<Rightarrow> mem \<Rightarrow> bool" where
  "only_changed rs m m' \<longleftrightarrow> msize m' = msize m \<and> (\<forall>a. outside rs a \<longrightarrow> mbyte m' a = mbyte m a)"

lemma outside_simps [simp]:
  "outside [] a" "outside ((p, n) # rs) a \<longleftrightarrow> (a < p \<or> p + n \<le> a) \<and> outside rs a"
  "outside (rs @ qs) a \<longleftrightarrow> outside rs a \<and> outside qs a"
  by (auto simp: outside_def)

lemma outside_subset: "outside qs a \<Longrightarrow> set rs \<subseteq> set qs \<Longrightarrow> outside rs a"
  unfolding outside_def by blast

definition apart :: "(nat \<times> nat) list \<Rightarrow> nat \<Rightarrow> nat \<Rightarrow> bool" where
  "apart rs off k \<longleftrightarrow> (\<forall>(p, n)\<in>set rs. off + k \<le> p \<or> p + n \<le> off)"

lemma only_changed_peek:
  assumes "only_changed rs m m'" and "apart rs off k"
  shows "peek m' off k = peek m off k"
proof (rule peek_cong)
  fix i
  assume "off \<le> i" "i < off + k"
  then have "outside rs i" using assms(2) by (fastforce simp: outside_def apart_def)
  then show "mbyte m' i = mbyte m i" using assms(1) by (simp add: only_changed_def)
qed

lemma only_changed_trans:
  assumes "only_changed rs m m1" and "only_changed rs' m1 m2" and "set rs \<subseteq> set qs" and "set rs' \<subseteq> set qs"
  shows "only_changed qs m m2"
proof -
  have "mbyte m2 a = mbyte m a" if "outside qs a" for a
    using assms outside_subset [OF that assms(3)] outside_subset [OF that assms(4)] by (simp add: only_changed_def)
  then show ?thesis using assms by (simp add: only_changed_def)
qed

lemma only_changed_weaken: "only_changed rs m m' \<Longrightarrow> (\<And>a. outside qs a \<Longrightarrow> outside rs a) \<Longrightarrow> only_changed qs m m'"
  by (simp add: only_changed_def)

lemma only_changed_poke: "only_changed [(p, length bs)] m (poke m p bs)"
  by (auto simp: only_changed_def mbyte_poke)

lemma apart_sub: "apart rs p n \<Longrightarrow> p \<le> q \<Longrightarrow> q + k \<le> p + n \<Longrightarrow> apart rs q k"
  by (fastforce simp: apart_def)

text \<open>Memories that agree outside some ranges, written in the same way elsewhere.\<close>

lemma only_changed_refl: "only_changed rs m m"
  by (simp add: only_changed_def)

lemma only_changed_nil: "only_changed [] m m' \<longleftrightarrow> m' = m"
  by (cases m; cases m') (auto simp: only_changed_def)

lemma only_changed_both: "only_changed rs m m' \<Longrightarrow> only_changed rs (poke m p bs) (poke m' p bs)"
  by (simp add: only_changed_def mbyte_poke)

lemma only_changed_filled:
  assumes "only_changed rs m m1" and "only_changed ((p, length bs) # rs) m1 m2" and "peek m2 p (length bs) = bs"
  shows "only_changed rs (poke m p bs) m2"
proof -
  have "mbyte m2 a = mbyte (poke m p bs) a" if "outside rs a" for a
  proof (cases "p \<le> a \<and> a < p + length bs")
    case True
    then have "mbyte m2 a = bs ! (a - p)"
      using nth_peek [of "a - p" "length bs" m2 p] assms(3) by (auto simp: less_diff_conv2)
    with True show ?thesis by (simp add: mbyte_poke)
  next
    case False
    with assms(1,2) that show ?thesis by (auto simp: only_changed_def mbyte_poke)
  qed
  then show ?thesis using assms(1,2) by (simp add: only_changed_def)
qed

lemma peek_blank: "peek (blank k) off n = replicate n 0"
  by (rule nth_equalityI) (simp_all add: blank_def)

lemma le_dec_zeros: "le_dec (replicate n 0) = 0"
  by (induction n) simp_all

lemma msize_blank: "msize (blank n) = n"
  by (simp add: blank_def)

end
