(* ===== verification/Endian.thy ===== *)
theory Endian
  imports Prelude
begin

text \<open>
  \<open>gpt/endian.h\<close>: detection of the host's byte order, the byte swaps, and the little-endian
  loads and stores that every on-disk field goes through. The host's byte order is the argument
  \<open>h\<close>; \<open>obj\<close> and \<open>val\<close> are the C object representation of a native unsigned integer. The
  lemmas show that the stored bytes and the loaded value do not depend on the host. Packed
  structs are lists of fields with their sizes, from which \<open>sizeof\<close> and \<open>offsetof\<close> are computed.
\<close>

unbundle bit_operations_syntax

section \<open>Host representation\<close>

datatype endian = Little | Big

definition obj :: "endian \<Rightarrow> nat \<Rightarrow> 'a::len word \<Rightarrow> u8 list" where
  "obj h n w = (case h of Little \<Rightarrow> le_enc n w | Big \<Rightarrow> rev (le_enc n w))"

definition val :: "endian \<Rightarrow> u8 list \<Rightarrow> 'a::len word" where
  "val h bs = (case h of Little \<Rightarrow> le_dec bs | Big \<Rightarrow> le_dec (rev bs))"

definition little_endian :: "endian \<Rightarrow> bool" where
  "little_endian h = (let a = obj h 4 (1 :: u32) in a ! 0 = 1)"

section \<open>Byte swaps\<close>

definition swap_16 :: "endian \<Rightarrow> u8 list \<Rightarrow> u16" where
  "swap_16 h src =
     (let dst = obj h 2 (0 :: u16);
          dst = dst[0 := src ! 1];
          dst = dst[1 := src ! 0]
      in val h dst)"

definition swap_32 :: "endian \<Rightarrow> u8 list \<Rightarrow> u32" where
  "swap_32 h src =
     (let dst = obj h 4 (0 :: u32);
          dst = dst[0 := src ! 3];
          dst = dst[3 := src ! 0];
          dst = dst[1 := src ! 2];
          dst = dst[2 := src ! 1]
      in val h dst)"

definition swap_64 :: "endian \<Rightarrow> u8 list \<Rightarrow> u64" where
  "swap_64 h src = val h (map (\<lambda>i. src ! (7 - i)) [0..<8])"

section \<open>Loads and stores\<close>

definition load_le16 :: "endian \<Rightarrow> u8 list \<Rightarrow> u16" where
  "load_le16 h s = (if little_endian h then val h s else swap_16 h s)"

definition store_le16 :: "endian \<Rightarrow> u16 \<Rightarrow> u8 list" where
  "store_le16 h v = (if little_endian h then obj h 2 v else obj h 2 (swap_16 h (obj h 2 v)))"

definition load_le32 :: "endian \<Rightarrow> u8 list \<Rightarrow> u32" where
  "load_le32 h s = (if little_endian h then val h s else swap_32 h s)"

definition store_le32 :: "endian \<Rightarrow> u32 \<Rightarrow> u8 list" where
  "store_le32 h v = (if little_endian h then obj h 4 v else obj h 4 (swap_32 h (obj h 4 v)))"

definition load_le64 :: "endian \<Rightarrow> u8 list \<Rightarrow> u64" where
  "load_le64 h s = (if little_endian h then val h s else swap_64 h s)"

definition store_le64 :: "endian \<Rightarrow> u64 \<Rightarrow> u8 list" where
  "store_le64 h v = (if little_endian h then obj h 8 v else obj h 8 (swap_64 h (obj h 8 v)))"

text \<open>
  The two macros switch on \<open>sizeof(attr)\<close>: \<open>n\<close> is that size, the value is converted to the
  parameter type of the selected function, and any other size runs into \<open>assert(0 && ...)\<close>.
\<close>

definition generic_store_le :: "endian \<Rightarrow> nat \<Rightarrow> u64 \<Rightarrow> u8 list res" where
  "generic_store_le h n v =
     (if n = 1 then Inr [ucast v]
      else if n = 2 then Inr (store_le16 h (ucast v))
      else if n = 4 then Inr (store_le32 h (ucast v))
      else if n = 8 then Inr (store_le64 h v)
      else Inl AssertFail)"

definition generic_load_le :: "endian \<Rightarrow> u8 list \<Rightarrow> u64 res" where
  "generic_load_le h bs =
     (if length bs = 1 then Inr (ucast (bs ! 0))
      else if length bs = 2 then Inr (ucast (load_le16 h bs))
      else if length bs = 4 then Inr (ucast (load_le32 h bs))
      else if length bs = 8 then Inr (load_le64 h bs)
      else Inl AssertFail)"

section \<open>Packed structs\<close>

type_synonym layout = "(string \<times> nat) list"

definition struct_size :: "layout \<Rightarrow> nat" where
  "struct_size L = sum_list (map snd L)"

fun offsetof :: "layout \<Rightarrow> string \<Rightarrow> nat" where
  "offsetof [] f = 0"
| "offsetof ((g, n) # L) f = (if f = g then 0 else n + offsetof L f)"

fun field_size :: "layout \<Rightarrow> string \<Rightarrow> nat" where
  "field_size [] f = 0"
| "field_size ((g, n) # L) f = (if f = g then n else field_size L f)"

text \<open>Where the fields of a struct lie, in order, and that they follow each other inside \<open>n\<close> bytes.\<close>

definition spans :: "layout \<Rightarrow> (nat \<times> nat) list" where
  "spans L = map (\<lambda>f. (offsetof L f, field_size L f)) (map fst L)"

definition well_laid :: "layout \<Rightarrow> nat \<Rightarrow> bool" where
  "well_laid L n \<longleftrightarrow> struct_size L = n \<and> sorted_wrt (\<lambda>p q. fst p + snd p \<le> fst q) (spans L) \<and>
     list_all (\<lambda>(a, k). a + k \<le> n) (spans L)"

text \<open>\<open>_generic_store_le(p->f, v)\<close> and \<open>_generic_load_le(x, p->f)\<close> for a struct at address \<open>p\<close>.\<close>

definition put_le :: "endian \<Rightarrow> layout \<Rightarrow> nat \<Rightarrow> string \<Rightarrow> u64 \<Rightarrow> mem \<Rightarrow> mem res" where
  "put_le h L p f v m =
     bindE (generic_store_le h (field_size L f) v) (\<lambda>bs. wr (p + offsetof L f) bs m)"

definition get_le :: "endian \<Rightarrow> layout \<Rightarrow> nat \<Rightarrow> string \<Rightarrow> mem \<Rightarrow> u64 res" where
  "get_le h L p f m = bindE (rd (p + offsetof L f) (field_size L f) m) (generic_load_le h)"

definition put_les :: "endian \<Rightarrow> layout \<Rightarrow> nat \<Rightarrow> (string \<times> u64) list \<Rightarrow> mem \<Rightarrow> mem res" where
  "put_les h L p fvs m = foldE (\<lambda>(f, v). put_le h L p f v) fvs m"

text \<open>A plain assignment \<open>p->f = v\<close>: the object representation of the host.\<close>

definition put_native :: "endian \<Rightarrow> layout \<Rightarrow> nat \<Rightarrow> string \<Rightarrow> u64 \<Rightarrow> mem \<Rightarrow> mem res" where
  "put_native h L p f v m = wr (p + offsetof L f) (obj h (field_size L f) v) m"

text \<open>A plain read \<open>p->f\<close>, converted to the type of the variable it initialises.\<close>

definition get_native :: "endian \<Rightarrow> layout \<Rightarrow> nat \<Rightarrow> string \<Rightarrow> mem \<Rightarrow> 'a::len word res" where
  "get_native h L p f m = bindE (rd (p + offsetof L f) (field_size L f) m) (\<lambda>bs. Inr (val h bs))"

definition put_bytes :: "layout \<Rightarrow> nat \<Rightarrow> string \<Rightarrow> u8 list \<Rightarrow> mem \<Rightarrow> mem res" where
  "put_bytes L p f bs m = wr (p + offsetof L f) bs m"

section \<open>The host's byte order does not matter\<close>

lemma length_obj [simp]: "length (obj h n w) = n"
  by (cases h) (simp_all add: obj_def)

lemma little_endian_iff [simp]: "little_endian h \<longleftrightarrow> h = Little"
  by (cases h) (simp_all add: little_endian_def obj_def numeral_eq_Suc)

lemma le_enc_ucast:
  "8 * n \<le> LENGTH('a) \<Longrightarrow> 8 * n \<le> LENGTH('b) \<Longrightarrow>
   le_enc n (ucast w :: 'b::len word) = le_enc n (w :: 'a::len word)"
proof (rule nth_equalityI)
  fix i
  assume *: "8 * n \<le> LENGTH('a)" "8 * n \<le> LENGTH('b)"
    and "i < length (le_enc n (ucast w :: 'b word))"
  then have "i < n" by simp
  have "ucast (drop_bit (8 * i) (ucast w :: 'b word)) = (ucast (drop_bit (8 * i) w) :: u8)"
    using * \<open>i < n\<close> by (intro bit_word_eqI) (auto simp: bit_simps)
  then show "le_enc n (ucast w :: 'b word) ! i = le_enc n w ! i"
    using \<open>i < n\<close> by (simp add: nth_le_enc)
qed simp

lemma le_enc_4_ucast [simp]: "le_enc 4 (ucast w :: u64) = le_enc 4 (w :: u32)"
  by (rule le_enc_ucast) simp_all

lemma swap_16_eq: "length bs = 2 \<Longrightarrow> swap_16 h bs = val h (rev bs)"
  by (cases h) (auto simp: swap_16_def obj_def numeral_eq_Suc length_Suc_conv)

lemma swap_32_eq: "length bs = 4 \<Longrightarrow> swap_32 h bs = val h (rev bs)"
  by (cases h) (auto simp: swap_32_def obj_def numeral_eq_Suc length_Suc_conv)

lemma swap_64_eq: "length bs = 8 \<Longrightarrow> swap_64 h bs = val h (rev bs)"
  by (auto simp: swap_64_def numeral_eq_Suc length_Suc_conv)

lemma val_rev_Big: "val Big (rev bs) = le_dec bs"
  by (simp add: val_def)

lemma load_le16_eq: "length bs = 2 \<Longrightarrow> load_le16 h bs = le_dec bs"
  by (cases h) (simp_all add: load_le16_def swap_16_eq val_def)

lemma load_le32_eq: "length bs = 4 \<Longrightarrow> load_le32 h bs = le_dec bs"
  by (cases h) (simp_all add: load_le32_def swap_32_eq val_def)

lemma load_le64_eq: "length bs = 8 \<Longrightarrow> load_le64 h bs = le_dec bs"
  by (cases h) (simp_all add: load_le64_def swap_64_eq val_def)

lemma rev_le_enc_dec_rev:
  "8 * n \<le> LENGTH('a) \<Longrightarrow> rev (le_enc n (le_dec (rev (le_enc n v)) :: 'a::len word)) = le_enc n v"
  using le_enc_dec [of "rev (le_enc n v)", where 'a = 'a] by simp

lemma store_le16_eq: "store_le16 h v = le_enc 2 v"
  by (cases h) (simp_all add: store_le16_def swap_16_eq val_def obj_def rev_le_enc_dec_rev)

lemma store_le32_eq: "store_le32 h v = le_enc 4 v"
  by (cases h) (simp_all add: store_le32_def swap_32_eq val_def obj_def rev_le_enc_dec_rev)

lemma store_le64_eq: "store_le64 h v = le_enc 8 v"
  by (cases h) (simp_all add: store_le64_def swap_64_eq val_def obj_def rev_le_enc_dec_rev)

lemma generic_store_le_eq:
  "n \<in> {1, 2, 4, 8} \<Longrightarrow> generic_store_le h n v = Inr (le_enc n v)"
  using le_enc_ucast [of 2 v, where 'b = 16] le_enc_ucast [of 4 v, where 'b = 32]
  by (auto simp: generic_store_le_def store_le16_eq store_le32_eq store_le64_eq)

lemma ucast_le_dec:
  "8 * length bs \<le> LENGTH('a) \<Longrightarrow> 8 * length bs \<le> LENGTH('b) \<Longrightarrow>
   (ucast (le_dec bs :: 'a::len word) :: 'b::len word) = le_dec bs"
proof (induction bs)
  case Nil
  then show ?case by simp
next
  case (Cons b bs)
  show ?case
  proof (rule bit_word_eqI)
    fix n
    assume "n < LENGTH('b)"
    have eq: "bit (le_dec bs :: 'a word) i = bit (le_dec bs :: 'b word) i" if "i < LENGTH('a)" "i < LENGTH('b)" for i
      using arg_cong [OF Cons.IH, of "\<lambda>w. bit w i"] Cons.prems that by (simp add: bit_simps)
    have "n < LENGTH('a)" if "bit (le_dec (b # bs) :: 'b word) n"
      using bit_le_dec_bound [OF that] Cons.prems by simp
    then show "bit (ucast (le_dec (b # bs) :: 'a word) :: 'b word) n = bit (le_dec (b # bs) :: 'b word) n"
      using \<open>n < LENGTH('b)\<close> eq [of "n - 8"] by (auto simp: bit_simps)
  qed
qed

lemma generic_load_le_eq:
  "length bs \<in> {1, 2, 4, 8} \<Longrightarrow> generic_load_le h bs = Inr (le_dec bs)"
proof -
  have one: "length bs = 1 \<Longrightarrow> ucast (bs ! 0) = (le_dec bs :: u64)"
    by (auto simp: length_Suc_conv)
  assume "length bs \<in> {1, 2, 4, 8}"
  then show ?thesis
    by (auto simp: generic_load_le_def one load_le16_eq load_le32_eq load_le64_eq ucast_le_dec)
qed

text \<open>Field accesses on a struct at \<open>p\<close> inside the buffer, as plain byte writes and reads.\<close>

lemma put_le_ok [simp]:
  "field_size L f \<in> {1, 2, 4, 8} \<Longrightarrow> p + offsetof L f + field_size L f \<le> msize m \<Longrightarrow>
   put_le h L p f v m = Inr (poke m (p + offsetof L f) (le_enc (field_size L f) v))"
  by (simp add: put_le_def generic_store_le_eq)

lemma get_le_ok [simp]:
  "field_size L f \<in> {1, 2, 4, 8} \<Longrightarrow> p + offsetof L f + field_size L f \<le> msize m \<Longrightarrow>
   get_le h L p f m = Inr (le_dec (peek m (p + offsetof L f) (field_size L f)))"
  by (simp add: get_le_def generic_load_le_eq)

lemma put_native_ok [simp]:
  "p + offsetof L f + field_size L f \<le> msize m \<Longrightarrow>
   put_native h L p f v m = Inr (poke m (p + offsetof L f) (obj h (field_size L f) v))"
  by (simp add: put_native_def)

lemma put_bytes_ok [simp]:
  "p + offsetof L f + length bs \<le> msize m \<Longrightarrow> put_bytes L p f bs m = Inr (poke m (p + offsetof L f) bs)"
  by (simp add: put_bytes_def)

lemma put_les_Nil [simp]: "put_les h L p [] m = Inr m"
  by (simp add: put_les_def)

lemma put_les_Cons [simp]:
  "put_les h L p ((f, v) # fvs) m = bindE (put_le h L p f v m) (put_les h L p fvs)"
  by (simp add: put_les_def bindE_def split: sum.splits)

lemma field_end: "offsetof L f + field_size L f \<le> struct_size L"
  by (induction L f rule: field_size.induct) (auto simp: struct_size_def)

text \<open>The bytes of a packed struct are those of its fields, in order.\<close>

fun slices :: "layout \<Rightarrow> nat \<Rightarrow> nat \<Rightarrow> mem \<Rightarrow> u8 list" where
  "slices [] p k m = []"
| "slices ((f, n) # L) p k m = peek m (p + k) n @ slices L p (k + n) m"

lemma peek_slices: "peek m (p + k) (struct_size L) = slices L p k m"
proof (induction L p k m rule: slices.induct)
  case (1 p k m)
  show ?case by (simp add: struct_size_def peek_def)
next
  case (2 f n L p k m)
  then show ?case by (simp add: struct_size_def peek_append add.assoc)
qed

lemma peek_struct: "peek m p (struct_size L) = slices L p 0 m"
  using peek_slices [of m p 0 L] by simp

section \<open>Scalar codecs\<close>

text \<open>
  What a client of the header relies on: a fixed width, and that a value survives the trip
  through memory. The lemmas are proved once and obtained for the functions of every width.
\<close>

locale scalar_codec =
  fixes width :: nat
    and st :: "'v \<Rightarrow> u8 list"
    and ld :: "u8 list \<Rightarrow> 'v"
  assumes st_length: "length (st v) = width"
    and ld_st: "ld (st v) = v"
    and st_ld: "length bs = width \<Longrightarrow> st (ld bs) = bs"
begin

lemma load_after_store: "ld (peek (poke m off (st v)) off width) = v"
  by (simp add: st_length ld_st)

lemma load_after_other_store:
  "off + width \<le> off' \<or> off' + width \<le> off \<Longrightarrow>
   ld (peek (poke m off' (st v)) off width) = ld (peek m off width)"
  by (subst peek_poke_disjoint) (auto simp: st_length)

lemma st_inject: "st v = st w \<longleftrightarrow> v = w"
  by (metis ld_st)

lemma store_back: "poke m off (st (ld (peek m off width))) = m"
  by (simp add: st_ld)

end

interpretation le16: scalar_codec 2 "store_le16 h" "load_le16 h" for h
  by unfold_locales (simp_all add: store_le16_eq load_le16_eq le_enc_dec_eq)

interpretation le32: scalar_codec 4 "store_le32 h" "load_le32 h" for h
  by unfold_locales (simp_all add: store_le32_eq load_le32_eq le_enc_dec_eq)

interpretation le64: scalar_codec 8 "store_le64 h" "load_le64 h" for h
  by unfold_locales (simp_all add: store_le64_eq load_le64_eq le_enc_dec_eq)

section \<open>Fields do not overlap\<close>

lemma spans_Cons: "f \<notin> fst ` set L \<Longrightarrow> spans ((f, n) # L) = (0, n) # map (\<lambda>(a, k). (n + a, k)) (spans L)"
  by (auto simp: spans_def)

text \<open>A struct whose field names differ is laid out field after field.\<close>

lemma well_laid_distinct: "distinct (map fst L) \<Longrightarrow> struct_size L = n \<Longrightarrow> well_laid L n"
proof (induction L arbitrary: n)
  case Nil
  then show ?case by (simp add: well_laid_def spans_def)
next
  case (Cons x L)
  obtain f k where x: "x = (f, k)" by fastforce
  have L: "well_laid L (struct_size L)" and n: "n = k + struct_size L" and sp: "spans (x # L) = (0, k) # map (\<lambda>(a, j). (k + a, j)) (spans L)"
    using Cons x spans_Cons [of f L k] by (auto simp: struct_size_def)
  show ?case using L unfolding well_laid_def n sp
    by (auto simp: x struct_size_def sorted_wrt_map list_all_iff case_prod_beta)
qed

end
