(* ===== verification/Crc32.thy ===== *)
theory Crc32
  imports Prelude
begin

text \<open>
  The CRC-32 of \<open>gpt/gpt.c\<close>: the 256-entry table, the byte loop \<open>__efi_crc32\<close> and \<open>crc32\<close>.
  The table-driven loop is proved equal to the bit-serial definition of the reflected polynomial
  \<open>0xEDB88320\<close>, and the checksum is shown to tell apart any two messages that differ in one byte.
\<close>

unbundle bit_operations_syntax

definition crc32_tab :: "u32 list" where
  "crc32_tab =
     [0x00000000, 0x77073096, 0xee0e612c, 0x990951ba, 0x076dc419, 0x706af48f,
      0xe963a535, 0x9e6495a3, 0x0edb8832, 0x79dcb8a4, 0xe0d5e91e, 0x97d2d988,
      0x09b64c2b, 0x7eb17cbd, 0xe7b82d07, 0x90bf1d91, 0x1db71064, 0x6ab020f2,
      0xf3b97148, 0x84be41de, 0x1adad47d, 0x6ddde4eb, 0xf4d4b551, 0x83d385c7,
      0x136c9856, 0x646ba8c0, 0xfd62f97a, 0x8a65c9ec, 0x14015c4f, 0x63066cd9,
      0xfa0f3d63, 0x8d080df5, 0x3b6e20c8, 0x4c69105e, 0xd56041e4, 0xa2677172,
      0x3c03e4d1, 0x4b04d447, 0xd20d85fd, 0xa50ab56b, 0x35b5a8fa, 0x42b2986c,
      0xdbbbc9d6, 0xacbcf940, 0x32d86ce3, 0x45df5c75, 0xdcd60dcf, 0xabd13d59,
      0x26d930ac, 0x51de003a, 0xc8d75180, 0xbfd06116, 0x21b4f4b5, 0x56b3c423,
      0xcfba9599, 0xb8bda50f, 0x2802b89e, 0x5f058808, 0xc60cd9b2, 0xb10be924,
      0x2f6f7c87, 0x58684c11, 0xc1611dab, 0xb6662d3d, 0x76dc4190, 0x01db7106,
      0x98d220bc, 0xefd5102a, 0x71b18589, 0x06b6b51f, 0x9fbfe4a5, 0xe8b8d433,
      0x7807c9a2, 0x0f00f934, 0x9609a88e, 0xe10e9818, 0x7f6a0dbb, 0x086d3d2d,
      0x91646c97, 0xe6635c01, 0x6b6b51f4, 0x1c6c6162, 0x856530d8, 0xf262004e,
      0x6c0695ed, 0x1b01a57b, 0x8208f4c1, 0xf50fc457, 0x65b0d9c6, 0x12b7e950,
      0x8bbeb8ea, 0xfcb9887c, 0x62dd1ddf, 0x15da2d49, 0x8cd37cf3, 0xfbd44c65,
      0x4db26158, 0x3ab551ce, 0xa3bc0074, 0xd4bb30e2, 0x4adfa541, 0x3dd895d7,
      0xa4d1c46d, 0xd3d6f4fb, 0x4369e96a, 0x346ed9fc, 0xad678846, 0xda60b8d0,
      0x44042d73, 0x33031de5, 0xaa0a4c5f, 0xdd0d7cc9, 0x5005713c, 0x270241aa,
      0xbe0b1010, 0xc90c2086, 0x5768b525, 0x206f85b3, 0xb966d409, 0xce61e49f,
      0x5edef90e, 0x29d9c998, 0xb0d09822, 0xc7d7a8b4, 0x59b33d17, 0x2eb40d81,
      0xb7bd5c3b, 0xc0ba6cad, 0xedb88320, 0x9abfb3b6, 0x03b6e20c, 0x74b1d29a,
      0xead54739, 0x9dd277af, 0x04db2615, 0x73dc1683, 0xe3630b12, 0x94643b84,
      0x0d6d6a3e, 0x7a6a5aa8, 0xe40ecf0b, 0x9309ff9d, 0x0a00ae27, 0x7d079eb1,
      0xf00f9344, 0x8708a3d2, 0x1e01f268, 0x6906c2fe, 0xf762575d, 0x806567cb,
      0x196c3671, 0x6e6b06e7, 0xfed41b76, 0x89d32be0, 0x10da7a5a, 0x67dd4acc,
      0xf9b9df6f, 0x8ebeeff9, 0x17b7be43, 0x60b08ed5, 0xd6d6a3e8, 0xa1d1937e,
      0x38d8c2c4, 0x4fdff252, 0xd1bb67f1, 0xa6bc5767, 0x3fb506dd, 0x48b2364b,
      0xd80d2bda, 0xaf0a1b4c, 0x36034af6, 0x41047a60, 0xdf60efc3, 0xa867df55,
      0x316e8eef, 0x4669be79, 0xcb61b38c, 0xbc66831a, 0x256fd2a0, 0x5268e236,
      0xcc0c7795, 0xbb0b4703, 0x220216b9, 0x5505262f, 0xc5ba3bbe, 0xb2bd0b28,
      0x2bb45a92, 0x5cb36a04, 0xc2d7ffa7, 0xb5d0cf31, 0x2cd99e8b, 0x5bdeae1d,
      0x9b64c2b0, 0xec63f226, 0x756aa39c, 0x026d930a, 0x9c0906a9, 0xeb0e363f,
      0x72076785, 0x05005713, 0x95bf4a82, 0xe2b87a14, 0x7bb12bae, 0x0cb61b38,
      0x92d28e9b, 0xe5d5be0d, 0x7cdcefb7, 0x0bdbdf21, 0x86d3d2d4, 0xf1d4e242,
      0x68ddb3f8, 0x1fda836e, 0x81be16cd, 0xf6b9265b, 0x6fb077e1, 0x18b74777,
      0x88085ae6, 0xff0f6a70, 0x66063bca, 0x11010b5c, 0x8f659eff, 0xf862ae69,
      0x616bffd3, 0x166ccf45, 0xa00ae278, 0xd70dd2ee, 0x4e048354, 0x3903b3c2,
      0xa7672661, 0xd06016f7, 0x4969474d, 0x3e6e77db, 0xaed16a4a, 0xd9d65adc,
      0x40df0b66, 0x37d83bf0, 0xa9bcae53, 0xdebb9ec5, 0x47b2cf7f, 0x30b5ffe9,
      0xbdbdf21c, 0xcabac28a, 0x53b39330, 0x24b4a3a6, 0xbad03605, 0xcdd70693,
      0x54de5729, 0x23d967bf, 0xb3667a2e, 0xc4614ab8, 0x5d681b02, 0x2a6f2b94,
      0xb40bbe37, 0xc30c8ea1, 0x5a05df1b, 0x2d02ef8d]"

text \<open>The loop of \<open>__efi_crc32\<close> over the bytes \<open>s[0], ..., s[len - 1]\<close>.\<close>

fun efi_crc32 :: "u8 list \<Rightarrow> u32 \<Rightarrow> u32" where
  "efi_crc32 [] crc32val = crc32val"
| "efi_crc32 (b # bs) crc32val =
     efi_crc32 bs (crc32_tab ! unat ((crc32val XOR ucast b) AND 0xff) XOR drop_bit 8 crc32val)"

definition crc32 :: "u8 list \<Rightarrow> u32" where
  "crc32 buf = efi_crc32 buf (NOT 0) XOR NOT 0"

section \<open>The bit-serial reference\<close>

definition crc_bit :: "u32 \<Rightarrow> u32" where
  "crc_bit c = (if bit c 0 then drop_bit 1 c XOR 0xEDB88320 else drop_bit 1 c)"

definition crc_byte :: "u32 \<Rightarrow> u8 \<Rightarrow> u32" where
  "crc_byte c b = (crc_bit ^^ 8) (c XOR ucast b)"

definition crc32_ref :: "u8 list \<Rightarrow> u32" where
  "crc32_ref bs = NOT (foldl crc_byte (NOT 0) bs)"

lemma crc_bit_0 [simp]: "crc_bit 0 = 0"
  by (simp add: crc_bit_def)

lemma crc_bit_xor: "crc_bit (a XOR b) = crc_bit a XOR crc_bit b"
proof -
  have "drop_bit 1 (a XOR b) = drop_bit 1 a XOR drop_bit 1 b"
    by (simp add: drop_bit_xor)
  then show ?thesis
    by (auto simp: crc_bit_def bit_xor_iff xor.assoc xor.commute xor.left_commute)
qed

lemma crc_bits_xor: "(crc_bit ^^ k) (a XOR b) = (crc_bit ^^ k) a XOR (crc_bit ^^ k) b"
  by (induction k) (simp_all add: crc_bit_xor)

lemma crc_bits_shift: "take_bit k x = 0 \<Longrightarrow> (crc_bit ^^ k) x = drop_bit k x"
proof (induction k)
  case 0
  then show ?case by simp
next
  case (Suc k)
  have low: "\<not> bit x i" if "i < Suc k" for i
    using arg_cong [OF Suc.prems, of "\<lambda>w. bit w i"] that by (auto simp: bit_take_bit_iff)
  have "take_bit k x = 0"
    by (rule bit_word_eqI) (auto simp: bit_take_bit_iff low)
  with Suc.IH have "(crc_bit ^^ k) x = drop_bit k x" by simp
  moreover have "\<not> bit (drop_bit k x) 0"
    using low [of k] by (simp add: bit_drop_bit_eq)
  then have "crc_bit (drop_bit k x) = drop_bit (Suc k) x"
    by (simp add: crc_bit_def drop_bit_drop_bit)
  ultimately show ?case by simp
qed

lemma length_crc32_tab: "length crc32_tab = 256"
  by (simp add: crc32_tab_def)

lemma crc_bits_8: "(crc_bit ^^ 8) c =
    crc_bit (crc_bit (crc_bit (crc_bit (crc_bit (crc_bit (crc_bit (crc_bit c)))))))"
  by (simp add: numeral_eq_Suc)

lemma crc_bits_powers:
  "(crc_bit ^^ 8) 1 = 0x77073096"
  "(crc_bit ^^ 8) 2 = 0xee0e612c"
  "(crc_bit ^^ 8) 4 = 0x076dc419"
  "(crc_bit ^^ 8) 8 = 0x0edb8832"
  "(crc_bit ^^ 8) 16 = 0x1db71064"
  "(crc_bit ^^ 8) 32 = 0x3b6e20c8"
  "(crc_bit ^^ 8) 64 = 0x76dc4190"
  "(crc_bit ^^ 8) 128 = 0xedb88320"
  by (simp_all add: crc_bits_8 crc_bit_def)

text \<open>
  The table is linear: each power of two doubles it, by the exclusive-or with its own entry.
\<close>

lemma crc32_tab_doubling:
  "crc32_tab = foldl (\<lambda>xs t. xs @ map ((XOR) ((crc_bit ^^ 8) t)) xs) [0] [1, 2, 4, 8, 16, 32, 64, 128]"
  by (simp add: crc_bits_powers crc32_tab_def)

lemma doubling_map:
  assumes "n \<le> 31"
  shows "map (\<lambda>i. (crc_bit ^^ 8) (of_nat i)) [0..<2 ^ n] @
      map ((XOR) ((crc_bit ^^ 8) (2 ^ n))) (map (\<lambda>i. (crc_bit ^^ 8) (of_nat i)) [0..<2 ^ n]) =
    map (\<lambda>i. (crc_bit ^^ 8) (of_nat i)) [0..<2 ^ Suc n]"
proof -
  have "(2 ^ n) XOR of_nat i = (of_nat (2 ^ n + i) :: u32)" if "i < 2 ^ n" for i
  proof -
    have "(2 ^ n) AND (of_nat i :: u32) = 0"
    proof (rule bit_word_eqI)
      fix k
      have "\<not> bit i n" using that by (simp add: bit_iff_odd)
      then show "bit ((2 ^ n) AND (of_nat i :: u32)) k = bit (0 :: u32) k"
        by (auto simp: bit_simps)
    qed
    then show ?thesis
      by (simp add: disjunctive_xor_eq_or disjunctive_add_eq_or)
  qed
  then have "map ((XOR) ((crc_bit ^^ 8) (2 ^ n))) (map (\<lambda>i. (crc_bit ^^ 8) (of_nat i)) [0..<2 ^ n]) =
      map (\<lambda>i. (crc_bit ^^ 8) (of_nat i)) (map (\<lambda>i. 2 ^ n + i) [0..<2 ^ n])"
    by (simp flip: crc_bits_xor)
  moreover have "[0..<2 ^ Suc n] = [0..<2 ^ n] @ map (\<lambda>i. 2 ^ n + i) [0..<2 ^ n]"
    using upt_add_eq_append [of 0 "2 ^ n" "2 ^ n"] map_add_upt [of "2 ^ n" "2 ^ n"]
    by (simp add: mult_2 add.commute)
  ultimately show ?thesis by simp
qed

lemma crc_bits_split: "(crc_bit ^^ 8) x = (crc_bit ^^ 8) (x AND 0xff) XOR drop_bit 8 x"
proof -
  let ?M = "mask 8 :: u32"
  have M: "0xff = ?M" by (simp add: mask_eq_exp_minus_1)
  have "x = (x AND ?M) XOR (x AND NOT ?M)"
    by (rule bit_word_eqI) (auto simp: bit_simps)
  then have "(crc_bit ^^ 8) x = (crc_bit ^^ 8) (x AND ?M) XOR (crc_bit ^^ 8) (x AND NOT ?M)"
    by (metis crc_bits_xor)
  moreover have "take_bit 8 (x AND NOT ?M) = 0"
    by (rule bit_word_eqI) (auto simp: bit_simps)
  then have "(crc_bit ^^ 8) (x AND NOT ?M) = drop_bit 8 (x AND NOT ?M)"
    by (rule crc_bits_shift)
  moreover have "drop_bit 8 (x AND NOT ?M) = drop_bit 8 x"
    by (rule bit_word_eqI) (auto simp: bit_simps dest: bit_imp_le_length)
  ultimately show ?thesis by (simp add: M)
qed


lemma doubling_foldl:
  "n \<le> 32 \<Longrightarrow> foldl (\<lambda>xs t. xs @ map ((XOR) ((crc_bit ^^ 8) t)) xs) [0] (map ((^) 2) [0..<n]) =
    map (\<lambda>i. (crc_bit ^^ 8) (of_nat i)) [0..<2 ^ n]"
proof (induction n)
  case 0
  show ?case by (simp add: crc_bits_8)
next
  case (Suc n)
  then show ?case using doubling_map [of n] by (simp del: map_map)
qed

lemma crc32_tab_nth:
  assumes "i < 256"
  shows "crc32_tab ! i = (crc_bit ^^ 8) (of_nat i)"
proof -
  have pows: "[1, 2, 4, 8, 16, 32, 64, 128 :: u32] = map ((^) 2) [0..<8]"
    by (simp add: upt_conv_Cons)
  have tab: "crc32_tab = map (\<lambda>i. (crc_bit ^^ 8) (of_nat i)) [0..<2 ^ 8]"
    unfolding crc32_tab_doubling pows by (rule doubling_foldl) simp
  show ?thesis
    unfolding tab using assms by (subst nth_map) simp_all
qed

section \<open>The table-driven loop is the bit-serial one\<close>

lemma crc_step_eq: "crc32_tab ! unat ((c XOR ucast b) AND 0xff) XOR drop_bit 8 c = crc_byte c b"
proof -
  have "unat ((c XOR ucast b) AND 0xff) < 256"
    by (rule le_less_trans [OF word_and_le1 [THEN word_le_nat_alt [THEN iffD1]]]) simp
  moreover have "drop_bit 8 (c XOR ucast b) = drop_bit 8 c"
    by (rule bit_word_eqI) (auto simp: bit_simps dest: bit_imp_le_length)
  ultimately show ?thesis
    by (simp add: crc32_tab_nth crc_byte_def crc_bits_split [of "c XOR ucast b"])
qed

lemma efi_crc32_eq: "efi_crc32 bs c = foldl crc_byte c bs"
  by (induction bs arbitrary: c) (simp_all add: crc_step_eq)

lemma xor_right_cancel: "a XOR c = b XOR c \<longleftrightarrow> a = (b :: 'a::len word)"
  by (metis xor.assoc xor_self_eq xor.right_neutral)

lemma crc_bit_inj: "crc_bit a = crc_bit b \<longleftrightarrow> a = b"
proof
  assume eq: "crc_bit a = crc_bit b"
  have top: "bit (crc_bit c) 31 = bit c 0" for c
    by (simp add: crc_bit_def bit_simps) (auto dest: bit_imp_le_length)
  then have b0: "bit a 0 = bit b 0" using eq by metis
  then have "drop_bit 1 a = drop_bit 1 b"
    using eq by (auto simp: crc_bit_def xor_right_cancel split: if_splits)
  then have "bit a n = bit b n" for n
    using b0 bit_drop_bit_eq [of 1 a] bit_drop_bit_eq [of 1 b]
    by (cases n) (auto simp: fun_eq_iff)
  then show "a = b" by (simp add: bit_eq_iff)
qed simp

lemma crc_bits_inj: "(crc_bit ^^ k) a = (crc_bit ^^ k) b \<longleftrightarrow> a = b"
  by (induction k) (simp_all add: crc_bit_inj)

lemma crc_byte_inj_state: "crc_byte c b = crc_byte c' b \<longleftrightarrow> c = c'"
  by (simp add: crc_byte_def crc_bits_inj xor_right_cancel)

lemma ucast_ucast_b8: "ucast (ucast b :: u32) = (b :: u8)"
  by (rule bit_word_eqI) (auto simp: bit_simps)

lemma crc_byte_inj_byte: "crc_byte c b = crc_byte c b' \<longleftrightarrow> b = b'"
proof -
  have "ucast b = (ucast b' :: u32) \<longleftrightarrow> b = b'"
    by (metis ucast_ucast_b8)
  then show ?thesis
    by (metis crc_byte_def crc_bits_inj xor.commute xor_right_cancel)
qed

lemma crc_foldl_inj: "foldl crc_byte c bs = foldl crc_byte c' bs \<longleftrightarrow> c = c'"
  by (induction bs arbitrary: c c') (simp_all add: crc_byte_inj_state)

section \<open>Properties\<close>

text \<open>
  C5: the table-driven \<open>crc32\<close> computes the CRC-32 of the reflected polynomial \<open>0xEDB88320\<close> with
  initial value and final exclusive-or \<open>0xFFFFFFFF\<close>, bit by bit, on every buffer.
\<close>

theorem crc32_bit_serial: "crc32 buf = crc32_ref buf"
  by (simp add: crc32_def crc32_ref_def efi_crc32_eq)

text \<open>
  Changing one byte of a buffer always changes its checksum, so a damaged byte of a GPT header
  or entry array is detected.
\<close>

theorem crc32_detects_byte: "crc32 (xs @ [b] @ ys) = crc32 (xs @ [b'] @ ys) \<longleftrightarrow> b = b'"
  by (simp add: crc32_def efi_crc32_eq xor_right_cancel crc_foldl_inj crc_byte_inj_byte)

end
