(* ===== verification/Gpt.thy ===== *)
theory Gpt
  imports Endian Crc32
begin

text \<open>
  \<open>gpt/gpt.h\<close> and \<open>gpt/gpt.c\<close>: the protective MBR, the allocation of partitions, the partition
  entry array and the primary and backup GPT headers with their checksums. The disk image is a
  \<open>mem\<close>; the partition descriptors, which \<open>GPTGenerate\<close> updates with their start, are threaded
  explicitly. \<open>size_t\<close> is a 64-bit word.
\<close>

unbundle bit_operations_syntax

section \<open>Data\<close>

definition GPT_SECTOR_SIZE :: nat where
  "GPT_SECTOR_SIZE = 512"

record GUID =
  timeLow :: u32
  timeMid :: u16
  timeHigh :: u16
  clockSeqHigh :: u8
  clockSeqLow :: u8
  node :: "u8 list"

record PartitionConfig =
  partType :: GUID
  partId :: GUID
  pname :: string
  pvolume :: u64
  startLBA :: u64

record GPTConfig =
  gvolume :: u64
  numPart :: u64
  partitions :: "PartitionConfig list"
  diskId :: GUID

definition GUID_layout :: layout where
  "GUID_layout =
     [(''timeLow'', 4), (''timeMid'', 2), (''timeHigh'', 2), (''clockSeqHigh'', 1),
      (''clockSeqLow'', 1), (''node'', 6)]"

text \<open>The packed structs that are laid over the image, field by field.\<close>

definition PartitionRecord_layout :: layout where
  "PartitionRecord_layout =
     [(''bootIndicator'', 1), (''startCHS'', 3), (''osType'', 1), (''endCHS'', 3),
      (''startLBA'', 4), (''sizeInLBA'', 4)]"

definition MBR_layout :: layout where
  "MBR_layout =
     [(''bootCode'', 440), (''rDiskSignature'', 4), (''unknown'', 2),
      (''records'', 4 * struct_size PartitionRecord_layout), (''signature'', 2)]"

definition GPTHeader_layout :: layout where
  "GPTHeader_layout =
     [(''signature'', 8), (''revision'', 4), (''headerSize'', 4), (''headerCRC32'', 4),
      (''reserved'', 4), (''thisLBA'', 8), (''alternateLBA'', 8), (''firstUsableLBA'', 8),
      (''lastUsableLBA'', 8), (''diskID'', 16), (''startEntryArray'', 8), (''numEntries'', 4),
      (''sizeEntryArray'', 4), (''crc32EntryArray'', 4)]"

definition PartitionEntry_layout :: layout where
  "PartitionEntry_layout =
     [(''partType'', 16), (''partId'', 16), (''startLBA'', 8), (''endLBA'', 8), (''attrs'', 8),
      (''partitionName'', 72)]"

text \<open>The bytes of a \<open>struct GUID\<close> object on the host, as \<open>memcpy\<close> copies them.\<close>

definition GUID_obj :: "endian \<Rightarrow> GUID \<Rightarrow> u8 list" where
  "GUID_obj h g =
     obj h 4 (timeLow g) @ obj h 2 (timeMid g) @ obj h 2 (timeHigh g) @
     [clockSeqHigh g, clockSeqLow g] @ node g"

definition getSector :: "u64 \<Rightarrow> nat" where
  "getSector sector = unat (sector * 512)"

definition EFI_SYSTEM_PARTITION :: GUID where
  "EFI_SYSTEM_PARTITION =
     \<lparr>timeLow = 0xc12a7328, timeMid = 0xf81f, timeHigh = 0x11d2, clockSeqHigh = 0xba,
      clockSeqLow = 0x4b, node = [0x00, 0xa0, 0xc9, 0x3e, 0xc9, 0x3b]\<rparr>"

definition PARTITION_WITH_LEGACY_MBR :: GUID where
  "PARTITION_WITH_LEGACY_MBR =
     \<lparr>timeLow = 0x024dee41, timeMid = 0x33e7, timeHigh = 0x11d3, clockSeqHigh = 0x9d,
      clockSeqLow = 0x69, node = [0x00, 0x08, 0xc7, 0x81, 0xf3, 0x9f]\<rparr>"

definition myDiskID :: GUID where
  "myDiskID =
     \<lparr>timeLow = 0x9e8d8d40, timeMid = 0xe4d1, timeHigh = 0x3547, clockSeqHigh = 0xad,
      clockSeqLow = 0x9e, node = [0x86, 0x52, 0x3f, 0x5e, 0x2f, 0x4a]\<rparr>"

section \<open>The protective MBR\<close>

definition createProtectGPT :: "endian \<Rightarrow> nat \<Rightarrow> u64 \<Rightarrow> u64 \<Rightarrow> mem \<Rightarrow> mem res" where
  "createProtectGPT h mbr blockSize nBlock m =
     (let record0 = mbr + offsetof MBR_layout ''records'';
          start = 0x000200 :: u32;
          end0 = ucast (blockSize * nBlock) :: u32;
          end1 = (if 0xFFFFFF < end0 then 0xFFFFFF else end0);
          size_lba = (if 0xFFFFFFFF \<le> nBlock then 0xFFFFFFFF else nBlock - 1) in
      bindE (c_memset mbr 0 (struct_size MBR_layout) m) (\<lambda>m.
      bindE (put_native h MBR_layout mbr ''signature'' 0xAA55 m) (\<lambda>m.
      bindE (put_native h MBR_layout mbr ''rDiskSignature'' 0 m) (\<lambda>m.
      bindE (put_native h MBR_layout mbr ''unknown'' 0 m) (\<lambda>m.
      bindE (put_native h PartitionRecord_layout record0 ''bootIndicator'' 0x80 m) (\<lambda>m.
      bindE (put_bytes PartitionRecord_layout record0 ''startCHS'' (take 3 (obj h 4 start)) m) (\<lambda>m.
      bindE (put_native h PartitionRecord_layout record0 ''osType'' 0xEE m) (\<lambda>m.
      bindE (put_bytes PartitionRecord_layout record0 ''endCHS'' (take 3 (obj h 4 end1)) m) (\<lambda>m.
      bindE (put_native h PartitionRecord_layout record0 ''startLBA'' 1 m) (\<lambda>m.
      put_native h PartitionRecord_layout record0 ''sizeInLBA'' size_lba m))))))))))"

section \<open>Partition allocation\<close>

text \<open>
  The loop that gives each partition its start: the number of iterations left, the free sectors,
  the next start and the descriptors not yet visited. It stops at the first partition that does
  not fit and returns how many were placed, the descriptors, and the next start.
\<close>

fun alloc_partitions ::
  "nat \<Rightarrow> u64 \<Rightarrow> u64 \<Rightarrow> PartitionConfig list \<Rightarrow> (nat \<times> PartitionConfig list \<times> u64) res" where
  "alloc_partitions 0 remains start cps = Inr (0, cps, start)"
| "alloc_partitions (Suc k) remains start [] = Inl WildAccess"
| "alloc_partitions (Suc k) remains start (cp # cps) =
     (if remains < pvolume cp then Inr (0, cp # cps, start)
      else bindE (alloc_partitions k (remains - pvolume cp) (start + pvolume cp) cps)
        (\<lambda>(n, cps', start'). Inr (Suc n, cp\<lparr>startLBA := start\<rparr> # cps', start')))"

section \<open>The entry array\<close>

fun writePartitionName :: "nat \<Rightarrow> string \<Rightarrow> mem \<Rightarrow> mem res" where
  "writePartitionName p [] m = Inr m"
| "writePartitionName p (c # cs) m =
     bindE (wr p [of_char c] m) (\<lambda>m.
     bindE (wr (p + 1) [0] m) (\<lambda>m. writePartitionName (p + 2) cs m))"

definition write_entry :: "endian \<Rightarrow> nat \<Rightarrow> nat \<Rightarrow> PartitionConfig \<Rightarrow> mem \<Rightarrow> mem res" where
  "write_entry h arrayBytes p cp m =
     bindE (c_memset p 0 arrayBytes m) (\<lambda>m.
     bindE (put_les h PartitionEntry_layout p
        [(''startLBA'', startLBA cp),
         (''endLBA'', startLBA cp + pvolume cp - 1),
         (''attrs'', 5)] m) (\<lambda>m.
     bindE (put_bytes PartitionEntry_layout p ''partId'' (GUID_obj h (partId cp)) m) (\<lambda>m.
     bindE (put_bytes PartitionEntry_layout p ''partType'' (GUID_obj h (partType cp)) m) (\<lambda>m.
     writePartitionName (p + offsetof PartitionEntry_layout ''partitionName'') (pname cp) m))))"

fun write_entries :: "endian \<Rightarrow> nat \<Rightarrow> nat \<Rightarrow> nat \<Rightarrow> PartitionConfig list \<Rightarrow> mem \<Rightarrow> mem res" where
  "write_entries h arrayBytes 0 p cps m = Inr m"
| "write_entries h arrayBytes (Suc k) p [] m = Inl WildAccess"
| "write_entries h arrayBytes (Suc k) p (cp # cps) m =
     bindE (write_entry h arrayBytes p cp m)
       (write_entries h arrayBytes k (p + struct_size PartitionEntry_layout) cps)"

section \<open>The headers\<close>

definition EFI_PART :: "u8 list" where
  "EFI_PART = map of_char ''EFI PART''"

definition fill_primary ::
  "endian \<Rightarrow> u64 \<Rightarrow> u64 \<Rightarrow> u64 \<Rightarrow> u32 \<Rightarrow> GUID \<Rightarrow> nat \<Rightarrow> mem \<Rightarrow> mem res" where
  "fill_primary h nBlock start nPartition entryArrayCRC disk lba1 m =
     (let H = GPTHeader_layout in
      bindE (put_bytes H lba1 ''signature'' EFI_PART m) (\<lambda>m.
      bindE (put_les h H lba1
        [(''revision'', 0x00010000), (''headerSize'', of_nat (struct_size H)), (''reserved'', 0),
         (''thisLBA'', 1), (''alternateLBA'', nBlock - 1), (''firstUsableLBA'', start),
         (''lastUsableLBA'', nBlock - 2)] m) (\<lambda>m.
      bindE (put_bytes H lba1 ''diskID'' (GUID_obj h disk) m) (\<lambda>m.
      put_les h H lba1
        [(''startEntryArray'', 2), (''numEntries'', nPartition),
         (''sizeEntryArray'', of_nat (struct_size PartitionEntry_layout)),
         (''crc32EntryArray'', ucast entryArrayCRC)] m))))"

text \<open>\<open>_generic_store_le(p->headerCRC32, crc32(p, lba1->headerSize))\<close>, the size read natively.\<close>

definition seal_header :: "endian \<Rightarrow> nat \<Rightarrow> nat \<Rightarrow> mem \<Rightarrow> mem res" where
  "seal_header h lba1 p m =
     bindE (rd (lba1 + offsetof GPTHeader_layout ''headerSize'') 4 m) (\<lambda>hs.
     bindE (rd p (unat (val h hs :: u32)) m) (\<lambda>bs.
     put_le h GPTHeader_layout p ''headerCRC32'' (ucast (crc32 bs)) m))"

definition write_headers ::
  "endian \<Rightarrow> u64 \<Rightarrow> u64 \<Rightarrow> u64 \<Rightarrow> u32 \<Rightarrow> GUID \<Rightarrow> mem \<Rightarrow> mem res" where
  "write_headers h nBlock start nPartition entryArrayCRC disk m =
     (let lba1 = getSector 1; last = getSector (nBlock - 1); size = struct_size GPTHeader_layout in
      bindE (c_memset lba1 0 size m) (\<lambda>m.
      bindE (c_memset last 0 size m) (\<lambda>m.
      bindE (fill_primary h nBlock start nPartition entryArrayCRC disk lba1 m) (\<lambda>m.
      bindE (c_memcpy last lba1 size m) (\<lambda>m.
      bindE (put_les h GPTHeader_layout last
        [(''thisLBA'', nBlock - 1), (''alternateLBA'', 1)] m) (\<lambda>m.
      bindE (seal_header h lba1 lba1 m) (\<lambda>m.
      seal_header h lba1 last m)))))))"

definition GPTGenerate :: "endian \<Rightarrow> GPTConfig \<Rightarrow> mem \<Rightarrow> (u64 \<times> PartitionConfig list \<times> mem) res" where
  "GPTGenerate h config m =
     (let nBlock = gvolume config;
          nEntryPerSector = of_nat (GPT_SECTOR_SIZE div struct_size PartitionEntry_layout);
          nSectorForArray = (nEntryPerSector - 1 + numPart config) div nEntryPerSector;
          nSectorsForFS = nBlock - 4 - nSectorForArray in
      bindE (assertE (struct_size GUID_layout = 16 \<and> struct_size PartitionRecord_layout = 16 \<and>
          struct_size MBR_layout = 512 \<and> 512 \<le> GPT_SECTOR_SIZE \<and>
          struct_size GPTHeader_layout = 92 \<and> struct_size GPTHeader_layout \<le> GPT_SECTOR_SIZE \<and>
          struct_size PartitionEntry_layout = 128 \<and>
          GPT_SECTOR_SIZE mod struct_size PartitionEntry_layout = 0)) (\<lambda>_.
      if nBlock < 4 + nSectorForArray \<or> nSectorForArray = 0 then Inr (0, partitions config, m)
      else
        bindE (createProtectGPT h 0 (of_nat GPT_SECTOR_SIZE) nBlock m) (\<lambda>m.
        bindE (alloc_partitions (unat (numPart config)) nSectorsForFS (2 + nSectorForArray)
          (partitions config)) (\<lambda>(ret, cps, start).
        bindE (write_entries h (unat (nSectorForArray * of_nat GPT_SECTOR_SIZE)) ret (getSector 2) cps m) (\<lambda>m.
        bindE (rd (getSector 2) (struct_size PartitionEntry_layout * ret) m) (\<lambda>bs.
        bindE (write_headers h nBlock start (of_nat ret) (crc32 bs) (diskId config) m) (\<lambda>m.
        Inr (of_nat ret, cps, m))))))))"

section \<open>Layout facts\<close>

lemma gpt_struct_sizes [simp]:
  "struct_size GUID_layout = 16"
  "struct_size PartitionRecord_layout = 16"
  "struct_size MBR_layout = 512"
  "struct_size GPTHeader_layout = 92"
  "struct_size PartitionEntry_layout = 128"
  by (simp_all add: struct_size_def GUID_layout_def PartitionRecord_layout_def MBR_layout_def
      GPTHeader_layout_def PartitionEntry_layout_def)

lemma PartitionEntry_offsets [simp]:
  "offsetof PartitionEntry_layout ''partType'' = 0"
  "offsetof PartitionEntry_layout ''partId'' = 16"
  "offsetof PartitionEntry_layout ''startLBA'' = 32"
  "offsetof PartitionEntry_layout ''endLBA'' = 40"
  "offsetof PartitionEntry_layout ''attrs'' = 48"
  "offsetof PartitionEntry_layout ''partitionName'' = 56"
  "field_size PartitionEntry_layout ''startLBA'' = 8"
  "field_size PartitionEntry_layout ''endLBA'' = 8"
  "field_size PartitionEntry_layout ''attrs'' = 8"
  by (simp_all add: PartitionEntry_layout_def)

lemma GPTHeader_offsets [simp]:
  "offsetof GPTHeader_layout ''signature'' = 0"
  "offsetof GPTHeader_layout ''revision'' = 8"
  "offsetof GPTHeader_layout ''headerSize'' = 12"
  "offsetof GPTHeader_layout ''headerCRC32'' = 16"
  "offsetof GPTHeader_layout ''reserved'' = 20"
  "offsetof GPTHeader_layout ''thisLBA'' = 24"
  "offsetof GPTHeader_layout ''alternateLBA'' = 32"
  "offsetof GPTHeader_layout ''firstUsableLBA'' = 40"
  "offsetof GPTHeader_layout ''lastUsableLBA'' = 48"
  "offsetof GPTHeader_layout ''diskID'' = 56"
  "offsetof GPTHeader_layout ''startEntryArray'' = 72"
  "offsetof GPTHeader_layout ''numEntries'' = 80"
  "offsetof GPTHeader_layout ''sizeEntryArray'' = 84"
  "offsetof GPTHeader_layout ''crc32EntryArray'' = 88"
  by (simp_all add: GPTHeader_layout_def)

lemma GPTHeader_sizes [simp]:
  "field_size GPTHeader_layout ''revision'' = 4"
  "field_size GPTHeader_layout ''headerSize'' = 4"
  "field_size GPTHeader_layout ''headerCRC32'' = 4"
  "field_size GPTHeader_layout ''reserved'' = 4"
  "field_size GPTHeader_layout ''thisLBA'' = 8"
  "field_size GPTHeader_layout ''alternateLBA'' = 8"
  "field_size GPTHeader_layout ''firstUsableLBA'' = 8"
  "field_size GPTHeader_layout ''lastUsableLBA'' = 8"
  "field_size GPTHeader_layout ''startEntryArray'' = 8"
  "field_size GPTHeader_layout ''numEntries'' = 4"
  "field_size GPTHeader_layout ''sizeEntryArray'' = 4"
  "field_size GPTHeader_layout ''crc32EntryArray'' = 4"
  by (simp_all add: GPTHeader_layout_def)

lemma MBR_offsets [simp]:
  "offsetof MBR_layout ''rDiskSignature'' = 440"
  "offsetof MBR_layout ''unknown'' = 444"
  "offsetof MBR_layout ''records'' = 446"
  "offsetof MBR_layout ''signature'' = 510"
  "field_size MBR_layout ''rDiskSignature'' = 4"
  "field_size MBR_layout ''unknown'' = 2"
  "field_size MBR_layout ''signature'' = 2"
  by (simp_all add: MBR_layout_def)

lemma PartitionRecord_offsets [simp]:
  "offsetof PartitionRecord_layout ''bootIndicator'' = 0"
  "offsetof PartitionRecord_layout ''startCHS'' = 1"
  "offsetof PartitionRecord_layout ''osType'' = 4"
  "offsetof PartitionRecord_layout ''endCHS'' = 5"
  "offsetof PartitionRecord_layout ''startLBA'' = 8"
  "offsetof PartitionRecord_layout ''sizeInLBA'' = 12"
  "field_size PartitionRecord_layout ''bootIndicator'' = 1"
  "field_size PartitionRecord_layout ''osType'' = 1"
  "field_size PartitionRecord_layout ''startLBA'' = 4"
  "field_size PartitionRecord_layout ''sizeInLBA'' = 4"
  by (simp_all add: PartitionRecord_layout_def)

section \<open>Where the partitions go\<close>

text \<open>The sectors of the first \<open>i\<close> descriptors.\<close>

definition sectors_before :: "PartitionConfig list \<Rightarrow> nat \<Rightarrow> nat" where
  "sectors_before cps i = sum_list (map (\<lambda>cp. unat (pvolume cp)) (take i cps))"

lemma sectors_before_0 [simp]: "sectors_before cps 0 = 0"
  by (simp add: sectors_before_def)

lemma sectors_before_Cons [simp]:
  "sectors_before (cp # cps) (Suc i) = unat (pvolume cp) + sectors_before cps i"
  by (simp add: sectors_before_def)

lemma sectors_before_Suc:
  "i < length cps \<Longrightarrow> sectors_before cps (Suc i) = sectors_before cps i + unat (pvolume (cps ! i))"
  by (simp add: sectors_before_def take_Suc_conv_app_nth)

lemma sectors_before_mono: "i \<le> j \<Longrightarrow> sectors_before cps i \<le> sectors_before cps j"
  by (metis le_Suc_ex le_add1 map_append sectors_before_def sum_list_append take_add)

text \<open>The specification of the loop: what is placed, where, and why it stopped.\<close>

definition placed ::
  "nat \<Rightarrow> u64 \<Rightarrow> u64 \<Rightarrow> PartitionConfig list \<Rightarrow> nat \<Rightarrow> PartitionConfig list \<Rightarrow> u64 \<Rightarrow> bool" where
  "placed k r s cps n cps' s' \<longleftrightarrow>
     n \<le> k \<and> length cps' = length cps \<and>
     unat s' = unat s + sectors_before cps n \<and>
     sectors_before cps n \<le> unat r \<and>
     (\<forall>i < length cps. cps' ! i =
        (if i < n then (cps ! i)\<lparr>startLBA := of_nat (unat s + sectors_before cps i)\<rparr> else cps ! i)) \<and>
     (n < k \<longrightarrow> unat r - sectors_before cps n < unat (pvolume (cps ! n)))"

lemma placed_step:
  assumes "placed k (r - pvolume cp) (s + pvolume cp) cps n cps' s'" "pvolume cp \<le> r"
    "unat s + unat r < 2 ^ 64"
  shows "placed (Suc k) r s (cp # cps) (Suc n) (cp\<lparr>startLBA := s\<rparr> # cps') s'"
proof -
  let ?v = "pvolume cp"
  have r: "unat (r - ?v) = unat r - unat ?v" "unat ?v \<le> unat r"
    using assms(2) by (simp_all add: unat_sub word_le_nat_alt)
  have s: "unat (s + ?v) = unat s + unat ?v"
    using assms(3) r(2) by (subst unat_add_lem [THEN iffD1]) simp_all
  show ?thesis
    using assms(1) r(2)
    by (auto simp: placed_def r(1) s nth_Cons' add.assoc less_Suc_eq_0_disj split: if_splits)
qed

lemma alloc_partitions_placed:
  "k \<le> length cps \<Longrightarrow> unat s + unat r < 2 ^ 64 \<Longrightarrow>
   \<exists>n cps' s'. alloc_partitions k r s cps = Inr (n, cps', s') \<and> placed k r s cps n cps' s'"
proof (induction k r s cps rule: alloc_partitions.induct)
  case (1 r s cps)
  then show ?case by (auto simp: placed_def)
next
  case (2 k r s)
  then show ?case by simp
next
  case (3 k r s cp cps)
  show ?case
  proof (cases "r < pvolume cp")
    case True
    then show ?thesis by (auto simp: placed_def word_less_nat_alt)
  next
    case False
    then have le: "pvolume cp \<le> r" by simp
    then have "unat (s + pvolume cp) + unat (r - pvolume cp) < 2 ^ 64"
      using 3(3) by (simp add: unat_sub word_le_nat_alt unat_word_ariths)
    then obtain n cps' s' where
      "alloc_partitions k (r - pvolume cp) (s + pvolume cp) cps = Inr (n, cps', s')"
      "placed k (r - pvolume cp) (s + pvolume cp) cps n cps' s'"
      using 3(1) [OF False] 3(2) by auto
    then show ?thesis
      using False placed_step [OF _ le 3(3)] by auto
  qed
qed

section \<open>The bytes of an entry\<close>

definition utf16le :: "string \<Rightarrow> u8 list" where
  "utf16le cs = concat (map (\<lambda>c. [of_char c, 0]) cs)"

definition entry_bytes :: "endian \<Rightarrow> PartitionConfig \<Rightarrow> u8 list" where
  "entry_bytes h cp =
     GUID_obj h (partType cp) @ GUID_obj h (partId cp) @ le_enc 8 (startLBA cp) @
     le_enc 8 (startLBA cp + pvolume cp - 1) @ le_enc 8 (5 :: u64) @
     utf16le (pname cp) @ replicate (72 - 2 * length (pname cp)) 0"

definition config_ok :: "PartitionConfig \<Rightarrow> bool" where
  "config_ok cp \<longleftrightarrow>
     length (pname cp) \<le> 36 \<and> length (node (partType cp)) = 6 \<and> length (node (partId cp)) = 6"

lemma length_utf16le [simp]: "length (utf16le cs) = 2 * length cs"
  by (induction cs) (simp_all add: utf16le_def)

lemma length_GUID_obj: "length (node g) = 6 \<Longrightarrow> length (GUID_obj h g) = 16"
  by (simp add: GUID_obj_def)

lemma writePartitionName_ok [simp]:
  "p + 2 * length cs \<le> msize m \<Longrightarrow> writePartitionName p cs m = Inr (poke m p (utf16le cs))"
proof (induction p cs m rule: writePartitionName.induct)
  case (1 p m)
  then show ?case by (simp add: utf16le_def)
next
  case (2 p c cs m)
  have "poke (poke (poke m p [of_char c]) (p + 1) [0]) (p + 2) (utf16le cs) = poke m p (utf16le (c # cs))"
    using poke_append [of "poke m p [of_char c]" "p + 1" "[0]" "utf16le cs"]
      poke_append [of m p "[of_char c]" "0 # utf16le cs"]
    by (simp add: utf16le_def)
  then show ?case using 2 by simp
qed

lemma write_entry_ok:
  assumes "config_ok cp" "128 \<le> n" "p + n \<le> msize m"
  shows "\<exists>m'. write_entry h n p cp m = Inr m' \<and> msize m' = msize m \<and>
    peek m' p 128 = entry_bytes h cp \<and> (\<forall>i. i < p \<or> p + n \<le> i \<longrightarrow> mbyte m' i = mbyte m i)"
proof -
  define m0 where "m0 = poke m p (replicate n 0)"
  define m1 where "m1 = poke (poke (poke m0 (p + 32) (le_enc 8 (startLBA cp))) (p + 40)
      (le_enc 8 (startLBA cp + pvolume cp - 1))) (p + 48) (le_enc 8 (5 :: u64))"
  define m2 where "m2 = poke (poke m1 (p + 16) (GUID_obj h (partId cp))) p (GUID_obj h (partType cp))"
  define m' where "m' = poke m2 (p + 56) (utf16le (pname cp))"
  have nm: "2 * length (pname cp) \<le> 72" and g: "length (GUID_obj h (partType cp)) = 16"
      "length (GUID_obj h (partId cp)) = 16"
    using assms(1) by (auto simp: config_ok_def length_GUID_obj)
  have "write_entry h n p cp m = Inr m'"
    using assms nm g by (simp add: write_entry_def put_bytes_def m0_def m1_def m2_def m'_def)
  moreover have "msize m' = msize m"
    by (simp add: m'_def m2_def m1_def m0_def)
  moreover have "peek m' p 128 = entry_bytes h cp"
  proof -
    have z: "peek m0 q k = replicate k 0" if "p \<le> q" "q + k \<le> p + n" for q k
      using that by (simp add: m0_def peek_poke_inside)
    have "peek m' (p + 56) 72 = utf16le (pname cp) @ replicate (72 - 2 * length (pname cp)) 0"
    proof -
      have "peek m' (p + 56) (2 * length (pname cp) + (72 - 2 * length (pname cp))) =
        utf16le (pname cp) @ replicate (72 - 2 * length (pname cp)) 0"
        unfolding peek_append m'_def m2_def m1_def using nm g assms(2) by (simp add: z)
      then show ?thesis using nm by simp
    qed
    moreover have "peek m' p 128 = slices PartitionEntry_layout p 0 m'"
      using peek_struct [of m' p PartitionEntry_layout] by simp
    ultimately show ?thesis
      using g by (simp add: PartitionEntry_layout_def entry_bytes_def m'_def m2_def m1_def)
  qed
  moreover have "mbyte m' i = mbyte m i" if "i < p \<or> p + n \<le> i" for i
    using that assms(2) nm g by (elim disjE) (simp_all add: m'_def m2_def m1_def m0_def)
  ultimately show ?thesis by blast
qed

text \<open>
  The whole array: the loop zeroes \<open>n\<close> bytes from each entry on before it fills the entry, so
  every entry survives the later iterations, and bytes up to \<open>n\<close> past the last entry are cleared.
\<close>

lemma write_entries_ok:
  "k \<le> length cps \<Longrightarrow> \<forall>cp \<in> set (take k cps). config_ok cp \<Longrightarrow> 128 \<le> n \<Longrightarrow>
   0 < k \<longrightarrow> p + 128 * (k - 1) + n \<le> msize m \<Longrightarrow>
   \<exists>m'. write_entries h n k p cps m = Inr m' \<and> msize m' = msize m \<and>
     peek m' p (128 * k) = concat (map (entry_bytes h) (take k cps)) \<and>
     (\<forall>i. i < p \<or> p + 128 * (k - 1) + n \<le> i \<longrightarrow> mbyte m' i = mbyte m i)"
proof (induction h n k p cps m rule: write_entries.induct)
  case (1 h n p cps m)
  then show ?case by (simp add: peek_def)
next
  case (2 h n k p m)
  then show ?case by simp
next
  case (3 h n k p cp cps m)
  from 3(2-5) obtain m1 where m1: "write_entry h n p cp m = Inr m1" "msize m1 = msize m"
    "peek m1 p 128 = entry_bytes h cp" "\<forall>i. i < p \<or> p + n \<le> i \<longrightarrow> mbyte m1 i = mbyte m i"
    using write_entry_ok [of cp n p m h] by auto
  have "\<exists>m'. write_entries h n k (p + 128) cps m1 = Inr m' \<and> msize m' = msize m1 \<and>
     peek m' (p + 128) (128 * k) = concat (map (entry_bytes h) (take k cps)) \<and>
     (\<forall>i. i < p + 128 \<or> (p + 128) + 128 * (k - 1) + n \<le> i \<longrightarrow> mbyte m' i = mbyte m1 i)"
    using 3(1) [of m1] 3(2-5) m1(2) by (cases k) auto
  then obtain m' where m': "write_entries h n k (p + 128) cps m1 = Inr m'" "msize m' = msize m1"
    "peek m' (p + 128) (128 * k) = concat (map (entry_bytes h) (take k cps))"
    "\<forall>i. i < p + 128 \<or> (p + 128) + 128 * (k - 1) + n \<le> i \<longrightarrow> mbyte m' i = mbyte m1 i"
    by blast
  have "peek m' p 128 = entry_bytes h cp"
    unfolding m1(3) [symmetric] using m'(4) by (intro peek_cong) simp
  then have "peek m' p (128 * Suc k) = concat (map (entry_bytes h) (take (Suc k) (cp # cps)))"
    using m'(3) peek_append [of m' p 128 "128 * k"] by simp
  moreover have "mbyte m' i = mbyte m i" if "i < p \<or> p + 128 * k + n \<le> i" for i
    using that m'(1,4) m1(4) by (cases k) auto
  ultimately show ?case using m1(1,2) m'(1,2) by simp
qed

section \<open>The bytes of a header\<close>

definition header_bytes ::
  "u32 \<Rightarrow> u64 \<Rightarrow> u64 \<Rightarrow> u64 \<Rightarrow> u64 \<Rightarrow> u8 list \<Rightarrow> u64 \<Rightarrow> u32 \<Rightarrow> u8 list" where
  "header_bytes crc this alt firstU lastU disk n ecrc =
     EFI_PART @ le_enc 4 (0x00010000 :: u64) @ le_enc 4 (92 :: u64) @ le_enc 4 crc @
     le_enc 4 (0 :: u64) @ le_enc 8 this @ le_enc 8 alt @ le_enc 8 firstU @ le_enc 8 lastU @ disk @
     le_enc 8 (2 :: u64) @ le_enc 4 n @ le_enc 4 (128 :: u64) @ le_enc 4 ecrc"

lemma length_EFI_PART [simp]: "length EFI_PART = 8"
  by (simp add: EFI_PART_def)

lemma le_dec_size [simp]: "(le_dec (le_enc 4 (92 :: u64)) :: u32) = 92"
proof -
  have "le_enc 4 (92 :: u64) = le_enc 4 (92 :: u32)"
    using le_enc_4_ucast [of 92] by simp
  then show ?thesis by simp
qed

lemma header_slices:
  "length disk = 16 \<Longrightarrow> peek m p 92 = header_bytes crc this alt firstU lastU disk n ecrc \<longleftrightarrow>
    peek m p 8 = EFI_PART \<and> peek m (p + 8) 4 = le_enc 4 (0x00010000 :: u64) \<and>
    peek m (p + 12) 4 = le_enc 4 (92 :: u64) \<and> peek m (p + 16) 4 = le_enc 4 crc \<and>
    peek m (p + 20) 4 = le_enc 4 (0 :: u64) \<and> peek m (p + 24) 8 = le_enc 8 this \<and>
    peek m (p + 32) 8 = le_enc 8 alt \<and> peek m (p + 40) 8 = le_enc 8 firstU \<and>
    peek m (p + 48) 8 = le_enc 8 lastU \<and> peek m (p + 56) 16 = disk \<and>
    peek m (p + 72) 8 = le_enc 8 (2 :: u64) \<and> peek m (p + 80) 4 = le_enc 4 n \<and>
    peek m (p + 84) 4 = le_enc 4 (128 :: u64) \<and> peek m (p + 88) 4 = le_enc 4 ecrc"
proof -
  assume "length disk = 16"
  moreover have "peek m p 92 = slices GPTHeader_layout p 0 m"
    using peek_struct [of m p GPTHeader_layout] by simp
  ultimately show ?thesis
    by (simp add: GPTHeader_layout_def header_bytes_def append_eq_append_conv)
qed

lemma fill_primary_ok:
  assumes "p + 92 \<le> msize m" "peek m (p + 16) 4 = le_enc 4 (0 :: u32)" "length (node disk) = 6"
  shows "\<exists>m'. fill_primary h nBlock start np ecrc disk p m = Inr m' \<and> msize m' = msize m \<and>
    peek m' p 92 = header_bytes 0 1 (nBlock - 1) start (nBlock - 2) (GUID_obj h disk) np ecrc \<and>
    (\<forall>i. i < p \<or> p + 92 \<le> i \<longrightarrow> mbyte m' i = mbyte m i)"
proof -
  have g: "length (GUID_obj h disk) = 16" using assms(3) by (rule length_GUID_obj)
  obtain m' where m': "fill_primary h nBlock start np ecrc disk p m = Inr m'"
    "m' = poke (poke (poke (poke (poke (poke (poke (poke (poke (poke (poke (poke (poke m
      p EFI_PART) (p + 8) (le_enc 4 (0x00010000 :: u64))) (p + 12) (le_enc 4 (92 :: u64)))
      (p + 20) (le_enc 4 (0 :: u64))) (p + 24) (le_enc 8 (1 :: u64))) (p + 32) (le_enc 8 (nBlock - 1)))
      (p + 40) (le_enc 8 start)) (p + 48) (le_enc 8 (nBlock - 2))) (p + 56) (GUID_obj h disk))
      (p + 72) (le_enc 8 (2 :: u64))) (p + 80) (le_enc 4 np)) (p + 84) (le_enc 4 (128 :: u64)))
      (p + 88) (le_enc 4 ecrc)"
    using assms g by (simp add: fill_primary_def put_bytes_def)
  have "mbyte m' i = mbyte m i" if "i < p \<or> p + 92 \<le> i" for i
    using that g by (elim disjE) (simp_all add: m'(2))
  moreover have "msize m' = msize m"
    by (simp add: m'(2))
  moreover have "peek m' p 92 = header_bytes 0 1 (nBlock - 1) start (nBlock - 2) (GUID_obj h disk) np ecrc"
    unfolding header_slices [OF g] using g assms(2) by (simp add: m'(2))
  ultimately show ?thesis using m'(1) by blast
qed

lemma seal_header_ok:
  assumes "lba1 + 92 \<le> msize m" "p + 92 \<le> msize m" "peek m (lba1 + 12) 4 = le_enc 4 (92 :: u64)"
    "peek m p 92 = header_bytes 0 this alt f l disk np ecrc" "length disk = 16"
  shows "\<exists>m'. seal_header Little lba1 p m = Inr m' \<and> msize m' = msize m \<and>
    peek m' p 92 = header_bytes (crc32 (header_bytes 0 this alt f l disk np ecrc)) this alt f l disk np ecrc \<and>
    (\<forall>i. i < p + 16 \<or> p + 20 \<le> i \<longrightarrow> mbyte m' i = mbyte m i)"
proof -
  let ?c = "crc32 (header_bytes 0 this alt f l disk np ecrc)"
  have "seal_header Little lba1 p m = Inr (poke m (p + 16) (le_enc 4 ?c))"
    using assms by (simp add: seal_header_def val_def)
  moreover have "peek (poke m (p + 16) (le_enc 4 ?c)) p 92 = header_bytes ?c this alt f l disk np ecrc"
    using assms(4) unfolding header_slices [OF assms(5)] by simp
  ultimately show ?thesis by auto
qed

lemma getSector_eq: "512 * unat s < 2 ^ 64 \<Longrightarrow> getSector s = 512 * unat s"
  by (simp add: getSector_def unat_word_ariths mult.commute)

lemma getSector_1 [simp]: "getSector 1 = 512"
  by (simp add: getSector_def)

lemma getSector_2 [simp]: "getSector 2 = 1024"
  by (simp add: getSector_def)

lemma write_headers_ok:
  fixes start np :: u64 and ecrc :: u32
  assumes "4 \<le> unat nBlock" "512 * unat nBlock \<le> msize m" "msize m < 2 ^ 64" "length (node disk) = 6"
  defines "hb \<equiv> \<lambda>crc this alt. header_bytes crc this alt start (nBlock - 2) (GUID_obj Little disk) np ecrc"
    and "lst \<equiv> 512 * (unat nBlock - 1)"
  shows "\<exists>m'. write_headers Little nBlock start np ecrc disk m = Inr m' \<and> msize m' = msize m \<and>
    peek m' 512 92 = hb (crc32 (hb 0 1 (nBlock - 1))) 1 (nBlock - 1) \<and>
    peek m' lst 92 = hb (crc32 (hb 0 (nBlock - 1) 1)) (nBlock - 1) 1 \<and>
    (\<forall>i. \<not> (512 \<le> i \<and> i < 604) \<and> \<not> (lst \<le> i \<and> i < lst + 92) \<longrightarrow> mbyte m' i = mbyte m i)"
proof -
  have g: "length (GUID_obj Little disk) = 16" using assms(4) by (rule length_GUID_obj)
  have "unat (nBlock - 1) = unat nBlock - 1"
    using assms(1) by (subst unat_sub) (auto simp: word_le_nat_alt)
  then have l: "getSector (nBlock - 1) = lst" "1536 \<le> lst" "lst + 92 \<le> msize m"
    using assms(1-3) by (simp_all add: getSector_eq lst_def)
  define m1 where "m1 = poke (poke m 512 (replicate 92 0)) lst (replicate 92 0)"
  have "peek m1 528 4 = le_enc 4 (0 :: u32)"
    using l(2) by (simp add: m1_def peek_poke_inside le_enc_zero)
  then obtain m2 where m2: "fill_primary Little nBlock start np ecrc disk 512 m1 = Inr m2"
    "msize m2 = msize m" "peek m2 512 92 = hb 0 1 (nBlock - 1)"
    "\<forall>i. i < 512 \<or> 604 \<le> i \<longrightarrow> mbyte m2 i = mbyte m1 i"
    using fill_primary_ok [of 512 m1 disk Little nBlock start np ecrc] assms(4) l(2,3)
    by (auto simp: m1_def hb_def)
  define m3 where "m3 = poke (poke (poke m2 lst (hb 0 1 (nBlock - 1))) (lst + 24) (le_enc 8 (nBlock - 1)))
    (lst + 32) (le_enc 8 (1 :: u64))"
  have b3: "peek m3 lst 92 = hb 0 (nBlock - 1) 1"
  proof -
    have "peek (poke m2 lst (hb 0 1 (nBlock - 1))) lst 92 = hb 0 1 (nBlock - 1)"
      using g by (simp add: hb_def header_bytes_def)
    then show ?thesis
      unfolding hb_def header_slices [OF g] m3_def by simp
  qed
  have len: "length (hb 0 1 (nBlock - 1)) = 92"
    using g by (simp add: hb_def header_bytes_def)
  have p3: "peek m3 512 92 = hb 0 1 (nBlock - 1)"
    using l(2) m2(3) len by (simp add: m3_def)
  then have s3: "peek m3 524 4 = le_enc 4 (92 :: u64)"
    using header_slices [OF g, of m3 512] by (simp add: hb_def)
  have ms3: "msize m3 = msize m" by (simp add: m3_def m2(2))
  obtain m4 where m4: "seal_header Little 512 512 m3 = Inr m4" "msize m4 = msize m"
    "peek m4 512 92 = hb (crc32 (hb 0 1 (nBlock - 1))) 1 (nBlock - 1)"
    "\<forall>i. i < 528 \<or> 532 \<le> i \<longrightarrow> mbyte m4 i = mbyte m3 i"
    using seal_header_ok [of 512 m3 512, OF _ _ _ p3 [unfolded hb_def] g] s3 ms3 l(2,3)
    unfolding hb_def by auto
  have s4: "peek m4 524 4 = le_enc 4 (92 :: u64)" and b4: "peek m4 lst 92 = hb 0 (nBlock - 1) 1"
    unfolding s3 [symmetric] b3 [symmetric] using m4(4) l(2) by (auto intro!: peek_cong)
  obtain m5 where m5: "seal_header Little 512 lst m4 = Inr m5" "msize m5 = msize m"
    "peek m5 lst 92 = hb (crc32 (hb 0 (nBlock - 1) 1)) (nBlock - 1) 1"
    "\<forall>i. i < lst + 16 \<or> lst + 20 \<le> i \<longrightarrow> mbyte m5 i = mbyte m4 i"
    using seal_header_ok [of 512 m4 lst, OF _ _ _ b4 [unfolded hb_def] g] s4 l(2,3) m4(2)
    unfolding hb_def by auto
  have "write_headers Little nBlock start np ecrc disk m = Inr m5"
    using l m2 m4(1) m5(1) len by (simp add: write_headers_def m1_def [symmetric] m3_def)
  moreover have "peek m5 512 92 = hb (crc32 (hb 0 1 (nBlock - 1))) 1 (nBlock - 1)"
    unfolding m4(3) [symmetric] using m5(4) l(2) by (auto intro!: peek_cong)
  moreover have "mbyte m5 i = mbyte m i"
    if "\<not> (512 \<le> i \<and> i < 604)" "\<not> (lst \<le> i \<and> i < lst + 92)" for i
  proof -
    have "mbyte m5 i = mbyte m3 i" using that m4(4) m5(4) by auto
    also have "\<dots> = mbyte m2 i" using that len by (auto simp: m3_def mbyte_poke)
    also have "\<dots> = mbyte m i" using that m2(4) by (auto simp: m1_def mbyte_poke)
    finally show ?thesis .
  qed
  ultimately show ?thesis using m5(2,3) by blast
qed

section \<open>GPTGenerate\<close>

definition mbr_bytes :: "u64 \<Rightarrow> u8 list" where
  "mbr_bytes nBlock =
     replicate 446 0 @ [0x80, 0x00, 0x02, 0x00, 0xEE] @
     take 3 (le_enc 4 (min 0xFFFFFF (ucast (512 * nBlock) :: u32))) @
     le_enc 4 (1 :: u32) @ le_enc 4 (if 0xFFFFFFFF \<le> nBlock then 0xFFFFFFFF else nBlock - 1) @
     replicate 48 0 @ [0x55, 0xAA]"

lemma mbr_constants:
  "obj Little 2 (0xAA55 :: u64) = [0x55, 0xAA]"
  "obj Little 4 (0 :: u64) = replicate 4 0"
  "obj Little 2 (0 :: u64) = replicate 2 0"
  "obj Little 1 (0x80 :: u64) = [0x80]"
  "obj Little 1 (0xEE :: u64) = [0xEE]"
  "take 3 (obj Little 4 (0x200 :: u32)) = [0x00, 0x02, 0x00]"
  "obj Little 4 (1 :: u64) = le_enc 4 (1 :: u32)"
  by (code_simp | simp add: obj_def)+

lemma createProtectGPT_ok:
  assumes "512 \<le> msize m"
  shows "\<exists>m'. createProtectGPT Little 0 512 nBlock m = Inr m' \<and> msize m' = msize m \<and>
    peek m' 0 512 = mbr_bytes nBlock \<and> (\<forall>i \<ge> 512. mbyte m' i = mbyte m i)"
proof -
  define sz where "sz = (if 0xFFFFFFFF \<le> nBlock then 0xFFFFFFFF else nBlock - 1)"
  define e where "e = take 3 (le_enc 4 (min 0xFFFFFF (ucast (512 * nBlock) :: u32)))"
  have [simp]: "length e = 3" by (simp add: e_def)
  define m1 where "m1 = poke (poke (poke (poke m 0 (replicate 512 0)) 510 [0x55, 0xAA])
    440 (replicate 4 0)) 444 (replicate 2 0)"
  define m2 where "m2 = poke (poke (poke (poke (poke (poke m1 446 [0x80]) 447 [0x00, 0x02, 0x00])
    450 [0xEE]) 451 e) 454 (le_enc 4 (1 :: u32))) 458 (le_enc 4 sz)"
  have e: "e = take 3 (le_enc 4 (if 0xFFFFFF < (ucast (512 * nBlock) :: u32) then 0xFFFFFF
      else (ucast (512 * nBlock) :: u32)))"
    by (auto simp: e_def min_def)
  have "createProtectGPT Little 0 512 nBlock m = Inr m2"
    using assms by (simp add: createProtectGPT_def m1_def m2_def Let_def
        mbr_constants e sz_def, simp add: obj_def)
  moreover have "peek m2 0 512 = mbr_bytes nBlock"
  proof -
    let ?L = "[([], 440), ([], 4), ([], 2), ([], 1), ([], 3), ([], 1), ([], 3), ([], 4), ([], 4),
      ([], 48), ([], 2)] :: layout"
    have "peek m2 0 512 = slices ?L 0 0 m2"
      using peek_struct [of m2 0 ?L] by (simp add: struct_size_def)
    also have "\<dots> = replicate 440 0 @ replicate 4 0 @ replicate 2 0 @ [0x80, 0x00, 0x02, 0x00, 0xEE] @
      e @ le_enc 4 (1 :: u32) @ le_enc 4 sz @ replicate 48 0 @ [0x55, 0xAA]"
      by (simp add: m2_def m1_def peek_poke_inside)
    also have "\<dots> = mbr_bytes nBlock"
      using replicate_add [of 440 6 "0 :: u8"] replicate_add [of 4 2 "0 :: u8"]
      by (simp add: mbr_bytes_def e_def sz_def)
    finally show ?thesis .
  qed
  moreover have "mbyte m2 i = mbyte m i" if "512 \<le> i" for i
    using that by (simp add: m2_def m1_def)
  ultimately show ?thesis by (auto simp: m2_def m1_def)
qed

text \<open>
  The conditions under which the generator is defined: the buffer holds the disk, every descriptor
  is well formed, and the clearing of the last entry, which runs for the whole size of the array,
  stays inside the buffer.
\<close>

definition array_sectors :: "GPTConfig \<Rightarrow> nat" where
  "array_sectors c = (3 + unat (numPart c)) div 4"

definition gpt_ready :: "GPTConfig \<Rightarrow> mem \<Rightarrow> bool" where
  "gpt_ready c m \<longleftrightarrow>
     512 * unat (gvolume c) \<le> msize m \<and> msize m < 2 ^ 64 \<and>
     0 < unat (numPart c) \<and> unat (numPart c) < 2 ^ 32 \<and> unat (numPart c) \<le> length (partitions c) \<and>
     4 + array_sectors c \<le> unat (gvolume c) \<and>
     (\<forall>cp \<in> set (partitions c). config_ok cp) \<and> length (node (diskId c)) = 6 \<and>
     1024 + 128 * (unat (numPart c) - 1) + 512 * array_sectors c \<le> msize m"

definition gpt_image ::
  "GPTConfig \<Rightarrow> nat \<Rightarrow> PartitionConfig list \<Rightarrow> u64 \<Rightarrow> mem \<Rightarrow> bool" where
  "gpt_image c n cps start m' \<longleftrightarrow>
     (let nBlock = gvolume c; ea = concat (map (entry_bytes Little) (take n cps));
          hb = (\<lambda>crc this alt. header_bytes crc this alt start (nBlock - 2)
            (GUID_obj Little (diskId c)) (of_nat n) (crc32 ea)) in
      peek m' 0 512 = mbr_bytes nBlock \<and>
      peek m' 1024 (128 * n) = ea \<and>
      peek m' 512 92 = hb (crc32 (hb 0 1 (nBlock - 1))) 1 (nBlock - 1) \<and>
      peek m' (512 * (unat nBlock - 1)) 92 = hb (crc32 (hb 0 (nBlock - 1) 1)) (nBlock - 1) 1)"

lemma array_sectors_word:
  assumes "unat (numPart c) < 2 ^ 32"
  shows "(3 + numPart c) div 4 = of_nat (array_sectors c)"
    and "unat (of_nat (array_sectors c) :: u64) = array_sectors c"
proof -
  show u: "unat (of_nat (array_sectors c) :: u64) = array_sectors c"
    using assms by (simp add: array_sectors_def unat_of_nat_ok)
  have "unat (3 + numPart c) = 3 + unat (numPart c)"
    using assms by (simp add: unat_add_ok)
  then have "unat ((3 + numPart c) div 4) = array_sectors c"
    by (simp add: array_sectors_def unat_div)
  then show "(3 + numPart c) div 4 = of_nat (array_sectors c)"
    by (simp add: word_of_nat_unat_eq)
qed

text \<open>Past its guard, the generator's quantities are the natural numbers they stand for.\<close>

lemma GPTGenerate_steps:
  assumes "4 + array_sectors c \<le> unat (gvolume c)" "512 * unat (gvolume c) \<le> msize m" "msize m < 2 ^ 64"
    "0 < unat (numPart c)" "unat (numPart c) < 2 ^ 32"
  shows "GPTGenerate Little c m =
    bindE (createProtectGPT Little 0 512 (gvolume c) m) (\<lambda>m.
    bindE (alloc_partitions (unat (numPart c)) (of_nat (unat (gvolume c) - 4 - array_sectors c))
      (of_nat (2 + array_sectors c)) (partitions c)) (\<lambda>(ret, cps, start).
    bindE (write_entries Little (512 * array_sectors c) ret 1024 cps m) (\<lambda>m.
    bindE (rd 1024 (128 * ret) m) (\<lambda>bs.
    bindE (write_headers Little (gvolume c) start (of_nat ret) (crc32 bs) (diskId c) m) (\<lambda>m.
    Inr (of_nat ret, cps, m))))))"
proof -
  define a where "a = array_sectors c"
  note aw = array_sectors_word [OF assms(5), folded a_def]
  have "0 < a" using assms(4) by (simp add: a_def array_sectors_def)
  then have w0: "of_nat a \<noteq> (0 :: u64)"
    using aw(2) by (metis not_less_zero unat_0)
  have w: "unat (4 + of_nat a :: u64) = 4 + a"
    using aw(2) assms(1-3) by (simp add: unat_add_ok a_def)
  have fs: "gvolume c - 4 - of_nat a = of_nat (unat (gvolume c) - 4 - a)" "2 + of_nat a = (of_nat (2 + a) :: u64)"
    using assms(1) by (simp_all add: of_nat_diff a_def)
  have ab: "unat (of_nat a * (512 :: u64)) = 512 * a"
    using assms(1-3) aw(2) by (simp add: unat_word_ariths mult.commute a_def)
  show ?thesis
    using assms(1) w w0 ab unfolding a_def [symmetric] fs [symmetric]
    by (simp add: GPTGenerate_def GPT_SECTOR_SIZE_def word_less_nat_alt Let_def aw(1))
qed

lemma placed_nth_config_ok:
  "placed k r s cps n cps' s' \<Longrightarrow> i < length cps \<Longrightarrow> config_ok (cps' ! i) = config_ok (cps ! i)"
  by (simp add: placed_def config_ok_def)

lemma placed_config_ok:
  assumes "placed k r s cps n cps' s'" "\<forall>cp \<in> set cps. config_ok cp"
  shows "\<forall>cp \<in> set (take n cps'). config_ok cp"
proof
  fix cp
  assume "cp \<in> set (take n cps')"
  then obtain i where "i < length cps'" "cp = cps' ! i"
    by (auto simp: in_set_conv_nth)
  moreover have "length cps' = length cps" using assms(1) by (simp add: placed_def)
  ultimately show "config_ok cp"
    using assms(2) placed_nth_config_ok [OF assms(1)] by simp
qed

lemma GPTGenerate_ok:
  assumes "gpt_ready c m"
  defines "a \<equiv> array_sectors c"
  shows "\<exists>n cps start m'. GPTGenerate Little c m = Inr (of_nat n, cps, m') \<and> msize m' = msize m \<and>
    placed (unat (numPart c)) (of_nat (unat (gvolume c) - 4 - a)) (of_nat (2 + a)) (partitions c) n cps start \<and>
    gpt_image c n cps start m' \<and>
    (\<forall>i. 1024 + 128 * (n - 1) + 512 * a \<le> i \<and>
      \<not> (512 * (unat (gvolume c) - 1) \<le> i \<and> i < 512 * (unat (gvolume c) - 1) + 92) \<longrightarrow> mbyte m' i = mbyte m i)"
proof -
  let ?v = "gvolume c" and ?k = "unat (numPart c)"
  have r: "512 * unat ?v \<le> msize m" "msize m < 2 ^ 64" "0 < ?k" "?k \<le> length (partitions c)"
    "4 + a \<le> unat ?v" "\<forall>cp \<in> set (partitions c). config_ok cp" "length (node (diskId c)) = 6"
    "1024 + 128 * (?k - 1) + 512 * a \<le> msize m"
    using assms(1) by (auto simp: gpt_ready_def a_def)
  have a0: "0 < a" using r(3) by (simp add: a_def array_sectors_def)
  define R S :: u64 where "R = of_nat (unat ?v - 4 - a)" and "S = of_nat (2 + a)"
  have u: "unat R = unat ?v - 4 - a" "unat S = 2 + a"
    unfolding R_def S_def by (rule unat_of_nat_ok, use r(1,2,5) in simp)+
  have "unat S + unat R < 2 ^ 64"
    using u r(1,2,5) by simp
  then obtain n cps start where al: "alloc_partitions ?k R S (partitions c) = Inr (n, cps, start)"
    and pl: "placed ?k R S (partitions c) n cps start"
    using alloc_partitions_placed [OF r(4)] by blast
  have n: "n \<le> ?k" "n \<le> length cps" "128 * n \<le> 512 * a"
    using pl r(4) by (auto simp: placed_def a_def array_sectors_def)
  obtain m1 where m1: "createProtectGPT Little 0 512 ?v m = Inr m1" "msize m1 = msize m"
    "peek m1 0 512 = mbr_bytes ?v" "\<forall>i \<ge> 512. mbyte m1 i = mbyte m i"
    using createProtectGPT_ok [of m ?v] r(1,5) by auto
  have "0 < n \<longrightarrow> 1024 + 128 * (n - 1) + 512 * a \<le> msize m1"
    using n(1) r(8) m1(2) by linarith
  then obtain m2 where m2: "write_entries Little (512 * a) n 1024 cps m1 = Inr m2" "msize m2 = msize m"
    "peek m2 1024 (128 * n) = concat (map (entry_bytes Little) (take n cps))"
    "\<forall>i. i < 1024 \<or> 1024 + 128 * (n - 1) + 512 * a \<le> i \<longrightarrow> mbyte m2 i = mbyte m1 i"
    using write_entries_ok [of n cps "512 * a" 1024 m1 Little] placed_config_ok [OF pl r(6)] n(2) a0 m1(2)
    by auto
  let ?lst = "512 * (unat ?v - 1)"
  obtain m3 where m3: "write_headers Little ?v start (of_nat n) (crc32 (concat (map (entry_bytes Little) (take n cps))))
      (diskId c) m2 = Inr m3" "msize m3 = msize m"
    and img: "gpt_image c n cps start m3 \<or> peek m3 0 512 \<noteq> mbr_bytes ?v \<or>
      peek m3 1024 (128 * n) \<noteq> concat (map (entry_bytes Little) (take n cps))"
    and fr: "\<forall>i. \<not> (512 \<le> i \<and> i < 604) \<and> \<not> (?lst \<le> i \<and> i < ?lst + 92) \<longrightarrow> mbyte m3 i = mbyte m2 i"
    using write_headers_ok [of ?v m2 "diskId c" start "of_nat n"
        "crc32 (concat (map (entry_bytes Little) (take n cps)))"] r(1,2,5,7) m2(2)
    unfolding gpt_image_def Let_def by auto
  have "1024 + 512 * a \<le> ?lst" using r(5) by linarith
  then have fr': "\<forall>i. i < 512 \<or> 604 \<le> i \<and> i < 1024 + 512 * a \<longrightarrow> mbyte m3 i = mbyte m2 i"
    using fr by auto
  then have mbr: "peek m3 0 512 = mbr_bytes ?v"
    unfolding m1(3) [symmetric] using m2(4) by (intro peek_cong) simp
  have ea: "peek m3 1024 (128 * n) = concat (map (entry_bytes Little) (take n cps))"
    unfolding m2(3) [symmetric] using fr' n(3) by (intro peek_cong) simp
  have "GPTGenerate Little c m = Inr (of_nat n, cps, m3)"
    using GPTGenerate_steps [of c m] assms(1) n r(1,5) m1(1,2) al m2(1-3) m3(1)
    unfolding a_def [symmetric] R_def [symmetric] S_def [symmetric]
    by (simp add: gpt_ready_def)
  moreover have "mbyte m3 i = mbyte m i" if "1024 + 128 * (n - 1) + 512 * a \<le> i" "\<not> (?lst \<le> i \<and> i < ?lst + 92)" for i
    using that fr m2(4) m1(4) by auto
  ultimately show ?thesis using img mbr ea pl m3(2) unfolding R_def S_def by blast
qed

text \<open>Where a placed partition starts and ends, in sectors.\<close>

lemma startLBA_upd:
  "startLBA (cp\<lparr>startLBA := x\<rparr>) = x" "pvolume (cp\<lparr>startLBA := x\<rparr>) = pvolume cp"
  by simp_all

lemma placed_start:
  assumes "placed k r s cps n cps' s'" "k \<le> length cps" "i < n" "unat s + unat r < 2 ^ 64"
  shows "unat (startLBA (cps' ! i)) = unat s + sectors_before cps i" "pvolume (cps' ! i) = pvolume (cps ! i)"
proof -
  have "sectors_before cps i \<le> unat r"
    using assms sectors_before_mono [of i n cps] by (auto simp: placed_def)
  then have "unat (of_nat (unat s + sectors_before cps i) :: u64) = unat s + sectors_before cps i"
    using assms(4) by (intro unat_of_nat_ok) simp
  moreover have "cps' ! i = (cps ! i)\<lparr>startLBA := of_nat (unat s + sectors_before cps i)\<rparr>"
    using assms(1-3) by (auto simp: placed_def)
  ultimately show "unat (startLBA (cps' ! i)) = unat s + sectors_before cps i"
    "pvolume (cps' ! i) = pvolume (cps ! i)" by (simp_all only: startLBA_upd)
qed

lemma placed_next:
  assumes "placed k r s cps n cps' s'" "k \<le> length cps" "i < n" "unat s + unat r < 2 ^ 64"
  shows "unat (startLBA (cps' ! i)) + unat (pvolume (cps' ! i)) = unat s + sectors_before cps (Suc i)"
  using placed_start [OF assms] assms by (auto simp: placed_def sectors_before_Suc)

lemma placed_end:
  assumes "placed k r s cps n cps' s'" "k \<le> length cps" "i < n" "unat s + unat r < 2 ^ 64"
  shows "unat (startLBA (cps' ! i)) + unat (pvolume (cps' ! i)) \<le> unat s'"
    and "unat s' \<le> unat s + unat r"
  using placed_next [OF assms] assms sectors_before_mono [of "Suc i" n cps] by (auto simp: placed_def)

lemma placed_ordered:
  assumes "placed k r s cps n cps' s'" "k \<le> length cps" "i < j" "j < n" "unat s + unat r < 2 ^ 64"
  shows "unat (startLBA (cps' ! i)) + unat (pvolume (cps' ! i)) \<le> unat (startLBA (cps' ! j))"
  using placed_next [OF assms(1,2) _ assms(5), of i] placed_start(1) [OF assms(1,2,4,5)] assms(3,4)
    sectors_before_mono [of "Suc i" j cps] by simp

section \<open>Properties\<close>

text \<open>
  What firmware checks before it trusts a header at a given address: the signature, the header's
  checksum computed with its own field zeroed, the recorded address, and the checksum of the entry
  array the header points to.
\<close>

definition header_valid :: "mem \<Rightarrow> nat \<Rightarrow> bool" where
  "header_valid m lba \<longleftrightarrow>
     (let hdr = peek m (512 * lba) 92;
          array = 512 * unat (le_dec (take 8 (drop 72 hdr)) :: u64);
          entries = unat (le_dec (take 4 (drop 80 hdr)) :: u32) in
      take 8 hdr = EFI_PART \<and>
      (le_dec (take 4 (drop 12 hdr)) :: u32) = 92 \<and>
      le_dec (take 4 (drop 16 hdr)) = crc32 (take 16 hdr @ [0, 0, 0, 0] @ drop 20 hdr) \<and>
      le_dec (take 8 (drop 24 hdr)) = (of_nat lba :: u64) \<and>
      le_dec (take 4 (drop 88 hdr)) = crc32 (peek m array (128 * entries)))"

lemma replicate_4: "replicate 4 x = [x, x, x, x]"
  by (simp add: numeral_eq_Suc)

lemma header_bytes_parts:
  fixes this alt f l n :: u64 and ecrc :: u32
  assumes "length disk = 16"
  defines "hdr \<equiv> \<lambda>crc. header_bytes crc this alt f l disk n ecrc"
  shows "take 8 (hdr crc) = EFI_PART" "take 4 (drop 12 (hdr crc)) = le_enc 4 (92 :: u64)"
    "take 4 (drop 16 (hdr crc)) = le_enc 4 crc" "take 8 (drop 24 (hdr crc)) = le_enc 8 this"
    "take 8 (drop 72 (hdr crc)) = le_enc 8 (2 :: u64)" "take 4 (drop 80 (hdr crc)) = le_enc 4 n"
    "take 4 (drop 88 (hdr crc)) = le_enc 4 ecrc"
    "take 16 (hdr crc) @ [0, 0, 0, 0] @ drop 20 (hdr crc) = hdr 0"
  using assms(1) by (simp_all add: hdr_def header_bytes_def le_enc_zero replicate_4)

lemma le_dec_count: "n < 2 ^ 32 \<Longrightarrow> unat (le_dec (le_enc 4 (of_nat n :: u64)) :: u32) = n"
proof -
  assume n: "n < 2 ^ 32"
  then have "ucast (of_nat n :: u64) = (of_nat n :: u32)"
    by (simp add: unsigned_of_nat take_bit_nat_eq_self)
  then have "le_enc 4 (of_nat n :: u64) = le_enc 4 (of_nat n :: u32)"
    using le_enc_ucast [of 4 "of_nat n :: u64", where 'b = 32] by simp
  then show ?thesis using n by (simp add: unat_of_nat_ok)
qed

lemma image_headers_valid:
  assumes "gpt_image c n cps start m'" "n < 2 ^ 32" "length (node (diskId c)) = 6" "4 \<le> unat (gvolume c)"
    and "peek m'' 512 92 = peek m' 512 92"
      "peek m'' (512 * (unat (gvolume c) - 1)) 92 = peek m' (512 * (unat (gvolume c) - 1)) 92"
      "peek m'' 1024 (128 * n) = peek m' 1024 (128 * n)"
  shows "header_valid m'' 1" "header_valid m'' (unat (gvolume c) - 1)"
proof -
  have disk: "length (GUID_obj Little (diskId c)) = 16"
    using assms(3) by (rule length_GUID_obj)
  have cnt: "unat (le_dec (le_enc 4 (of_nat n :: u64)) :: u32) = n"
    using assms(2) by (rule le_dec_count)
  have ea: "peek m'' 1024 (128 * n) = concat (map (entry_bytes Little) (take n cps))"
    using assms(1,7) by (simp add: gpt_image_def Let_def)
  have lba: "of_nat (unat (gvolume c) - Suc 0) = gvolume c - 1"
    using assms(4) of_nat_diff [of 1 "unat (gvolume c)", where 'a = u64] by simp
  show "header_valid m'' 1" "header_valid m'' (unat (gvolume c) - 1)"
    using assms(1) unfolding gpt_image_def header_valid_def Let_def assms(5,6) [symmetric]
    by (simp_all only: header_bytes_parts [OF disk] mult_1_right cnt)
      (simp_all add: header_bytes_parts [OF disk] ea lba)
qed

text \<open>
  C3: on a disk that holds the table, both headers that \<open>GPTGenerate\<close> writes pass the firmware's
  checks: the primary one in sector 1 and the backup one in the last sector.
\<close>

theorem GPTGenerate_headers_valid:
  assumes "gpt_ready c m"
  shows "\<exists>n cps m'. GPTGenerate Little c m = Inr (n, cps, m') \<and>
    header_valid m' 1 \<and> header_valid m' (unat (gvolume c) - 1)"
proof -
  obtain n cps start m' where g: "GPTGenerate Little c m = Inr (of_nat n, cps, m')"
    and pl: "n \<le> unat (numPart c)" and im: "gpt_image c n cps start m'"
    using GPTGenerate_ok [OF assms] unfolding placed_def by blast
  have "length (node (diskId c)) = 6" "n < 2 ^ 32" "4 \<le> unat (gvolume c)"
    using assms pl by (auto simp: gpt_ready_def)
  then show ?thesis
    using g image_headers_valid [OF im, of m'] by blast
qed

definition demo_part :: "u64 \<Rightarrow> PartitionConfig" where
  "demo_part v = \<lparr>partType = EFI_SYSTEM_PARTITION, partId = EFI_SYSTEM_PARTITION, pname = ''Boot Partition'',
     pvolume = v, startLBA = 0\<rparr>"

definition demo_gpt :: GPTConfig where
  "demo_gpt = \<lparr>gvolume = 64, numPart = 2, partitions = [demo_part 20, demo_part 30], diskId = EFI_SYSTEM_PARTITION\<rparr>"

lemma demo_gpt_ready: "gpt_ready demo_gpt (blank 32768)"
  by (simp add: gpt_ready_def demo_gpt_def blank_def array_sectors_def config_ok_def demo_part_def
      EFI_SYSTEM_PARTITION_def)

theorem GPTGenerate_headers_valid_witness:
  "\<exists>n cps m'. GPTGenerate Little demo_gpt (blank 32768) = Inr (n, cps, m') \<and>
    header_valid m' 1 \<and> header_valid m' 63"
  using GPTGenerate_headers_valid [OF demo_gpt_ready] by (simp add: demo_gpt_def)

text \<open>
  C4: the first \<open>n\<close> partitions of the configuration are placed one directly after the other, in the order
  of their descriptors, from the sector after the entry array on: partition \<open>i\<close> starts where the ones
  before it end, and the descriptors are otherwise as they were. The last one ends before the last two
  sectors, which hold the reserved sector and the backup header. \<open>n\<close> is the number of partitions unless
  the next one does not fit any more, and the entry array on disk is the encoding of exactly the placed
  descriptors.
\<close>

theorem GPTGenerate_partitions:
  assumes "gpt_ready c m"
  defines "start i \<equiv> 2 + array_sectors c + sectors_before (partitions c) i"
  shows "\<exists>n cps m'. GPTGenerate Little c m = Inr (of_nat n, cps, m') \<and>
    n \<le> unat (numPart c) \<and> start n \<le> unat (gvolume c) - 2 \<and>
    (n < unat (numPart c) \<longrightarrow> unat (gvolume c) - 2 < start (Suc n)) \<and>
    cps = map (\<lambda>i. (partitions c ! i)\<lparr>startLBA := of_nat (start i)\<rparr>) [0..<n] @ drop n (partitions c) \<and>
    (\<forall>i < n. unat (startLBA (cps ! i)) = start i \<and>
       unat (startLBA (cps ! i)) + unat (pvolume (partitions c ! i)) = start (Suc i)) \<and>
    peek m' 1024 (128 * n) = concat (map (entry_bytes Little) (take n cps))"
proof -
  let ?a = "array_sectors c" and ?v = "unat (gvolume c)" and ?P = "partitions c"
  have r: "512 * ?v \<le> msize m" "msize m < 2 ^ 64" "4 + ?a \<le> ?v" "unat (numPart c) \<le> length ?P"
    using assms by (auto simp: gpt_ready_def)
  obtain n cps s' m' where g: "GPTGenerate Little c m = Inr (of_nat n, cps, m')"
    and pl: "placed (unat (numPart c)) (of_nat (?v - 4 - ?a)) (of_nat (2 + ?a)) ?P n cps s'"
    and im: "gpt_image c n cps s' m'"
    using GPTGenerate_ok [OF assms(1)] by blast
  have u: "unat (of_nat (?v - 4 - ?a) :: u64) = ?v - 4 - ?a" "unat (of_nat (2 + ?a) :: u64) = 2 + ?a"
    by (rule unat_of_nat_ok, use r in simp)+
  have sum: "unat (of_nat (2 + ?a) :: u64) + unat (of_nat (?v - 4 - ?a) :: u64) < 2 ^ 64"
    unfolding u using r by simp
  have n: "n \<le> unat (numPart c)" "n \<le> length ?P" using pl r(4) by (auto simp: placed_def)
  have len: "length cps = length ?P" using pl by (simp add: placed_def)
  have "start n \<le> ?v - 2" using pl r(3) unfolding placed_def u start_def by linarith
  moreover have "?v - 2 < start (Suc n)" if "n < unat (numPart c)"
  proof -
    have "n < length ?P" using that r(4) by simp
    moreover have "?v - 4 - ?a - sectors_before ?P n < unat (pvolume (?P ! n))"
      using pl that unfolding placed_def u by blast
    ultimately show ?thesis using r(3) sectors_before_Suc [of n ?P] unfolding start_def by linarith
  qed
  moreover have "cps = map (\<lambda>i. (?P ! i)\<lparr>startLBA := of_nat (start i)\<rparr>) [0..<n] @ drop n ?P"
  proof (rule nth_equalityI)
    show "length cps = length (map (\<lambda>i. (?P ! i)\<lparr>startLBA := of_nat (start i)\<rparr>) [0..<n] @ drop n ?P)"
      using n len by simp
    show "cps ! i = (map (\<lambda>i. (?P ! i)\<lparr>startLBA := of_nat (start i)\<rparr>) [0..<n] @ drop n ?P) ! i" if "i < length cps" for i
      using pl that n len unfolding placed_def u start_def by (simp add: nth_append)
  qed
  moreover have "unat (startLBA (cps ! i)) = start i \<and> unat (startLBA (cps ! i)) + unat (pvolume (?P ! i)) = start (Suc i)"
    if "i < n" for i
    using placed_start [OF pl r(4) that sum] placed_next [OF pl r(4) that sum] unfolding u start_def by simp
  moreover have "peek m' 1024 (128 * n) = concat (map (entry_bytes Little) (take n cps))"
    using im by (simp add: gpt_image_def Let_def)
  ultimately show ?thesis using g n(1) by blast
qed

theorem GPTGenerate_partitions_witness:
  "\<exists>n cps m'. GPTGenerate Little demo_gpt (blank 32768) = Inr (of_nat n, cps, m') \<and>
    cps = [(demo_part 20)\<lparr>startLBA := 3\<rparr>, (demo_part 30)\<lparr>startLBA := 23\<rparr>] \<and> n = 2"
proof -
  have d: "array_sectors demo_gpt = 1" "unat (gvolume demo_gpt) = 64" "unat (numPart demo_gpt) = 2"
      "partitions demo_gpt = [demo_part 20, demo_part 30]" "unat (pvolume (demo_part 20)) = 20" "unat (pvolume (demo_part 30)) = 30"
    by (simp_all add: array_sectors_def demo_gpt_def demo_part_def)
  obtain n cps m' where g: "GPTGenerate Little demo_gpt (blank 32768) = Inr (of_nat n, cps, m')" "n \<le> 2"
    "n < 2 \<longrightarrow> 62 < 3 + sectors_before [demo_part 20, demo_part 30] (Suc n)"
    "cps = map (\<lambda>i. ([demo_part 20, demo_part 30] ! i)\<lparr>startLBA := of_nat (3 + sectors_before [demo_part 20, demo_part 30] i)\<rparr>) [0..<n] @
      drop n [demo_part 20, demo_part 30]"
    using GPTGenerate_partitions [OF demo_gpt_ready] unfolding d by auto
  have b: "sectors_before [demo_part 20, demo_part 30] (Suc 0) = 20" "sectors_before [demo_part 20, demo_part 30] (Suc 1) = 50"
    using d(5,6) by (simp_all add: sectors_before_def)
  have "n = 0 \<or> n = 1 \<or> n = 2" using g(2) by linarith
  then have "n = 2" using g(3) b by auto
  moreover have "[0..<2] = [0, Suc 0]" by (simp add: upt_rec)
  ultimately have "cps = [(demo_part 20)\<lparr>startLBA := 3\<rparr>, (demo_part 30)\<lparr>startLBA := 23\<rparr>]"
    using g(4) b by (simp add: demo_part_def)
  then show ?thesis using g(1) \<open>n = 2\<close> by blast
qed

text \<open>
  the header field described as the first block that may be used by a partition is written
  with the first block after the last partition: no placed, non-empty partition starts at or
  after \<open>firstUsableLBA\<close>.
\<close>

theorem firstUsableLBA_past_partitions:
  assumes "gpt_ready c m"
  shows "\<exists>n cps m'. GPTGenerate Little c m = Inr (of_nat n, cps, m') \<and>
    (\<forall>i < n. unat (startLBA (cps ! i)) + unat (pvolume (cps ! i))
      \<le> unat (le_dec (peek m' (512 + offsetof GPTHeader_layout ''firstUsableLBA'') 8) :: u64))"
proof -
  let ?a = "array_sectors c" and ?v = "unat (gvolume c)" and ?P = "partitions c"
  have r: "512 * ?v \<le> msize m" "msize m < 2 ^ 64" "4 + ?a \<le> ?v" "unat (numPart c) \<le> length ?P"
    and disk: "length (GUID_obj Little (diskId c)) = 16"
    using assms by (auto simp: gpt_ready_def length_GUID_obj)
  obtain n cps start m' where g: "GPTGenerate Little c m = Inr (of_nat n, cps, m')"
    and pl: "placed (unat (numPart c)) (of_nat (?v - 4 - ?a)) (of_nat (2 + ?a)) ?P n cps start"
    and im: "gpt_image c n cps start m'"
    using GPTGenerate_ok [OF assms] by blast
  have "(le_dec (peek m' 552 8) :: u64) = start"
    using im by (simp add: gpt_image_def Let_def header_slices [OF disk])
  moreover have "unat (startLBA (cps ! i)) + unat (pvolume (cps ! i)) \<le> unat start" if "i < n" for i
  proof (rule placed_end(1) [OF pl r(4) that])
    have u: "unat (of_nat (?v - 4 - ?a) :: u64) = ?v - 4 - ?a" "unat (of_nat (2 + ?a) :: u64) = 2 + ?a"
      by (rule unat_of_nat_ok, use r in simp)+
    show "unat (of_nat (2 + ?a) :: u64) + unat (of_nat (?v - 4 - ?a) :: u64) < 2 ^ 64"
      unfolding u using r by simp
  qed
  ultimately show ?thesis using g by auto
qed

theorem firstUsableLBA_past_partitions_witness:
  "\<exists>n cps m'. GPTGenerate Little demo_gpt (blank 32768) = Inr (of_nat n, cps, m') \<and>
    (\<forall>i < n. unat (startLBA (cps ! i)) + unat (pvolume (cps ! i)) \<le> unat (le_dec (peek m' 552 8) :: u64))"
  using firstUsableLBA_past_partitions [OF demo_gpt_ready] by simp

lemma write_entry_overrun: "msize m < p + n \<Longrightarrow> write_entry h n p cp m = Inl WildAccess"
  by (simp add: write_entry_def c_memset_def wr_def)

lemma write_entries_overrun:
  "0 < k \<Longrightarrow> k \<le> length cps \<Longrightarrow> \<forall>cp \<in> set (take k cps). config_ok cp \<Longrightarrow> 128 \<le> n \<Longrightarrow>
   msize m < p + 128 * (k - 1) + n \<Longrightarrow> write_entries h n k p cps m = Inl WildAccess"
proof (induction h n k p cps m rule: write_entries.induct)
  case (3 h n k p cp cps m)
  show ?case
  proof (cases "msize m < p + n")
    case True
    then show ?thesis by (simp add: write_entry_overrun)
  next
    case False
    then obtain m1 where m1: "write_entry h n p cp m = Inr m1" "msize m1 = msize m"
      using write_entry_ok [of cp n p m h] 3 by auto
    moreover from False 3 have "0 < k" by (cases k) auto
    ultimately show ?thesis using 3 by (cases k) auto
  qed
qed simp_all

lemma alloc_all_fit:
  "k \<le> length cps \<Longrightarrow> unat s + unat r < 2 ^ 64 \<Longrightarrow> sectors_before cps k \<le> unat r \<Longrightarrow>
   alloc_partitions k r s cps = Inr (n, cps', s') \<Longrightarrow> n = k"
proof -
  assume a: "k \<le> length cps" "unat s + unat r < 2 ^ 64" "sectors_before cps k \<le> unat r"
    "alloc_partitions k r s cps = Inr (n, cps', s')"
  then have "placed k r s cps n cps' s'"
    using alloc_partitions_placed [of k cps s r] by auto
  moreover have "sectors_before cps (Suc n) \<le> unat r" if "n < k"
    using a(3) sectors_before_mono [of "Suc n" k cps] that by linarith
  ultimately show ?thesis
    using a(1) by (cases "n < k") (auto simp: placed_def sectors_before_Suc)
qed

text \<open>
  C6: clearing each entry for the size of the whole array runs past the array. When the sizes all
  fit and the buffer ends before \<open>1024 + 128 * (numPart - 1) + 512 * sectors\<close> bytes, although the
  disk passes the check of \<open>GPTGenerate\<close>, the generator writes outside the buffer.
\<close>

theorem GPTGenerate_overrun:
  assumes "4 + array_sectors c \<le> unat (gvolume c)" "512 * unat (gvolume c) \<le> msize m" "msize m < 2 ^ 64"
    "0 < unat (numPart c)" "unat (numPart c) < 2 ^ 32" "unat (numPart c) \<le> length (partitions c)"
    "\<forall>cp \<in> set (partitions c). config_ok cp"
    "sectors_before (partitions c) (unat (numPart c)) \<le> unat (gvolume c) - 4 - array_sectors c"
    "msize m < 1024 + 128 * (unat (numPart c) - 1) + 512 * array_sectors c"
  shows "GPTGenerate Little c m = Inl WildAccess"
proof -
  let ?a = "array_sectors c" and ?v = "unat (gvolume c)" and ?k = "unat (numPart c)"
  define R S :: u64 where "R = of_nat (?v - 4 - ?a)" and "S = of_nat (2 + ?a)"
  have u: "unat R = ?v - 4 - ?a" "unat S = 2 + ?a"
    unfolding R_def S_def by (rule unat_of_nat_ok, use assms in simp)+
  then have sum: "unat S + unat R < 2 ^ 64" using assms(1-3) by simp
  then obtain n cps start where al: "alloc_partitions ?k R S (partitions c) = Inr (n, cps, start)"
    and pl: "placed ?k R S (partitions c) n cps start"
    using alloc_partitions_placed [OF assms(6)] by blast
  have n: "n = ?k" using alloc_all_fit [OF assms(6) sum _ al] assms(8) u by simp
  obtain m1 where m1: "createProtectGPT Little 0 512 (gvolume c) m = Inr m1" "msize m1 = msize m"
    using createProtectGPT_ok [of m "gvolume c"] assms(1,2) by auto
  have "0 < ?a" using assms(4) by (simp add: array_sectors_def)
  then have "write_entries Little (512 * ?a) n 1024 cps m1 = Inl WildAccess"
    using write_entries_overrun [of n cps "512 * ?a" m1 1024 Little] placed_config_ok [OF pl assms(7)]
      n assms(4,6,9) m1(2) pl by (simp add: placed_def)
  then show ?thesis
    using GPTGenerate_steps [OF assms(1-5)] m1(1) al unfolding R_def [symmetric] S_def [symmetric] by simp
qed

definition crowded_gpt :: GPTConfig where
  "crowded_gpt = \<lparr>gvolume = 7, numPart = 10, partitions = replicate 10 (demo_part 0), diskId = EFI_SYSTEM_PARTITION\<rparr>"

theorem GPTGenerate_overrun_witness: "GPTGenerate Little crowded_gpt (blank 3584) = Inl WildAccess"
  by (rule GPTGenerate_overrun)
    (simp_all add: crowded_gpt_def array_sectors_def blank_def config_ok_def demo_part_def EFI_SYSTEM_PARTITION_def
      sectors_before_def)

end
