(* ===== verification/Fat_Format.thy ===== *)
theory Fat_Format
  imports Endian
begin

text \<open>
  \<open>gpt/fat.h\<close> and the first half of \<open>gpt/fat.c\<close>: the on-disk structures of FAT32 and
  \<open>createFAT32\<close>, which formats a buffer. Offsets into the buffer are computed in \<open>u32\<close>, as the
  code computes them, and only then used as addresses. The format routine is split at its own
  begin/end comments: validation, parameter block, \<open>FSInfo\<close>, allocation tables, root directory.
  The lemmas give the formatted image and the frame of the bytes it leaves alone.
\<close>

unbundle bit_operations_syntax

section \<open>Data\<close>

record FATConfig =
  nSector :: u32
  bytesPerSector :: u32
  clusterSize :: u32
  writeRandomData :: bool
  isFixed :: bool

definition FAT_ATTR_READ_ONLY :: u32 where "FAT_ATTR_READ_ONLY = 0x01"
definition FAT_ATTR_HIDDEN :: u32 where "FAT_ATTR_HIDDEN = 0x02"
definition FAT_ATTR_SYSTEM :: u32 where "FAT_ATTR_SYSTEM = 0x04"
definition FAT_ATTR_VOLUME_ID :: u32 where "FAT_ATTR_VOLUME_ID = 0x08"
definition FAT_ATTR_DIRECTORY :: u32 where "FAT_ATTR_DIRECTORY = 0x10"
definition FAT_ATTR_ARCHIVE :: u32 where "FAT_ATTR_ARCHIVE = 0x20"

definition FAT_IMPL :: "u8 list" where
  "FAT_IMPL = map of_char ''mkfs.fat''"

text \<open>The BIOS parameter block: the part common to all FAT volumes, then the FAT32 part.\<close>

definition BPB_common_layout :: layout where
  "BPB_common_layout =
     [(''jmpBoot'', 3), (''OEFName'', 8), (''bytesPerSector'', 2), (''numSectorPerCluster'', 1),
      (''numReservedSectors'', 2), (''numAllocTable'', 1), (''rootEntryCount'', 2),
      (''numSectors16'', 2), (''media'', 1), (''fatSize16'', 2), (''sectorsPerTrack'', 2),
      (''numHeads'', 2), (''hiddenSec'', 4), (''numSectors32'', 4)]"

definition BPB_fat32_layout :: layout where
  "BPB_fat32_layout =
     [(''fatSize32'', 4), (''extFlags'', 2), (''revision'', 2), (''rootCluster'', 4),
      (''fsInfo'', 2), (''bootRecordSector'', 2), (''reserved'', 12), (''driverNum'', 1),
      (''reserved1'', 1), (''bootSignature'', 1), (''volSerialNumber'', 4), (''volLabel'', 11),
      (''fileSysType'', 8), (''reserved3'', 420), (''signatureByte1'', 1), (''signatureByte2'', 1)]"

definition BPB_layout :: layout where
  "BPB_layout = BPB_common_layout @ BPB_fat32_layout"

definition FAT32_CHUNK_SHUT_BITMASK :: u32 where "FAT32_CHUNK_SHUT_BITMASK = 0x08000000"
definition FAT32_HDR_ERROR_BITMASK :: u32 where "FAT32_HDR_ERROR_BITMASK = 0x04000000"

definition FSInfo_layout :: layout where
  "FSInfo_layout =
     [(''leadSignature'', 4), (''reserved'', 480), (''structSignature'', 4), (''freeCount'', 4),
      (''nextFree'', 4), (''reserved1'', 12), (''trailSignature'', 4)]"

text \<open>Element \<open>i\<close> of an array of \<open>fat32_entry_t\<close> at address \<open>t\<close>, through the endian macros.\<close>

definition put_entry :: "endian \<Rightarrow> nat \<Rightarrow> nat \<Rightarrow> u32 \<Rightarrow> mem \<Rightarrow> mem res" where
  "put_entry h t i v m = bindE (generic_store_le h 4 (ucast v)) (\<lambda>bs. wr (t + 4 * i) bs m)"

definition get_entry :: "endian \<Rightarrow> nat \<Rightarrow> nat \<Rightarrow> mem \<Rightarrow> u32 res" where
  "get_entry h t i m =
     bindE (rd (t + 4 * i) 4 m) (\<lambda>bs. bindE (generic_load_le h bs) (\<lambda>v. Inr (ucast v)))"

section \<open>Reading the parameter block\<close>

definition numSectorDataRegion :: "endian \<Rightarrow> nat \<Rightarrow> mem \<Rightarrow> u32 res" where
  "numSectorDataRegion h bpb m =
     bindE (get_native h BPB_layout bpb ''rootEntryCount'' m) (\<lambda>rootEntCnt :: u32.
     bindE (get_native h BPB_layout bpb ''fatSize16'' m) (\<lambda>fs16 :: u32.
     bindE (get_native h BPB_layout bpb ''fatSize32'' m) (\<lambda>fs32 :: u32.
     bindE (get_native h BPB_layout bpb ''numSectors16'' m) (\<lambda>ns16 :: u32.
     bindE (get_native h BPB_layout bpb ''numSectors32'' m) (\<lambda>ns32 :: u32.
     bindE (get_native h BPB_layout bpb ''numReservedSectors'' m) (\<lambda>reserved :: u32.
     bindE (get_native h BPB_layout bpb ''numAllocTable'' m) (\<lambda>nTable :: u32.
       let FATSize = (if fs16 \<noteq> 0 then fs16 else fs32);
           totalSec = (if ns16 \<noteq> 0 then ns16 else ns32);
           dataSec = totalSec - (reserved + FATSize * nTable + rootEntCnt)
       in bindE (assertE (dataSec < totalSec)) (\<lambda>_. Inr dataSec))))))))"

definition clusterToFATEntry :: "endian \<Rightarrow> nat \<Rightarrow> u32 \<Rightarrow> mem \<Rightarrow> u64 res" where
  "clusterToFATEntry h bpb n m =
     bindE (get_native h BPB_layout bpb ''fatSize16'' m) (\<lambda>fs16 :: u32.
     bindE (get_native h BPB_layout bpb ''fatSize32'' m) (\<lambda>fs32 :: u32.
     bindE (get_native h BPB_layout bpb ''numReservedSectors'' m) (\<lambda>reserved :: u32.
     bindE (get_native h BPB_layout bpb ''bytesPerSector'' m) (\<lambda>bps :: u32.
       let FATSize = (if fs16 \<noteq> 0 then fs16 else fs32);
           fatOffset = (if fs16 \<noteq> 0 then n * 2 else n * 4)
       in bindE (assertE (FATSize \<noteq> 0)) (\<lambda>_.
          if bps = 0 then Inl DivideTrap
          else
            let secNum = reserved + fatOffset div bps;
                fatEntOffset = fatOffset mod bps
            in Inr (push_bit 32 (ucast secNum) OR ucast fatEntOffset))))))"

section \<open>Formatting\<close>

text \<open>The values of the loop variable of \<open>for (i = lo; i < hi; i *= 2)\<close>.\<close>

function doubling :: "nat \<Rightarrow> nat \<Rightarrow> nat list" where
  "doubling i hi = (if i = 0 \<or> hi \<le> i then [] else i # doubling (2 * i) hi)"
  by auto
termination by (relation "measure (\<lambda>(i, hi). hi - i)") auto

definition CDIV :: "u32 \<Rightarrow> u32 \<Rightarrow> u32" where
  "CDIV a b = (a + b - 1) div b"

definition configIsValid :: "FATConfig \<Rightarrow> bool" where
  "configIsValid config =
     (\<not> nSector config < 16 \<and>
      unat (bytesPerSector config) \<in> set (doubling 512 8192) \<and>
      unat (clusterSize config) \<in> set (doubling 1 256))"

definition media :: "FATConfig \<Rightarrow> u32" where
  "media config = (if isFixed config then 0xF8 else 0xF0)"

definition init_BPB :: "endian \<Rightarrow> FATConfig \<Rightarrow> u32 \<Rightarrow> mem \<Rightarrow> mem res" where
  "init_BPB h config fatSizeInSector m =
     bindE (c_memset 0 0 (struct_size BPB_layout) m) (\<lambda>m.
     bindE (put_bytes BPB_layout 0 ''jmpBoot'' [0xeb, 0x00, 0x90] m) (\<lambda>m.
     bindE (put_bytes BPB_layout 0 ''OEFName'' (take 8 FAT_IMPL) m) (\<lambda>m.
     bindE (put_les h BPB_layout 0
       [(''bytesPerSector'', ucast (bytesPerSector config)),
        (''numSectorPerCluster'', ucast (clusterSize config)),
        (''numReservedSectors'', 8), (''numAllocTable'', 2), (''rootEntryCount'', 0),
        (''numSectors16'', 0), (''media'', ucast (media config)), (''sectorsPerTrack'', 32),
        (''numHeads'', 8), (''hiddenSec'', 0), (''numSectors32'', ucast (nSector config)),
        (''fatSize32'', ucast fatSizeInSector), (''extFlags'', 0), (''revision'', 0),
        (''rootCluster'', 2), (''fsInfo'', 1), (''bootRecordSector'', 6), (''driverNum'', 0x80),
        (''bootSignature'', 0x29), (''volSerialNumber'', 0xe5792f15)] m) (\<lambda>m.
     bindE (put_bytes BPB_layout 0 ''volLabel'' (take 11 (map of_char ''NO NAME         '')) m) (\<lambda>m.
     bindE (put_bytes BPB_layout 0 ''fileSysType'' (map of_char ''FAT32   '') m) (\<lambda>m.
     bindE (put_les h BPB_layout 0 [(''signatureByte1'', 0x55), (''signatureByte2'', 0xaa)] m) (\<lambda>m.
     c_memcpy (unat (bytesPerSector config * 6)) 0 (struct_size BPB_layout) m)))))))"

definition init_FSInfo :: "endian \<Rightarrow> u32 \<Rightarrow> u32 \<Rightarrow> mem \<Rightarrow> mem res" where
  "init_FSInfo h sectorSize numFreeFATEntry m =
     (let finfo = unat (sectorSize * 1); finfoCopy = unat (sectorSize * 7) in
      bindE (put_les h FSInfo_layout finfo
        [(''leadSignature'', 0x41615252), (''structSignature'', 0x61417272),
         (''freeCount'', ucast numFreeFATEntry), (''nextFree'', 0x3),
         (''trailSignature'', 0xAA550000)] m) (\<lambda>m.
      c_memcpy finfoCopy finfo (struct_size FSInfo_layout) m))"

definition init_table :: "endian \<Rightarrow> nat \<Rightarrow> u32 \<Rightarrow> mem \<Rightarrow> mem res" where
  "init_table h t med m =
     bindE (put_entry h t 0 (0xFFFF00 OR med) m) (\<lambda>m.
     bindE (put_entry h t 1 (FAT32_CHUNK_SHUT_BITMASK OR FAT32_HDR_ERROR_BITMASK) m) (\<lambda>m.
     put_entry h t 2 0xFFFFFFFF m))"

definition init_FAT :: "endian \<Rightarrow> u32 \<Rightarrow> u32 \<Rightarrow> u32 \<Rightarrow> mem \<Rightarrow> mem res" where
  "init_FAT h sectorSize fatSizeInSector med m =
     bindE (c_memset (unat (sectorSize * 8)) 0 (unat (sectorSize * (fatSizeInSector * 2))) m) (\<lambda>m.
     bindE (init_table h (unat (sectorSize * 8)) med m) (\<lambda>m.
     init_table h (unat (sectorSize * (8 + fatSizeInSector))) med m))"

definition createFAT32 :: "endian \<Rightarrow> FATConfig \<Rightarrow> mem \<Rightarrow> (int \<times> mem) res" where
  "createFAT32 h config m =
     (if \<not> configIsValid config then Inr (1, m)
      else
        let sectorSize = bytesPerSector config;
            numEntryPerSector = sectorSize div 4;
            numClusterOnDisk = nSector config div clusterSize config;
            fatSizeInSector = CDIV numClusterOnDisk numEntryPerSector;
            numFATSector = fatSizeInSector * 2;
            numFreeFATEntry = numFATSector * numEntryPerSector - 3;
            dataOffset = sectorSize * (8 + numFATSector)
        in
          bindE (assertE (2 < numClusterOnDisk)) (\<lambda>_.
          bindE (init_BPB h config fatSizeInSector m) (\<lambda>m.
          bindE (init_FSInfo h sectorSize numFreeFATEntry m) (\<lambda>m.
          bindE (init_FAT h sectorSize fatSizeInSector (media config) m) (\<lambda>m.
          bindE (c_memset (unat dataOffset) 0 (unat (sectorSize * clusterSize config)) m) (\<lambda>m.
          Inr (0, m)))))))"

section \<open>Layout facts\<close>

lemma fat_struct_sizes [simp]:
  "struct_size BPB_layout = 512" "struct_size FSInfo_layout = 512"
  by (simp_all add: struct_size_def BPB_layout_def BPB_common_layout_def BPB_fat32_layout_def
      FSInfo_layout_def)

lemma BPB_offsets [simp]:
  "offsetof BPB_layout ''jmpBoot'' = 0" "offsetof BPB_layout ''OEFName'' = 3"
  "offsetof BPB_layout ''bytesPerSector'' = 11" "offsetof BPB_layout ''numSectorPerCluster'' = 13"
  "offsetof BPB_layout ''numReservedSectors'' = 14" "offsetof BPB_layout ''numAllocTable'' = 16"
  "offsetof BPB_layout ''rootEntryCount'' = 17" "offsetof BPB_layout ''numSectors16'' = 19"
  "offsetof BPB_layout ''media'' = 21" "offsetof BPB_layout ''fatSize16'' = 22"
  "offsetof BPB_layout ''sectorsPerTrack'' = 24" "offsetof BPB_layout ''numHeads'' = 26"
  "offsetof BPB_layout ''hiddenSec'' = 28" "offsetof BPB_layout ''numSectors32'' = 32"
  "offsetof BPB_layout ''fatSize32'' = 36" "offsetof BPB_layout ''extFlags'' = 40"
  "offsetof BPB_layout ''revision'' = 42" "offsetof BPB_layout ''rootCluster'' = 44"
  "offsetof BPB_layout ''fsInfo'' = 48" "offsetof BPB_layout ''bootRecordSector'' = 50"
  "offsetof BPB_layout ''driverNum'' = 64" "offsetof BPB_layout ''bootSignature'' = 66"
  "offsetof BPB_layout ''volSerialNumber'' = 67" "offsetof BPB_layout ''volLabel'' = 71"
  "offsetof BPB_layout ''fileSysType'' = 82" "offsetof BPB_layout ''signatureByte1'' = 510"
  "offsetof BPB_layout ''signatureByte2'' = 511"
  by (simp_all add: BPB_layout_def BPB_common_layout_def BPB_fat32_layout_def)

lemma BPB_sizes [simp]:
  "field_size BPB_layout ''bytesPerSector'' = 2" "field_size BPB_layout ''numSectorPerCluster'' = 1"
  "field_size BPB_layout ''numReservedSectors'' = 2" "field_size BPB_layout ''numAllocTable'' = 1"
  "field_size BPB_layout ''rootEntryCount'' = 2" "field_size BPB_layout ''numSectors16'' = 2"
  "field_size BPB_layout ''media'' = 1" "field_size BPB_layout ''fatSize16'' = 2"
  "field_size BPB_layout ''sectorsPerTrack'' = 2" "field_size BPB_layout ''numHeads'' = 2"
  "field_size BPB_layout ''hiddenSec'' = 4" "field_size BPB_layout ''numSectors32'' = 4"
  "field_size BPB_layout ''fatSize32'' = 4" "field_size BPB_layout ''extFlags'' = 2"
  "field_size BPB_layout ''revision'' = 2" "field_size BPB_layout ''rootCluster'' = 4"
  "field_size BPB_layout ''fsInfo'' = 2" "field_size BPB_layout ''bootRecordSector'' = 2"
  "field_size BPB_layout ''driverNum'' = 1" "field_size BPB_layout ''bootSignature'' = 1"
  "field_size BPB_layout ''volSerialNumber'' = 4" "field_size BPB_layout ''signatureByte1'' = 1"
  "field_size BPB_layout ''signatureByte2'' = 1"
  by (simp_all add: BPB_layout_def BPB_common_layout_def BPB_fat32_layout_def)

lemma FSInfo_offsets [simp]:
  "offsetof FSInfo_layout ''leadSignature'' = 0" "offsetof FSInfo_layout ''structSignature'' = 484"
  "offsetof FSInfo_layout ''freeCount'' = 488" "offsetof FSInfo_layout ''nextFree'' = 492"
  "offsetof FSInfo_layout ''trailSignature'' = 508"
  "field_size FSInfo_layout ''leadSignature'' = 4" "field_size FSInfo_layout ''structSignature'' = 4"
  "field_size FSInfo_layout ''freeCount'' = 4" "field_size FSInfo_layout ''nextFree'' = 4"
  "field_size FSInfo_layout ''trailSignature'' = 4"
  by (simp_all add: FSInfo_layout_def)

lemma put_entry_ok [simp]:
  "t + 4 * i + 4 \<le> msize m \<Longrightarrow> put_entry h t i v m = Inr (poke m (t + 4 * i) (le_enc 4 v))"
  by (simp add: put_entry_def generic_store_le_eq)

lemma get_entry_ok [simp]:
  "t + 4 * i + 4 \<le> msize m \<Longrightarrow> get_entry h t i m = Inr (le_dec (peek m (t + 4 * i) 4))"
  by (simp add: get_entry_def generic_load_le_eq ucast_le_dec)

section \<open>Geometry\<close>

text \<open>
  The geometry of a volume in natural numbers: sectors, bytes per sector, sectors per cluster,
  sectors of one allocation table, and the byte addresses of the regions.
\<close>

definition sectors :: "FATConfig \<Rightarrow> nat" where "sectors c = unat (nSector c)"
definition bps :: "FATConfig \<Rightarrow> nat" where "bps c = unat (bytesPerSector c)"
definition spc :: "FATConfig \<Rightarrow> nat" where "spc c = unat (clusterSize c)"
definition bpc :: "FATConfig \<Rightarrow> nat" where "bpc c = spc c * bps c"

definition fatsz :: "FATConfig \<Rightarrow> nat" where
  "fatsz c = (sectors c div spc c + (bps c div 4 - 1)) div (bps c div 4)"

definition table_at :: "FATConfig \<Rightarrow> nat \<Rightarrow> nat" where
  "table_at c t = bps c * (8 + t * fatsz c)"

definition data_at :: "FATConfig \<Rightarrow> nat" where
  "data_at c = bps c * (8 + 2 * fatsz c)"

definition fat_ready :: "FATConfig \<Rightarrow> mem \<Rightarrow> bool" where
  "fat_ready c m \<longleftrightarrow>
     configIsValid c \<and> 2 < sectors c div spc c \<and> sectors c * bps c < 2 ^ 32 \<and>
     sectors c * bps c \<le> msize m"

lemma doubling_512: "doubling 512 8192 = [512, 1024, 2048, 4096]"
  by (simp add: doubling.simps)

lemma doubling_1: "doubling 1 256 = [1, 2, 4, 8, 16, 32, 64, 128]"
  by (simp add: doubling.simps)

lemma configIsValid_geometry:
  "configIsValid c \<longleftrightarrow>
     16 \<le> sectors c \<and> bps c \<in> {512, 1024, 2048, 4096} \<and> spc c \<in> {1, 2, 4, 8, 16, 32, 64, 128}"
  by (simp add: configIsValid_def doubling_512 doubling_1 sectors_def bps_def spc_def
      word_less_nat_alt not_less)

lemma fatsz_covers: "configIsValid c \<Longrightarrow> sectors c div spc c \<le> fatsz c * (bps c div 4)"
proof -
  assume "configIsValid c"
  then have "0 < bps c div 4"
    by (auto simp: configIsValid_geometry)
  moreover have "a \<le> (a + (e - 1)) div e * e" if "0 < e" for a e :: nat
    using that div_mult_mod_eq [of "a + (e - 1)" e] mod_less_divisor [OF that, of "a + (e - 1)"]
    by linarith
  ultimately show ?thesis
    by (simp add: fatsz_def)
qed

lemma fatsz_pos: "configIsValid c \<Longrightarrow> 2 < sectors c div spc c \<Longrightarrow> 0 < fatsz c"
  using fatsz_covers [of c] by (cases "fatsz c = 0") auto

lemma fatsz_bound:
  "configIsValid c \<Longrightarrow> 128 * fatsz c \<le> sectors c div spc c + 128"
proof -
  assume "configIsValid c"
  then have e: "128 \<le> bps c div 4"
    by (auto simp: configIsValid_geometry)
  let ?e = "bps c div 4" and ?q = "sectors c div spc c"
  have "fatsz c * ?e \<le> ?q + (?e - 1)"
    by (simp add: fatsz_def)
  then have "(fatsz c - 1) * ?e \<le> ?q"
    using e by (simp add: diff_mult_distrib)
  moreover have "(fatsz c - 1) * 128 \<le> (fatsz c - 1) * ?e"
    using e by simp
  ultimately show ?thesis by linarith
qed

text \<open>The reserved region, both tables and the root cluster fit into every accepted volume.\<close>

lemma geometry_fits:
  assumes "configIsValid c" "2 < sectors c div spc c"
  shows "8 + 2 * fatsz c + spc c \<le> sectors c"
proof -
  have "16 \<le> sectors c" "128 * fatsz c \<le> sectors c div spc c + 128"
    using assms fatsz_bound by (simp_all add: configIsValid_geometry)
  moreover have "spc c * (sectors c div spc c) \<le> sectors c"
    by simp
  moreover have "spc c \<in> {1, 2, 4, 8, 16, 32, 64, 128}"
    using assms(1) by (simp add: configIsValid_geometry)
  ultimately show ?thesis
    using assms(2) by auto
qed

lemma unat_geometry:
  assumes "configIsValid c" "2 < sectors c div spc c" "sectors c * bps c < 2 ^ 32"
  defines "s \<equiv> bytesPerSector c"
    and "f \<equiv> CDIV (nSector c div clusterSize c) (bytesPerSector c div 4)"
  shows "unat (nSector c div clusterSize c) = sectors c div spc c"
    and "unat f = fatsz c"
    and "unat (s * 6) = bps c * 6" "unat (s * 1) = bps c" "unat (s * 7) = bps c * 7"
    and "unat (s * 8) = table_at c 0" "unat (s * (8 + f)) = table_at c 1"
    and "unat (s * (f * 2)) = bps c * (2 * fatsz c)"
    and "unat (s * (8 + f * 2)) = data_at c" "unat (s * clusterSize c) = bpc c"
    and "unat (f * 2 * (s div 4) - 3) = 2 * fatsz c * (bps c div 4) - 3"
proof -
  have s: "unat s = bps c" "bps c \<in> {512, 1024, 2048, 4096}"
    using assms(1) by (simp_all add: s_def bps_def configIsValid_geometry)
  show q: "unat (nSector c div clusterSize c) = sectors c div spc c"
    by (simp add: unat_div sectors_def spc_def)
  have e: "unat (bytesPerSector c div 4) = bps c div 4"
    by (simp add: unat_div bps_def)
  have qs: "sectors c div spc c \<le> sectors c" by simp
  have "sectors c * 512 \<le> sectors c * bps c"
    using s by auto
  then have "sectors c * 512 < 2 ^ 32"
    using assms(3) by (rule le_less_trans)
  then have n: "sectors c < 2 ^ 23"
    by simp
  have "unat (bytesPerSector c div 4 - 1) = bps c div 4 - 1"
    using s(2) e by (subst unat_sub_ok) auto
  then have "unat (nSector c div clusterSize c + (bytesPerSector c div 4 - 1)) =
      sectors c div spc c + (bps c div 4 - 1)"
    using le_less_trans [OF qs n] s(2) q by (subst unat_add_ok) auto
  then show f: "unat f = fatsz c"
    unfolding f_def CDIV_def add_diff_eq [symmetric] by (simp add: unat_div fatsz_def flip: bps_def)
  have fit: "8 + 2 * fatsz c + spc c \<le> sectors c"
    using assms(1,2) by (rule geometry_fits)
  have lim: "bps c * k < 2 ^ 32" if "k \<le> sectors c" for k
    using le_less_trans [OF mult_le_mono2 [OF that, of "bps c"], of "2 ^ 32"] assms(3)
    by (simp only: mult.commute [of "bps c" "sectors c"])
  have scale: "unat (s * w) = bps c * k" if "unat w = k" "k \<le> sectors c" for w k
    using lim [OF that(2)] that(1) s(1) by (simp add: unat_mult_ok)
  have "16 \<le> sectors c"
    using assms(1) by (simp add: configIsValid_geometry)
  then show "unat (s * 6) = bps c * 6" "unat (s * 1) = bps c" "unat (s * 7) = bps c * 7"
    "unat (s * 8) = table_at c 0"
    using scale [of 6 6] scale [of 7 7] scale [of 8 8] s(1) by (simp_all add: table_at_def)
  have f2: "unat (f * 2) = 2 * fatsz c"
    using fit n by (simp add: unat_mult_ok f)
  have "unat (8 + f) = 8 + fatsz c" "unat (8 + f * 2) = 8 + 2 * fatsz c"
    using fit n f f2 by (simp_all add: unat_add_ok)
  then show "unat (s * (8 + f)) = table_at c 1" "unat (s * (f * 2)) = bps c * (2 * fatsz c)"
    "unat (s * (8 + f * 2)) = data_at c"
    using scale [of "8 + f" "8 + fatsz c"] scale [of "f * 2" "2 * fatsz c"]
      scale [of "8 + f * 2" "8 + 2 * fatsz c"] f2 fit
    by (simp_all add: table_at_def data_at_def)
  show "unat (s * clusterSize c) = bpc c"
    using scale [of "clusterSize c" "spc c"] fit by (simp add: spc_def bpc_def mult.commute)
  have "2 * fatsz c * (bps c div 4) \<le> sectors c * bps c"
    using fit by (intro mult_le_mono) simp_all
  then have "unat (f * 2 * (s div 4)) = 2 * fatsz c * (bps c div 4)"
    using assms(3) f2 e by (simp add: unat_mult_ok s_def)
  moreover have "3 \<le> 2 * fatsz c * (bps c div 4)"
    using fatsz_pos [OF assms(1,2)] s(2) by auto
  ultimately show "unat (f * 2 * (s div 4) - 3) = 2 * fatsz c * (bps c div 4) - 3"
    by (simp add: unat_sub_ok)
qed

section \<open>The formatted image\<close>

definition bpb_fields :: "FATConfig \<Rightarrow> u8 list list" where
  "bpb_fields c =
     [[0xeb, 0x00, 0x90], FAT_IMPL, le_enc 2 (bytesPerSector c), le_enc 1 (clusterSize c),
      le_enc 2 (8 :: u64), le_enc 1 (2 :: u64), le_enc 2 (0 :: u64), le_enc 2 (0 :: u64),
      le_enc 1 (media c), replicate 2 0, le_enc 2 (32 :: u64), le_enc 2 (8 :: u64),
      le_enc 4 (0 :: u64), le_enc 4 (nSector c), le_enc 4 (of_nat (fatsz c) :: u32),
      le_enc 2 (0 :: u64), le_enc 2 (0 :: u64), le_enc 4 (2 :: u64), le_enc 2 (1 :: u64),
      le_enc 2 (6 :: u64), replicate 12 0, le_enc 1 (0x80 :: u64), replicate 1 0,
      le_enc 1 (0x29 :: u64), le_enc 4 (0xe5792f15 :: u64), map of_char ''NO NAME    '',
      map of_char ''FAT32   '', replicate 420 0, le_enc 1 (0x55 :: u64), le_enc 1 (0xaa :: u64)]"

lemma length_FAT_IMPL [simp]: "length FAT_IMPL = 8"
  by (simp add: FAT_IMPL_def)

lemma length_bpb [simp]: "length (concat (bpb_fields c)) = 512"
  by (simp add: bpb_fields_def)

lemma le_enc_2_ucast [simp]: "le_enc 2 (ucast w :: u64) = le_enc 2 (w :: u32)"
  by (rule le_enc_ucast) simp_all

lemma le_enc_1_ucast [simp]: "le_enc (Suc 0) (ucast w :: u64) = le_enc (Suc 0) (w :: u32)"
  by (rule le_enc_ucast) simp_all

lemma peek_replicate: "peek m p n = replicate n x \<longleftrightarrow> (\<forall>i<n. mbyte m (p + i) = x)"
  by (simp add: list_eq_iff_nth_eq)

lemma init_BPB_ok:
  assumes "unat f = fatsz c" "unat (bytesPerSector c * 6) = bps c * 6"
    "512 \<le> bps c" "bps c * 7 \<le> msize m"
  shows "\<exists>m'. init_BPB h c f m = Inr m' \<and> msize m' = msize m \<and>
    peek m' 0 512 = concat (bpb_fields c) \<and> peek m' (bps c * 6) 512 = concat (bpb_fields c) \<and>
    (\<forall>i. 512 \<le> i \<and> \<not> (bps c * 6 \<le> i \<and> i < bps c * 6 + 512) \<longrightarrow> mbyte m' i = mbyte m i)"
proof -
  have f: "f = of_nat (fatsz c)"
    using assms(1) by (rule word_of_nat_unat_eq)
  have sz: "512 \<le> msize m" "bps c * 6 + 512 \<le> msize m"
    using assms(3,4) by simp_all
  define m1 where "m1 = poke (poke (poke m 0 (replicate 512 0)) 0 [0xeb, 0, 0x90]) 3 FAT_IMPL"
  define m2 where "m2 = poke (poke (poke (poke (poke (poke (poke (poke (poke (poke (poke m1
     11 (le_enc 2 (bytesPerSector c))) 13 (le_enc 1 (clusterSize c))) 14 (le_enc 2 (8 :: u64)))
     16 (le_enc 1 (2 :: u64))) 17 (le_enc 2 (0 :: u64))) 19 (le_enc 2 (0 :: u64))) 21 (le_enc 1 (media c)))
     24 (le_enc 2 (32 :: u64))) 26 (le_enc 2 (8 :: u64))) 28 (le_enc 4 (0 :: u64))) 32 (le_enc 4 (nSector c))"
  define m3 where "m3 = poke (poke (poke (poke (poke (poke (poke (poke (poke m2
     36 (le_enc 4 f)) 40 (le_enc 2 (0 :: u64))) 42 (le_enc 2 (0 :: u64))) 44 (le_enc 4 (2 :: u64)))
     48 (le_enc 2 (1 :: u64))) 50 (le_enc 2 (6 :: u64))) 64 (le_enc 1 (0x80 :: u64)))
     66 (le_enc 1 (0x29 :: u64))) 67 (le_enc 4 (0xe5792f15 :: u64))"
  define m4 where "m4 = poke (poke (poke (poke m3 71 (map of_char ''NO NAME    '')) 82 (map of_char ''FAT32   ''))
     510 (le_enc 1 (0x55 :: u64))) 511 (le_enc 1 (0xaa :: u64))"
  have run: "init_BPB h c f m = Inr (poke m4 (bps c * 6) (peek m4 0 512))"
    using sz by (simp add: init_BPB_def assms(2) m4_def m3_def m2_def m1_def del: le_enc.simps)
  have bpb: "peek m4 0 512 = concat (bpb_fields c)"
    unfolding peek_concat [OF length_bpb [symmetric]]
    by (simp add: bpb_fields_def m4_def m3_def m2_def m1_def f peek_poke_inside
        del: le_enc.simps replicate.simps)
  have out: "mbyte m4 i = mbyte m i" if "512 \<le> i" for i
    using that by (simp add: m4_def m3_def m2_def m1_def del: le_enc.simps)
  show ?thesis
    using run bpb out assms(3) by (auto simp: mbyte_poke m4_def m3_def m2_def m1_def)
qed

definition fsinfo_fields :: "nat \<Rightarrow> u32 \<Rightarrow> u32 \<Rightarrow> mem \<Rightarrow> bool" where
  "fsinfo_fields p free next m \<longleftrightarrow>
     peek m p 4 = le_enc 4 (0x41615252 :: u64) \<and> peek m (p + 484) 4 = le_enc 4 (0x61417272 :: u64) \<and>
     peek m (p + 488) 4 = le_enc 4 free \<and> peek m (p + 492) 4 = le_enc 4 next \<and>
     peek m (p + 508) 4 = le_enc 4 (0xAA550000 :: u64)"

lemma init_FSInfo_ok:
  assumes "unat (s * 1) = b" "unat (s * 7) = b * 7" "512 \<le> b" "b * 8 \<le> msize m"
  shows "\<exists>m'. init_FSInfo h s free m = Inr m' \<and> msize m' = msize m \<and>
    fsinfo_fields b free 3 m' \<and> peek m' (b * 7) 512 = peek m' b 512 \<and>
    peek m' (b + 4) 480 = peek m (b + 4) 480 \<and> peek m' (b + 496) 12 = peek m (b + 496) 12 \<and>
    (\<forall>i. \<not> (b \<le> i \<and> i < b + 512) \<and> \<not> (b * 7 \<le> i \<and> i < b * 7 + 512) \<longrightarrow> mbyte m' i = mbyte m i)"
proof -
  have sz: "b + 512 \<le> msize m" "b * 7 + 512 \<le> msize m"
    using assms(3,4) by simp_all
  have three: "le_enc 4 (3 :: u64) = le_enc 4 (3 :: u32)"
    using le_enc_4_ucast [of 3] by simp
  define m1 where "m1 = poke (poke (poke (poke (poke m b (le_enc 4 (0x41615252 :: u64)))
    (b + 484) (le_enc 4 (0x61417272 :: u64))) (b + 488) (le_enc 4 free)) (b + 492) (le_enc 4 (3 :: u32)))
    (b + 508) (le_enc 4 (0xAA550000 :: u64))"
  have run: "init_FSInfo h s free m = Inr (poke m1 (b * 7) (peek m1 b 512))"
    using sz assms(1,2) by (simp add: init_FSInfo_def m1_def three)
  have "fsinfo_fields b free 3 m1"
    by (simp add: fsinfo_fields_def m1_def)
  moreover have "peek m1 (b + 4) 480 = peek m (b + 4) 480" "peek m1 (b + 496) 12 = peek m (b + 496) 12"
    by (simp_all add: m1_def)
  moreover have "mbyte m1 i = mbyte m i" if "i < b \<or> b + 512 \<le> i" for i
    using that by (elim disjE) (simp_all add: m1_def)
  moreover have "msize m1 = msize m"
    by (simp add: m1_def)
  ultimately show ?thesis
    using run assms(3) by (auto simp: fsinfo_fields_def mbyte_poke)
qed

text \<open>One allocation table of \<open>n\<close> bytes as the formatter leaves it.\<close>

definition table_pieces :: "u32 \<Rightarrow> nat \<Rightarrow> u8 list list" where
  "table_pieces med n =
     [le_enc 4 (0xFFFF00 OR med), le_enc 4 (FAT32_CHUNK_SHUT_BITMASK OR FAT32_HDR_ERROR_BITMASK),
      le_enc 4 (0xFFFFFFFF :: u32), replicate (n - 12) 0]"

lemma init_table_ok:
  assumes "12 \<le> n" "t + n \<le> msize m" "peek m t n = replicate n 0"
  shows "\<exists>m'. init_table h t med m = Inr m' \<and> msize m' = msize m \<and>
    peek m' t n = concat (table_pieces med n) \<and>
    (\<forall>i. i < t \<or> t + n \<le> i \<longrightarrow> mbyte m' i = mbyte m i)"
proof -
  let ?e0 = "le_enc 4 (0xFFFF00 OR med)"
    and ?e1 = "le_enc 4 (FAT32_CHUNK_SHUT_BITMASK OR FAT32_HDR_ERROR_BITMASK)"
    and ?e2 = "le_enc 4 (0xFFFFFFFF :: u32)"
  define m' where "m' = poke (poke (poke m t ?e0) (t + 4) ?e1) (t + 8) ?e2"
  have run: "init_table h t med m = Inr m'"
    using assms by (simp add: init_table_def m'_def)
  have "mbyte m (t + 12 + i) = 0" if "i < n - 12" for i
    using that assms(3) unfolding list_eq_iff_nth_eq by (auto dest: spec [of _ "12 + i"] simp: add.assoc)
  then have "peek m (t + 12) (n - 12) = replicate (n - 12) 0"
    by (simp add: peek_replicate)
  then have "pieces_at m' t (table_pieces med n)"
    by (simp add: table_pieces_def m'_def add.commute [of 8 t] add.commute [of 12 t])
  then have "peek m' t n = concat (table_pieces med n)"
    using assms(1) by (subst peek_concat) (simp_all add: table_pieces_def)
  moreover have "mbyte m' i = mbyte m i" if "i < t \<or> t + n \<le> i" for i
    using that assms(1) by (elim disjE) (simp_all add: m'_def)
  ultimately show ?thesis
    using run by (simp add: m'_def)
qed

lemma init_FAT_ok:
  assumes "unat (s * 8) = t0" "unat (s * (8 + f)) = t0 + n" "unat (s * (f * 2)) = 2 * n"
    "12 \<le> n" "t0 + 2 * n \<le> msize m"
  shows "\<exists>m'. init_FAT h s f med m = Inr m' \<and> msize m' = msize m \<and>
    peek m' t0 n = concat (table_pieces med n) \<and> peek m' (t0 + n) n = concat (table_pieces med n) \<and>
    (\<forall>i. i < t0 \<or> t0 + 2 * n \<le> i \<longrightarrow> mbyte m' i = mbyte m i)"
proof -
  define m1 where "m1 = poke m t0 (replicate (2 * n) 0)"
  have "peek m1 t0 n = replicate n 0"
    by (simp add: m1_def peek_poke_inside)
  then obtain m2 where m2: "init_table h t0 med m1 = Inr m2" "msize m2 = msize m1"
    "peek m2 t0 n = concat (table_pieces med n)"
    "\<forall>i. i < t0 \<or> t0 + n \<le> i \<longrightarrow> mbyte m2 i = mbyte m1 i"
    using init_table_ok [of n t0 m1 h med] assms(4,5) by (auto simp: m1_def)
  have "peek m2 (t0 + n) n = peek m1 (t0 + n) n"
    using m2(4) by (intro peek_cong) simp
  also have "\<dots> = replicate n 0"
    by (simp add: m1_def peek_poke_inside)
  finally obtain m3 where m3: "init_table h (t0 + n) med m2 = Inr m3" "msize m3 = msize m2"
    "peek m3 (t0 + n) n = concat (table_pieces med n)"
    "\<forall>i. i < t0 + n \<or> t0 + n + n \<le> i \<longrightarrow> mbyte m3 i = mbyte m2 i"
    using init_table_ok [of n "t0 + n" m2 h med] assms(4,5) m2(2) by (auto simp: m1_def)
  have "peek m3 t0 n = peek m2 t0 n"
    using m3(4) by (intro peek_cong) simp
  moreover have "mbyte m3 i = mbyte m i" if "i < t0 \<or> t0 + 2 * n \<le> i" for i
    using that m3(4) m2(4) by (auto simp: m1_def)
  moreover have "init_FAT h s f med m = Inr m3"
    using assms m2(1) m3(1) by (simp add: init_FAT_def m1_def)
  ultimately show ?thesis
    using m2(2,3) m3(2,3) by (simp add: m1_def)
qed

text \<open>
  What \<open>createFAT32\<close> makes of the buffer \<open>m\<close>. The two reserved areas of \<open>FSInfo\<close> keep what the buffer held,
  and the copy is a copy of the whole structure.
\<close>

definition formatted :: "FATConfig \<Rightarrow> mem \<Rightarrow> mem \<Rightarrow> bool" where
  "formatted c m m' \<longleftrightarrow>
     msize m' = msize m \<and>
     peek m' 0 512 = concat (bpb_fields c) \<and> peek m' (bps c * 6) 512 = concat (bpb_fields c) \<and>
     fsinfo_fields (bps c) (of_nat (2 * fatsz c * (bps c div 4) - 3)) 3 m' \<and>
     peek m' (bps c + 4) 480 = peek m (bps c + 4) 480 \<and> peek m' (bps c + 496) 12 = peek m (bps c + 496) 12 \<and>
     peek m' (bps c * 7) 512 = peek m' (bps c) 512 \<and>
     (\<forall>t<2. peek m' (table_at c t) (fatsz c * bps c) = concat (table_pieces (media c) (fatsz c * bps c))) \<and>
     peek m' (data_at c) (bpc c) = replicate (bpc c) 0 \<and>
     (\<forall>i. \<not> (\<exists>k\<in>{0, 1, 6, 7}. bps c * k \<le> i \<and> i < bps c * k + 512) \<and>
          \<not> (table_at c 0 \<le> i \<and> i < data_at c + bpc c) \<longrightarrow> mbyte m' i = mbyte m i)"

lemma table_at_simps: "table_at c 0 = bps c * 8" "table_at c 1 = table_at c 0 + fatsz c * bps c"
  "data_at c = table_at c 0 + 2 * (fatsz c * bps c)"
  by (simp_all add: table_at_def data_at_def algebra_simps)

lemma createFAT32_ok:
  assumes "fat_ready c m"
  shows "\<exists>m'. createFAT32 h c m = Inr (0, m') \<and> formatted c m m'"
proof -
  have v: "configIsValid c" "2 < sectors c div spc c" "sectors c * bps c < 2 ^ 32"
    "sectors c * bps c \<le> msize m"
    using assms by (simp_all add: fat_ready_def)
  note u = unat_geometry [OF v(1-3)]
  have b: "512 \<le> bps c"
    using v(1) by (auto simp: configIsValid_geometry)
  have fit: "data_at c + bpc c \<le> msize m"
  proof -
    have "bps c * (8 + 2 * fatsz c + spc c) \<le> bps c * sectors c"
      using geometry_fits [OF v(1,2)] by simp
    then show ?thesis
      using v(4) by (simp add: data_at_def bpc_def algebra_simps)
  qed
  define n where "n = fatsz c * bps c"
  have n: "12 \<le> n"
    using mult_le_mono [of 1 "fatsz c" 512 "bps c"] fatsz_pos [OF v(1,2)] b by (simp add: n_def)
  have at: "table_at c 0 = bps c * 8" "table_at c 1 = bps c * 8 + n" "data_at c = bps c * 8 + 2 * n"
    by (simp_all add: table_at_def data_at_def n_def algebra_simps)
  let ?f = "CDIV (nSector c div clusterSize c) (bytesPerSector c div 4)"
  let ?free = "?f * 2 * (bytesPerSector c div 4) - 3"
  have free: "?free = of_nat (2 * fatsz c * (bps c div 4) - 3)"
    using u(11) by (rule word_of_nat_unat_eq)
  obtain m1 where m1: "init_BPB h c ?f m = Inr m1" "msize m1 = msize m"
    "peek m1 0 512 = concat (bpb_fields c)" "peek m1 (bps c * 6) 512 = concat (bpb_fields c)"
    "\<forall>i. 512 \<le> i \<and> \<not> (bps c * 6 \<le> i \<and> i < bps c * 6 + 512) \<longrightarrow> mbyte m1 i = mbyte m i"
    using init_BPB_ok [OF u(2,3) b, of m h] fit b at by auto
  obtain m2 where m2: "init_FSInfo h (bytesPerSector c) ?free m1 = Inr m2" "msize m2 = msize m1"
    "fsinfo_fields (bps c) ?free 3 m2" "peek m2 (bps c * 7) 512 = peek m2 (bps c) 512"
    "peek m2 (bps c + 4) 480 = peek m1 (bps c + 4) 480" "peek m2 (bps c + 496) 12 = peek m1 (bps c + 496) 12"
    "\<forall>i. \<not> (bps c \<le> i \<and> i < bps c + 512) \<and> \<not> (bps c * 7 \<le> i \<and> i < bps c * 7 + 512) \<longrightarrow>
       mbyte m2 i = mbyte m1 i"
    using init_FSInfo_ok [OF u(4,5) b, of m1 h ?free] fit b at m1(2) by auto
  obtain m3 where m3: "init_FAT h (bytesPerSector c) ?f (media c) m2 = Inr m3" "msize m3 = msize m2"
    "peek m3 (bps c * 8) n = concat (table_pieces (media c) n)"
    "peek m3 (bps c * 8 + n) n = concat (table_pieces (media c) n)"
    "\<forall>i. i < bps c * 8 \<or> bps c * 8 + 2 * n \<le> i \<longrightarrow> mbyte m3 i = mbyte m2 i"
    using init_FAT_ok [of "bytesPerSector c" "bps c * 8" ?f n m2 h "media c"] n fit at m1(2) m2(2)
      u(6,7,8) by (auto simp: n_def algebra_simps)
  define m4 where "m4 = poke m3 (data_at c) (replicate (bpc c) 0)"
  have run: "createFAT32 h c m = Inr (0, m4)"
    using v(1,2) u fit m1(1,2) m2(1,2) m3(1,2)
    by (simp add: createFAT32_def Let_def m4_def word_less_nat_alt)
  have low: "peek m4 p k = peek m3 p k" if "p + k \<le> data_at c" for p k
    using that by (simp add: m4_def)
  have low2: "peek m3 p k = peek m2 p k" if "p + k \<le> bps c * 8" for p k
    using that m3(5) by (intro peek_cong) simp
  have low1: "peek m2 p 512 = peek m1 p 512" if "p \<in> {0, bps c * 6}" for p
    using that m2(7) b by (intro peek_cong) auto
  have "peek m4 0 512 = concat (bpb_fields c)" "peek m4 (bps c * 6) 512 = concat (bpb_fields c)"
    using low low2 low1 b m1(3,4) at by auto
  moreover have "fsinfo_fields (bps c) ?free 3 m4" "peek m4 (bps c * 7) 512 = peek m4 (bps c) 512"
    using m2(3,4) low low2 b at by (auto simp: fsinfo_fields_def)
  moreover have "peek m4 p k = peek m p k" if "512 \<le> p" "p + k \<le> bps c * 2" "peek m2 p k = peek m1 p k" for p k
  proof -
    have "peek m1 p k = peek m p k"
      using m1(5) that(1,2) by (intro peek_cong) auto
    then show ?thesis using that low [of p k] low2 [of p k] at by simp
  qed
  then have "peek m4 (bps c + 4) 480 = peek m (bps c + 4) 480" "peek m4 (bps c + 496) 12 = peek m (bps c + 496) 12"
    using m2(5,6) b by simp_all
  moreover have "peek m4 (table_at c t) n = concat (table_pieces (media c) n)" if "t < 2" for t
    using that low at m3(3,4) by (auto simp: less_2_cases_iff)
  moreover have "mbyte m4 i = mbyte m i"
    if "\<not> (\<exists>k\<in>{0, 1, 6, 7}. bps c * k \<le> i \<and> i < bps c * k + 512)"
      "\<not> (table_at c 0 \<le> i \<and> i < data_at c + bpc c)" for i
    using that m3(5) m2(7) m1(5) at by (auto simp: m4_def mbyte_poke)
  ultimately show ?thesis
    using run m1(2) m2(2) m3(2) free by (simp add: formatted_def n_def m4_def)
qed

end
