(* ===== verification/Fat_Super.thy ===== *)
theory Fat_Super
  imports Fat_Format
begin

text \<open>
  The second half of \<open>gpt/fat.c\<close>: directory entries, dates and times, the in-memory super block
  and \<open>FAT32Copyin\<close>, which appends a host file to the root directory. Pointers into the image are
  offsets, \<open>None\<close> is the null pointer; \<open>sb->buf\<close> and \<open>sb->bpb\<close> are the image itself and have no
  field. The host file is a parameter: what \<open>fstat\<close>, \<open>lseek\<close> and \<open>read\<close> answer.
\<close>

unbundle bit_operations_syntax

section \<open>Directory entries, dates and times\<close>

definition FATDirEntry_layout :: layout where
  "FATDirEntry_layout =
     [(''name'', 11), (''attr'', 1), (''ntres'', 1), (''createTimeTenth'', 1), (''createTime'', 2),
      (''createDate'', 2), (''lastAccessDate'', 2), (''firstClusterHigh'', 2), (''writeTime'', 2),
      (''writeDate'', 2), (''firstClusterLow'', 2), (''fileSize'', 4)]"

definition FAT32Date :: "u16 \<Rightarrow> u16 \<Rightarrow> u16 \<Rightarrow> u16" where
  "FAT32Date year month day =
     (let ret = 0;
          ret = ret OR (day AND 0x1F);
          ret = ret OR push_bit 5 (month AND 0xF);
          year = year - 1980
      in ret OR push_bit 9 (year AND 0x7F))"

definition FAT32Time :: "u16 \<Rightarrow> u16 \<Rightarrow> u16 \<Rightarrow> u16" where
  "FAT32Time hour minute sec =
     (let ret = 0;
          sec = drop_bit 1 sec;
          ret = ret OR (sec AND 0x1F);
          ret = ret OR push_bit 5 (minute AND 0x3F)
      in ret OR push_bit 11 (hour AND 0x1F))"

section \<open>The super block\<close>

record FAT32Super =
  sb_fsInfo :: "nat option"
  sb_bytesPerSector :: u32
  sb_bytesPerCluster :: u32
  sb_bytesPerFAT :: u32
  sb_numSector :: u32
  sb_numReserved :: u32
  sb_numFAT :: u32
  sb_numData :: u32
  sb_maxCluster :: u32
  sb_rootCluster :: u32
  sb_numEntryTable :: u32
  sb_tables :: "nat option list"
  sb_rootDir :: "nat option"
  sb_nextRootEntry :: u32
  sb_numRootEntry :: u32

definition deref :: "nat option \<Rightarrow> nat res" where
  "deref p = (case p of None \<Rightarrow> Inl NullDeref | Some a \<Rightarrow> Inr a)"

definition FAT32SuperGetSector :: "FAT32Super \<Rightarrow> u32 \<Rightarrow> nat option" where
  "FAT32SuperGetSector sb sector =
     (if sb_numSector sb \<le> sector then None else Some (unat (sector * sb_bytesPerSector sb)))"

definition FAT32SuperCluster :: "FAT32Super \<Rightarrow> u32 \<Rightarrow> nat option" where
  "FAT32SuperCluster sb cluster =
     (if cluster < 2 \<or> sb_maxCluster sb \<le> cluster then None
      else Some (unat (sb_bytesPerSector sb * (sb_numFAT sb + sb_numReserved sb) +
                       sb_bytesPerCluster sb * (cluster - 2))))"

definition FAT32SuperReadEntry :: "endian \<Rightarrow> FAT32Super \<Rightarrow> u32 \<Rightarrow> mem \<Rightarrow> u32 res" where
  "FAT32SuperReadEntry h sb cluster m =
     bindE (assertE (cluster < sb_maxCluster sb)) (\<lambda>_.
     bindE (deref (sb_tables sb ! 0)) (\<lambda>t. get_entry h t (unat cluster) m))"

definition table_ptr :: "FAT32Super \<Rightarrow> nat \<Rightarrow> nat res" where
  "table_ptr sb i = (if i < length (sb_tables sb) then deref (sb_tables sb ! i) else Inl WildAccess)"

definition FAT32SuperWriteEntry :: "endian \<Rightarrow> FAT32Super \<Rightarrow> u32 \<Rightarrow> u32 \<Rightarrow> mem \<Rightarrow> mem res" where
  "FAT32SuperWriteEntry h sb cluster v m =
     bindE (assertE (cluster < sb_maxCluster sb)) (\<lambda>_.
     bindE (assertE (1 \<le> cluster)) (\<lambda>_.
     foldE (\<lambda>i m. bindE (table_ptr sb i) (\<lambda>t. put_entry h t (unat cluster) v m))
       [0..<unat (sb_numEntryTable sb)] m))"

definition FAT32SuperFree :: "FAT32Super \<Rightarrow> mem \<Rightarrow> mem res" where
  "FAT32SuperFree sb m =
     bindE (deref (FAT32SuperGetSector sb 6)) (\<lambda>s6.
     bindE (c_memcpy s6 0 (unat (sb_bytesPerSector sb)) m) (\<lambda>m.
     bindE (deref (FAT32SuperGetSector sb 7)) (\<lambda>s7.
     bindE (deref (FAT32SuperGetSector sb 1)) (\<lambda>s1.
     c_memcpy s7 s1 (unat (sb_bytesPerSector sb)) m))))"

text \<open>\<open>_generic_load_le\<close> of a field into a \<open>uint32_t\<close> variable.\<close>

definition get32 :: "endian \<Rightarrow> layout \<Rightarrow> nat \<Rightarrow> string \<Rightarrow> mem \<Rightarrow> u32 res" where
  "get32 h L p f m = bindE (get_le h L p f m) (\<lambda>v. Inr (ucast v))"

text \<open>The geometry part of \<open>FAT32SuperInit\<close>, up to the first table.\<close>

definition super_geometry :: "endian \<Rightarrow> mem \<Rightarrow> FAT32Super res" where
  "super_geometry h m =
     bindE (get32 h BPB_layout 0 ''bytesPerSector'' m) (\<lambda>bytesPerSector.
     bindE (get32 h BPB_layout 0 ''numSectorPerCluster'' m) (\<lambda>nsecPerCluster.
     bindE (get32 h BPB_layout 0 ''fatSize32'' m) (\<lambda>fatSize.
     bindE (get32 h BPB_layout 0 ''numSectors32'' m) (\<lambda>numSector.
     bindE (get32 h BPB_layout 0 ''numReservedSectors'' m) (\<lambda>numReservedSectors.
     bindE (get32 h BPB_layout 0 ''numAllocTable'' m) (\<lambda>numAllocTable.
       let numFAT = fatSize * numAllocTable;
           numData = numSector - numReservedSectors - numFAT
       in if nsecPerCluster = 0 then Inl DivideTrap
          else
     bindE (get32 h BPB_layout 0 ''rootCluster'' m) (\<lambda>rootCluster.
       Inr \<lparr>sb_fsInfo = (if numSector \<le> 1 then None else Some (unat (1 * bytesPerSector))),
         sb_bytesPerSector = bytesPerSector,
         sb_bytesPerCluster = nsecPerCluster * bytesPerSector,
         sb_bytesPerFAT = fatSize * bytesPerSector,
         sb_numSector = numSector, sb_numReserved = numReservedSectors, sb_numFAT = numFAT,
         sb_numData = numData, sb_maxCluster = numData div nsecPerCluster,
         sb_rootCluster = rootCluster, sb_numEntryTable = numAllocTable,
         sb_tables = [Some (unat (bytesPerSector * numReservedSectors)), None, None, None],
         sb_rootDir = None, sb_nextRootEntry = 0, sb_numRootEntry = 0\<rparr>)))))))"

text \<open>The loop over the remaining tables; index 4 is past the end of \<open>sb->tables\<close>.\<close>

definition super_tables :: "FAT32Super \<Rightarrow> FAT32Super res" where
  "super_tables sb =
     foldE (\<lambda>i sb. bindE (table_ptr sb (i - 1)) (\<lambda>t.
         if i < length (sb_tables sb)
         then Inr (sb\<lparr>sb_tables := (sb_tables sb)[i := Some (t + 4 * unat (sb_bytesPerFAT sb div 4))]\<rparr>)
         else Inl WildAccess))
       [1..<unat (sb_numEntryTable sb)] sb"

text \<open>
  The walk along the root directory's chain. The loop state is one entry of the table, which has
  \<open>2 ^ 32\<close> values, and the image does not change: a walk longer than that repeats and never ends.
\<close>

fun root_chain :: "nat \<Rightarrow> endian \<Rightarrow> nat \<Rightarrow> mem \<Rightarrow> u32 \<Rightarrow> u32 \<Rightarrow> u32 res" where
  "root_chain fuel h t m nextPtr rootDirCluster =
     (if nextPtr = 0xFFFFFFFF then Inr rootDirCluster
      else if fuel = 0 then Inl Diverge
      else bindE (get_entry h t (unat nextPtr) m) (\<lambda>nextPtr.
        root_chain (fuel - 1) h t m nextPtr (rootDirCluster + 1)))"

declare root_chain.simps [simp del]

text \<open>The search for the first directory entry whose name starts with a zero byte.\<close>

fun first_free :: "mem \<Rightarrow> nat option \<Rightarrow> nat \<Rightarrow> nat \<Rightarrow> nat res" where
  "first_free m rootDir i 0 = Inr i"
| "first_free m rootDir i (Suc n) =
     bindE (deref rootDir) (\<lambda>d.
     bindE (rd (d + 32 * i) 1 m) (\<lambda>bs.
       if bs = [0] then Inr i else first_free m rootDir (i + 1) n))"

definition FAT32SuperInit :: "endian \<Rightarrow> mem \<Rightarrow> FAT32Super res" where
  "FAT32SuperInit h m =
     bindE (super_geometry h m) (\<lambda>sb.
     bindE (super_tables sb) (\<lambda>sb.
     bindE (deref (sb_tables sb ! 0)) (\<lambda>t.
     bindE (get_entry h t (unat (sb_rootCluster sb)) m) (\<lambda>nextPtr.
     bindE (root_chain (2 ^ 32) h t m nextPtr 1) (\<lambda>rootDirCluster.
       let rootDir = FAT32SuperGetSector sb (sb_numReserved sb + sb_numFAT sb);
           numRootEntry = (rootDirCluster * sb_bytesPerCluster sb) div 32
       in bindE (first_free m rootDir 0 (unat numRootEntry)) (\<lambda>next.
            Inr (sb\<lparr>sb_rootDir := rootDir, sb_numRootEntry := numRootEntry,
                   sb_nextRootEntry := of_nat next\<rparr>)))))))"

section \<open>Copying a file in\<close>

text \<open>
  An open host file: the size \<open>fstat\<close> reports or its \<open>errno\<close>; the answer of the \<open>lseek\<close>; the
  bytes that a \<open>read\<close> of a given length delivers, or its \<open>errno\<close>; and the \<open>errno\<close> that is left
  from earlier calls, which a short read reports.
\<close>

record host_file =
  hf_fstat :: "int + u64"
  hf_lseek :: "int + u64"
  hf_read :: "nat \<Rightarrow> int + u8 list"
  hf_errno :: int

definition EDQUOT :: int where "EDQUOT = 122"

definition FAT32Mkdir :: "string \<Rightarrow> u32 \<Rightarrow> mem \<Rightarrow> int \<times> mem" where
  "FAT32Mkdir name flag m = (1, m)"

text \<open>The byte loops \<open>for (; *name && ...; name++) *pt++ = *name\<close>.\<close>

fun copy_chars :: "nat \<Rightarrow> string \<Rightarrow> mem \<Rightarrow> mem res" where
  "copy_chars pt [] m = Inr m"
| "copy_chars pt (c # cs) m = bindE (wr pt [of_char c] m) (copy_chars (pt + 1) cs)"

definition not_dot :: "char \<Rightarrow> bool" where
  "not_dot c = (c \<noteq> CHR ''.'')"

definition write_name :: "nat \<Rightarrow> string \<Rightarrow> mem \<Rightarrow> mem res" where
  "write_name entry name m =
     bindE (copy_chars entry (takeWhile not_dot name) m) (\<lambda>m.
     copy_chars (entry + 8) (dropWhile not_dot name) m)"

text \<open>
  The directory entry: cleared, named, then the numeric fields. \<open>writeTime\<close> and \<open>writeDate\<close> are
  assigned through the load macro, with the roles of its arguments exchanged.
\<close>

definition write_dirent ::
  "endian \<Rightarrow> nat \<Rightarrow> string \<Rightarrow> u32 \<Rightarrow> u32 \<Rightarrow> u32 \<Rightarrow> mem \<Rightarrow> mem res" where
  "write_dirent h entry name attr nextFree fobjSize m =
     (let date = FAT32Date 1995 2 21; time = FAT32Time 8 30 25; L = FATDirEntry_layout in
      bindE (rd entry 1 m) (\<lambda>n0.
      bindE (assertE (n0 = [0])) (\<lambda>_.
      bindE (c_memset entry 0 (struct_size L) m) (\<lambda>m.
      bindE (write_name entry name m) (\<lambda>m.
      bindE (put_les h L entry
        [(''attr'', ucast attr), (''ntres'', 0), (''createTimeTenth'', 42),
         (''createTime'', ucast time), (''createDate'', ucast date), (''lastAccessDate'', ucast date),
         (''firstClusterHigh'', ucast (drop_bit 16 nextFree))] m) (\<lambda>m.
      bindE (put_bytes L entry ''writeTime'' (obj h 2 (load_le16 h (obj h 2 time))) m) (\<lambda>m.
      bindE (put_bytes L entry ''writeDate'' (obj h 2 (load_le16 h (obj h 2 date))) m) (\<lambda>m.
      put_les h L entry
        [(''firstClusterLow'', ucast (nextFree AND 0xFFFF)), (''fileSize'', ucast fobjSize)] m))))))))"

text \<open>The allocation tables: all but the last cluster point to their successor.\<close>

fun link_clusters :: "endian \<Rightarrow> FAT32Super \<Rightarrow> nat \<Rightarrow> u32 \<Rightarrow> mem \<Rightarrow> (u32 \<times> mem) res" where
  "link_clusters h sb 0 nextFree m =
     bindE (FAT32SuperWriteEntry h sb nextFree 0xFFFFFFFF m) (\<lambda>m. Inr (nextFree + 1, m))"
| "link_clusters h sb (Suc k) nextFree m =
     bindE (FAT32SuperWriteEntry h sb nextFree (1 + nextFree) m) (link_clusters h sb k (nextFree + 1))"

text \<open>Copying the data: the bytes of the file, and whether all of them arrived.\<close>

definition read_file :: "host_file \<Rightarrow> nat option \<Rightarrow> u32 \<Rightarrow> u32 \<Rightarrow> mem \<Rightarrow> ((int + unit) \<times> mem) res" where
  "read_file file addr clear fobjSize m =
     (case addr of
        None \<Rightarrow> Inl NullDeref
      | Some a \<Rightarrow>
          bindE (c_memset a 0 (unat clear) m) (\<lambda>m.
          case hf_lseek file of
            Inl e \<Rightarrow> Inr (Inl e, m)
          | Inr pos \<Rightarrow>
              if pos \<noteq> 0 then Inr (Inl (hf_errno file), m)
              else case hf_read file (unat fobjSize) of
                Inl e \<Rightarrow> Inr (Inl e, m)
              | Inr bs \<Rightarrow>
                  bindE (wr a (take (unat fobjSize) bs) m) (\<lambda>m.
                    Inr (if length (take (unat fobjSize) bs) = unat fobjSize then Inr ()
                         else Inl (hf_errno file), m))))"

text \<open>The label \<open>err\<close>: the sectors are synchronised and 0 is returned.\<close>

definition copyin_err :: "FAT32Super \<Rightarrow> int \<Rightarrow> mem \<Rightarrow> (u32 \<times> int \<times> mem) res" where
  "copyin_err sb e m = bindE (FAT32SuperFree sb m) (\<lambda>m. Inr (0, e, m))"

text \<open>The part of \<open>FAT32Copyin\<close> after the data arrived.\<close>

definition copyin_commit ::
  "endian \<Rightarrow> FAT32Super \<Rightarrow> nat \<Rightarrow> string \<Rightarrow> u32 \<Rightarrow> u32 \<Rightarrow> u32 \<Rightarrow> u32 \<Rightarrow> u32 \<Rightarrow> mem \<Rightarrow> mem res" where
  "copyin_commit h sb fi name attr fobjSize allocCluster nextFree freeCount m =
     bindE (deref (sb_rootDir sb)) (\<lambda>d.
     bindE (write_dirent h (d + 32 * unat (sb_nextRootEntry sb)) name attr nextFree fobjSize m) (\<lambda>m.
     bindE (link_clusters h sb (unat allocCluster - 1) nextFree m) (\<lambda>(nextFree, m).
     bindE (assertE (allocCluster \<le> freeCount)) (\<lambda>_.
     bindE (put_le h FSInfo_layout fi ''freeCount'' (ucast (freeCount - allocCluster)) m) (\<lambda>m.
     bindE (put_le h FSInfo_layout fi ''nextFree'' (ucast nextFree) m) (\<lambda>m.
     FAT32SuperFree sb m))))))"

text \<open>
  \<open>FAT32Copyin\<close>: the start sector (0 on error), the global \<open>FAT32Errno\<close> (\<open>e0\<close> before the call)
  and the image.
\<close>

definition FAT32Copyin ::
  "endian \<Rightarrow> host_file \<Rightarrow> string \<Rightarrow> u32 \<Rightarrow> int \<Rightarrow> mem \<Rightarrow> (u32 \<times> int \<times> mem) res" where
  "FAT32Copyin h file name attr e0 m =
     (case hf_fstat file of
        Inl e \<Rightarrow> Inr (0, e, m)
      | Inr st_size \<Rightarrow>
          let fobjSize = ucast st_size :: u32 in
          bindE (FAT32SuperInit h m) (\<lambda>sb.
          if sb_bytesPerSector sb = 0 then Inl DivideTrap else
          let sectorPerCluster = sb_bytesPerCluster sb div sb_bytesPerSector sb in
          bindE (deref (sb_fsInfo sb)) (\<lambda>fi.
          bindE (get32 h FSInfo_layout fi ''nextFree'' m) (\<lambda>nextFree.
          bindE (get32 h FSInfo_layout fi ''freeCount'' m) (\<lambda>freeCount.
          bindE (assertE (nextFree \<le> sb_maxCluster sb)) (\<lambda>_.
          if sb_bytesPerCluster sb * (sb_maxCluster sb - nextFree) < fobjSize
          then copyin_err sb EDQUOT m
          else if sb_bytesPerCluster sb = 0 then Inl DivideTrap
          else
          let allocCluster = CDIV fobjSize (sb_bytesPerCluster sb) in
          if sb_nextRootEntry sb = sb_numRootEntry sb then copyin_err sb EDQUOT m
          else
          bindE (assertE (2 < nextFree)) (\<lambda>_.
          let ret = (nextFree - 2) * sectorPerCluster + (sb_numReserved sb + sb_numFAT sb) in
          bindE (read_file file (FAT32SuperGetSector sb ret)
                   (allocCluster * sb_bytesPerCluster sb) fobjSize m) (\<lambda>(outcome, m).
          case outcome of
            Inl e \<Rightarrow> copyin_err sb e m
          | Inr _ \<Rightarrow>
              bindE (copyin_commit h sb fi name attr fobjSize allocCluster nextFree freeCount m)
                (\<lambda>m. Inr (ret, e0, m))))))))))"

end
