(* ===== verification/Fat_Store.thy ===== *)
theory Fat_Store
  imports Fat_Super
begin

text \<open>
  What a FAT32 volume stores, read back from the bytes by following the allocation table, and the
  proof that \<open>FAT32Copyin\<close> appends exactly one file to it. \<open>fs_inv\<close> is the invariant of the
  volumes that \<open>createFAT32\<close> and \<open>FAT32Copyin\<close> produce.
\<close>

unbundle bit_operations_syntax

section \<open>The volume as a list of files\<close>

definition maxc :: "FATConfig \<Rightarrow> nat" where
  "maxc c = (sectors c - 8 - 2 * fatsz c) div spc c"

definition roots :: "FATConfig \<Rightarrow> nat" where
  "roots c = bpc c div 32"

definition fat_entry :: "FATConfig \<Rightarrow> mem \<Rightarrow> nat \<Rightarrow> nat \<Rightarrow> u32" where
  "fat_entry c m t k = le_dec (peek m (table_at c t + 4 * k) 4)"

definition cluster_at :: "FATConfig \<Rightarrow> nat \<Rightarrow> nat" where
  "cluster_at c k = data_at c + (k - 2) * bpc c"

definition dirent_at :: "FATConfig \<Rightarrow> nat \<Rightarrow> nat" where
  "dirent_at c i = data_at c + 32 * i"

definition dirent_first :: "mem \<Rightarrow> nat \<Rightarrow> nat" where
  "dirent_first m p =
     unat (push_bit 16 (le_dec (peek m (p + 20) 2)) OR le_dec (peek m (p + 26) 2) :: u32)"

definition dirent_size :: "mem \<Rightarrow> nat \<Rightarrow> nat" where
  "dirent_size m p = unat (le_dec (peek m (p + 28) 4) :: u32)"

text \<open>The clusters of a file, by following the first table from its first cluster.\<close>

fun chain :: "nat \<Rightarrow> FATConfig \<Rightarrow> mem \<Rightarrow> nat \<Rightarrow> nat list option" where
  "chain 0 c m k = None"
| "chain (Suc n) c m k =
     (let e = fat_entry c m 0 k in
      if e = 0xFFFFFFFF then Some [k] else map_option (Cons k) (chain n c m (unat e)))"

definition file_data :: "FATConfig \<Rightarrow> mem \<Rightarrow> nat \<Rightarrow> u8 list option" where
  "file_data c m i =
     map_option (\<lambda>ks. take (dirent_size m (dirent_at c i)) (concat (map (\<lambda>k. peek m (cluster_at c k) (bpc c)) ks)))
       (chain (maxc c) c m (dirent_first m (dirent_at c i)))"

definition dir_list :: "FATConfig \<Rightarrow> mem \<Rightarrow> nat \<Rightarrow> (u8 list \<times> u8 \<times> u8 list option) list" where
  "dir_list c m d =
     map (\<lambda>i. (peek m (dirent_at c i) 11, mbyte m (dirent_at c i + 11), file_data c m i)) [0..<d]"

definition clusters_for :: "FATConfig \<Rightarrow> nat \<Rightarrow> nat" where
  "clusters_for c n = max 1 ((n + (bpc c - 1)) div bpc c)"

text \<open>A file is stored in consecutive clusters, linked in order and ended by the end mark.\<close>

definition linked :: "FATConfig \<Rightarrow> mem \<Rightarrow> nat \<Rightarrow> nat \<Rightarrow> bool" where
  "linked c m a n \<longleftrightarrow>
     (\<forall>j. j + 1 < n \<longrightarrow> fat_entry c m 0 (a + j) = of_nat (a + j + 1)) \<and>
     0 < n \<and> fat_entry c m 0 (a + n - 1) = 0xFFFFFFFF"

definition stored :: "FATConfig \<Rightarrow> mem \<Rightarrow> nat \<Rightarrow> nat \<Rightarrow> bool" where
  "stored c m nf i \<longleftrightarrow>
     (let p = dirent_at c i; a = dirent_first m p; n = clusters_for c (dirent_size m p) in
      mbyte m p \<noteq> 0 \<and> 3 \<le> a \<and> a + n \<le> nf \<and> linked c m a n)"

section \<open>The invariant\<close>

definition vol :: "FATConfig \<Rightarrow> bool" where
  "vol c \<longleftrightarrow> configIsValid c \<and> 2 < sectors c div spc c \<and> sectors c * bps c < 2 ^ 32 \<and> 3 \<le> maxc c"

definition bpb_says :: "FATConfig \<Rightarrow> mem \<Rightarrow> bool" where
  "bpb_says c m \<longleftrightarrow>
     peek m 11 2 = le_enc 2 (bytesPerSector c) \<and> peek m 13 1 = le_enc 1 (clusterSize c) \<and>
     peek m 14 2 = le_enc 2 (8 :: u64) \<and> peek m 16 1 = le_enc 1 (2 :: u64) \<and>
     peek m 32 4 = le_enc 4 (nSector c) \<and> peek m 36 4 = le_enc 4 (of_nat (fatsz c) :: u32) \<and>
     peek m 44 4 = le_enc 4 (2 :: u64)"

definition fs_inv :: "FATConfig \<Rightarrow> nat \<Rightarrow> nat \<Rightarrow> nat \<Rightarrow> mem \<Rightarrow> bool" where
  "fs_inv c d nf fc m \<longleftrightarrow>
     vol c \<and> sectors c * bps c \<le> msize m \<and> bpb_says c m \<and>
     peek m (bps c + 488) 4 = le_enc 4 (of_nat fc :: u32) \<and>
     peek m (bps c + 492) 4 = le_enc 4 (of_nat nf :: u32) \<and>
     3 \<le> nf \<and> nf \<le> maxc c \<and> maxc c - nf \<le> fc \<and> fc < 2 ^ 32 \<and>
     fat_entry c m 0 2 = 0xFFFFFFFF \<and>
     peek m (table_at c 1) (fatsz c * bps c) = peek m (table_at c 0) (fatsz c * bps c) \<and>
     d \<le> roots c \<and> (\<forall>i<d. stored c m nf i) \<and> (\<forall>i. d \<le> i \<and> i < roots c \<longrightarrow> mbyte m (dirent_at c i) = 0)"

section \<open>Geometry of a volume\<close>

lemma vol_bps: "vol c \<Longrightarrow> bps c \<in> {512, 1024, 2048, 4096}"
  and vol_spc: "vol c \<Longrightarrow> spc c \<in> {1, 2, 4, 8, 16, 32, 64, 128}"
  by (simp_all add: vol_def configIsValid_geometry)

lemma vol_bpc: "vol c \<Longrightarrow> 512 \<le> bpc c" "vol c \<Longrightarrow> bpc c = 32 * roots c" "vol c \<Longrightarrow> bpc c \<le> 2 ^ 19"
  "vol c \<Longrightarrow> 16 \<le> roots c"
  using vol_bps [of c] vol_spc [of c] by (auto simp: bpc_def roots_def)

lemma vol_sectors:
  assumes "vol c"
  shows "8 + 2 * fatsz c + spc c \<le> sectors c" "8 + 2 * fatsz c + spc c * maxc c \<le> sectors c"
    "sectors c < 2 ^ 23" "0 < fatsz c" "maxc c < 2 ^ 23"
proof -
  show fit: "8 + 2 * fatsz c + spc c \<le> sectors c"
    using assms geometry_fits by (simp add: vol_def)
  have "spc c * maxc c \<le> sectors c - 8 - 2 * fatsz c"
    by (simp add: maxc_def)
  then show fit': "8 + 2 * fatsz c + spc c * maxc c \<le> sectors c"
    using fit by linarith
  have "sectors c * 512 \<le> sectors c * bps c"
    using vol_bps [OF assms] by auto
  also have "\<dots> < 2 ^ 32"
    using assms by (simp add: vol_def)
  finally show n: "sectors c < 2 ^ 23"
    by simp
  show "0 < fatsz c"
    using assms fatsz_pos by (simp add: vol_def)
  have "maxc c \<le> spc c * maxc c"
    using vol_spc [OF assms] by auto
  then show "maxc c < 2 ^ 23"
    using fit' n by linarith
qed

lemma region_fits: "vol c \<Longrightarrow> k \<le> sectors c \<Longrightarrow> bps c * k < 2 ^ 32"
  using le_less_trans [of "bps c * k" "bps c * sectors c" "2 ^ 32"]
  by (simp only: vol_def mult.commute [of "bps c" "sectors c"] mult_le_mono2 simp_thms)
    (metis mult.commute mult_le_mono2)

lemma volume_end:
  assumes "vol c"
  shows "data_at c + maxc c * bpc c \<le> sectors c * bps c"
proof -
  have "bps c * (8 + 2 * fatsz c + spc c * maxc c) \<le> bps c * sectors c"
    using vol_sectors(2) [OF assms] by (rule mult_le_mono2)
  then show ?thesis
    by (simp add: data_at_def bpc_def algebra_simps)
qed

lemma cluster_run_end:
  assumes "vol c" "2 \<le> k" "k + n \<le> maxc c + 2"
  shows "cluster_at c k + n * bpc c \<le> sectors c * bps c"
proof -
  have "(k - 2 + n) * bpc c \<le> maxc c * bpc c"
    using assms by (intro mult_le_mono1) simp
  then show ?thesis
    using volume_end [OF assms(1)] by (simp add: cluster_at_def add_mult_distrib)
qed

lemma fat_has_entries: "vol c \<Longrightarrow> 4 * maxc c \<le> fatsz c * bps c"
proof -
  assume v: "vol c"
  have "maxc c \<le> sectors c div spc c"
    by (simp add: maxc_def div_le_mono)
  also have "\<dots> \<le> fatsz c * (bps c div 4)"
    using v fatsz_covers by (simp add: vol_def)
  finally have "4 * maxc c \<le> fatsz c * (bps c div 4 * 4)"
    by simp
  moreover have "bps c div 4 * 4 = bps c"
    using vol_bps [OF v] by auto
  ultimately show ?thesis by simp
qed

lemma regions_ordered:
  "table_at c 0 = bps c * 8" "table_at c 1 = bps c * 8 + fatsz c * bps c"
  "data_at c = bps c * 8 + 2 * (fatsz c * bps c)" "table_at c (Suc 0) = bps c * 8 + fatsz c * bps c"
  by (simp_all add: table_at_def data_at_def algebra_simps)

section \<open>Mounting\<close>

definition super :: "FATConfig \<Rightarrow> nat \<Rightarrow> FAT32Super" where
  "super c d =
     \<lparr>sb_fsInfo = Some (bps c), sb_bytesPerSector = of_nat (bps c), sb_bytesPerCluster = of_nat (bpc c),
      sb_bytesPerFAT = of_nat (fatsz c * bps c), sb_numSector = of_nat (sectors c), sb_numReserved = 8,
      sb_numFAT = of_nat (2 * fatsz c), sb_numData = of_nat (sectors c - 8 - 2 * fatsz c),
      sb_maxCluster = of_nat (maxc c), sb_rootCluster = 2, sb_numEntryTable = 2,
      sb_tables = [Some (table_at c 0), Some (table_at c 1), None, None],
      sb_rootDir = Some (data_at c), sb_nextRootEntry = of_nat d, sb_numRootEntry = of_nat (roots c)\<rparr>"

lemma config_words:
  "bytesPerSector c = of_nat (bps c)" "clusterSize c = of_nat (spc c)" "nSector c = of_nat (sectors c)"
  by (simp_all add: bps_def spc_def sectors_def)

lemma le_dec_enc_small:
  "unat w < 2 ^ (8 * n) \<Longrightarrow> le_dec (le_enc n w) = (w :: 'a::len word)"
  by (simp add: le_dec_enc_take word_unat_eq_iff unsigned_take_bit_eq take_bit_nat_eq_self)

lemma get32_ok:
  "field_size L f \<in> {1, 2, 4} \<Longrightarrow> p + offsetof L f + field_size L f \<le> msize m \<Longrightarrow>
   get32 h L p f m = Inr (le_dec (peek m (p + offsetof L f) (field_size L f)))"
  by (auto simp: get32_def ucast_le_dec)

lemma first_free_ok:
  assumes "\<forall>j<k. mbyte m (a + 32 * (i + j)) \<noteq> 0" "k = n \<or> mbyte m (a + 32 * (i + k)) = 0"
    "k \<le> n" "a + 32 * (i + n) \<le> msize m"
  shows "first_free m (Some a) i n = Inr (i + k)"
  using assms
proof (induction n arbitrary: i k)
  case 0
  then show ?case by simp
next
  case (Suc n)
  have rd: "rd (a + 32 * i) 1 m = Inr [mbyte m (a + 32 * i)]"
    using Suc.prems(4) by (simp add: peek_def)
  show ?case
  proof (cases k)
    case 0
    then show ?thesis using Suc.prems(2) rd by (simp add: deref_def)
  next
    case (Suc k')
    then have "mbyte m (a + 32 * i) \<noteq> 0"
      using Suc.prems(1) by (metis add.right_neutral zero_less_Suc)
    moreover have "mbyte m (a + 32 * (i + 1 + j)) \<noteq> 0" if "j < k'" for j
      using Suc.prems(1) [rule_format, of "Suc j"] that Suc by simp
    then have "first_free m (Some a) (i + 1) n = Inr (i + 1 + k')"
      using Suc Suc.prems by (intro Suc.IH) auto
    ultimately show ?thesis using rd Suc by (simp add: deref_def)
  qed
qed

lemma fs_inv_word_facts:
  assumes "vol c"
  shows "unat (of_nat (bps c) :: u32) = bps c" "unat (of_nat (bpc c) :: u32) = bpc c"
    "unat (of_nat (sectors c) :: u32) = sectors c" "unat (of_nat (maxc c) :: u32) = maxc c"
    "unat (of_nat (2 * fatsz c) :: u32) = 2 * fatsz c" "unat (of_nat (roots c) :: u32) = roots c"
    "unat (of_nat (fatsz c) :: u32) = fatsz c" "unat (of_nat (spc c) :: u32) = spc c"
proof -
  have "bps c < 2 ^ 32" "spc c < 2 ^ 32" "bpc c < 2 ^ 32" "roots c < 2 ^ 32"
    using vol_bps [OF assms] vol_spc [OF assms] vol_bpc [OF assms] by auto
  moreover have "sectors c < 2 ^ 32" "maxc c < 2 ^ 32" "fatsz c < 2 ^ 32" "2 * fatsz c < 2 ^ 32"
    using vol_sectors [OF assms] by simp_all
  ultimately show "unat (of_nat (bps c) :: u32) = bps c" "unat (of_nat (bpc c) :: u32) = bpc c"
    "unat (of_nat (sectors c) :: u32) = sectors c" "unat (of_nat (maxc c) :: u32) = maxc c"
    "unat (of_nat (2 * fatsz c) :: u32) = 2 * fatsz c" "unat (of_nat (roots c) :: u32) = roots c"
    "unat (of_nat (fatsz c) :: u32) = fatsz c" "unat (of_nat (spc c) :: u32) = spc c"
    using unat_of_nat_ok [where 'a = 32] by (simp_all del: of_nat_mult)
qed

lemma super_geometry_ok:
  assumes "fs_inv c d nf fc m"
  shows "super_geometry h m = Inr ((super c d)\<lparr>sb_tables := [Some (table_at c 0), None, None, None],
    sb_rootDir := None, sb_nextRootEntry := 0, sb_numRootEntry := 0\<rparr>)"
proof -
  have v: "vol c" and sz: "512 \<le> msize m" and b: "bpb_says c m"
    using assms vol_bps [of c] vol_sectors [of c] mult_le_mono [of 1 "sectors c" 512 "bps c"]
    by (auto simp: fs_inv_def)
  note w = fs_inv_word_facts [OF v] and n = vol_sectors [OF v]
  have e2: "(le_dec (le_enc 2 (8 :: u64)) :: u32) = 8" "(le_dec (le_enc 1 (2 :: u64)) :: u32) = 2"
    "(le_dec (le_enc 4 (2 :: u64)) :: u32) = 2"
    by code_simp+
  have dec: "(le_dec (le_enc 2 (bytesPerSector c)) :: u32) = of_nat (bps c)"
    "(le_dec (le_enc 1 (clusterSize c)) :: u32) = of_nat (spc c)"
    using vol_bps [OF v] vol_spc [OF v] w by (auto simp: config_words le_dec_enc_small)
  have data: "(of_nat (sectors c) - 8 - of_nat (fatsz c) * 2 :: u32) = of_nat (sectors c - 8 - 2 * fatsz c)"
    using n(1) by (simp add: of_nat_diff algebra_simps)
  have maxw: "(of_nat (sectors c - 8 - 2 * fatsz c) div of_nat (spc c) :: u32) = of_nat (maxc c)"
  proof (rule word_of_nat_unat_eq)
    have "sectors c - 8 - 2 * fatsz c < 2 ^ 32"
      using n(3) by simp
    then show "unat (of_nat (sectors c - 8 - 2 * fatsz c) div of_nat (spc c) :: u32) = maxc c"
      by (simp add: unat_div unat_of_nat_ok w maxc_def)
  qed
  note maxw' = maxw [unfolded diff_diff_left mult.commute [of 2 "fatsz c"]]
  have t0: "unat (of_nat (bps c) * 8 :: u32) = table_at c 0"
    using region_fits [OF v, of 8] n(1) w by (subst unat_mult_ok) (simp_all add: table_at_def)
  have spc0: "(of_nat (spc c) :: u32) \<noteq> 0"
    using vol_spc [OF v] w(8) by (metis insert_iff numeral_eq_Suc old.nat.distinct(1) singleton_iff unat_0 zero_neq_one)
  have "\<not> (of_nat (sectors c) :: u32) \<le> 1"
    using n(1) w by (simp add: word_le_nat_alt)
  then show ?thesis
    using sz b e2 dec spc0
    by (simp add: super_geometry_def get32_ok bpb_says_def Let_def super_def config_words(3) w data maxw' t0
        bpc_def mult.commute)
qed

lemma GetSector_ok:
  assumes "vol c" "k < sectors c"
  shows "FAT32SuperGetSector (super c d) (of_nat k) = Some (bps c * k)"
proof -
  note w = fs_inv_word_facts [OF assms(1)]
  have "unat (of_nat k :: u32) = k"
    using assms(2) vol_sectors(3) [OF assms(1)] by (intro unat_of_nat_ok) simp
  then show ?thesis
    using assms(2) region_fits [OF assms(1), of k] w
    by (simp add: FAT32SuperGetSector_def super_def word_le_nat_alt unat_mult_ok mult.commute)
qed

lemma SuperInit_ok:
  assumes "fs_inv c d nf fc m"
  shows "FAT32SuperInit h m = Inr (super c d)"
proof -
  have v: "vol c" and sz: "sectors c * bps c \<le> msize m"
    and root: "fat_entry c m 0 2 = 0xFFFFFFFF"
    and d: "d \<le> roots c" "\<forall>i<d. mbyte m (dirent_at c i) \<noteq> 0"
    "d = roots c \<or> mbyte m (dirent_at c d) = 0"
    using assms by (auto simp: fs_inv_def stored_def Let_def)
  note w = fs_inv_word_facts [OF v] and n = vol_sectors [OF v]
  define sb where "sb = (super c d)\<lparr>sb_tables := [Some (table_at c 0), Some (table_at c 1), None, None],
    sb_rootDir := None, sb_nextRootEntry := 0, sb_numRootEntry := 0\<rparr>"
  have "fatsz c * bps c div 4 * 4 = fatsz c * bps c"
    using vol_bps [OF v] by auto
  moreover have "fatsz c * bps c < 2 ^ 32"
    using region_fits [OF v, of "fatsz c"] n(1) by (simp add: mult.commute)
  ultimately have fat: "4 * (unat (of_nat (fatsz c * bps c) div 4 :: u32)) = fatsz c * bps c"
    by (simp add: unat_div unat_of_nat_ok mult.commute del: of_nat_mult)
  have tabs: "super_tables ((super c d)\<lparr>sb_tables := [Some (table_at c 0), None, None, None],
      sb_rootDir := None, sb_nextRootEntry := 0, sb_numRootEntry := 0\<rparr>) = Inr sb"
    using fat by (simp add: super_tables_def super_def upt_rec table_ptr_def deref_def sb_def regions_ordered
        del: of_nat_mult)
  have e: "table_at c 0 + 4 * 2 + 4 \<le> msize m"
    using sz volume_end [OF v] fat_has_entries [OF v] v by (simp add: regions_ordered vol_def)
  have chain: "root_chain (2 ^ 32) h (table_at c 0) m 0xFFFFFFFF 1 = Inr 1"
    by (simp add: root_chain.simps)
  have dir: "FAT32SuperGetSector sb (8 + of_nat (2 * fatsz c)) = Some (data_at c)"
    using GetSector_ok [OF v, of "8 + 2 * fatsz c" d] n(1) vol_spc [OF v]
    by (auto simp: FAT32SuperGetSector_def sb_def data_at_def)
  have nr: "unat (of_nat (bpc c) div 32 :: u32) = roots c"
    by (simp add: unat_div w roots_def)
  have free: "first_free m (Some (data_at c)) 0 (roots c) = Inr d"
  proof -
    have "data_at c + 32 * roots c \<le> data_at c + maxc c * bpc c"
      using vol_bpc(2) [OF v] v by (simp add: vol_def)
    then show ?thesis
      using first_free_ok [of d m "data_at c" 0 "roots c"] d sz volume_end [OF v]
      by (auto simp: dirent_at_def)
  qed
  have sb: "sb_tables sb ! 0 = Some (table_at c 0)" "sb_rootCluster sb = 2" "sb_numReserved sb = 8"
    "sb_numFAT sb = of_nat (2 * fatsz c)" "sb_bytesPerCluster sb = of_nat (bpc c)"
    "sb\<lparr>sb_rootDir := Some (data_at c), sb_numRootEntry := of_nat (roots c),
       sb_nextRootEntry := of_nat d\<rparr> = super c d"
    by (simp_all add: sb_def super_def)
  show ?thesis
    unfolding FAT32SuperInit_def super_geometry_ok [OF assms] bindE_Inr tabs
    using e root chain dir nr free word_of_nat_unat_eq [OF nr] sb
    by (simp add: Let_def deref_def fat_entry_def del: of_nat_mult)
qed

section \<open>The steps of a copy\<close>

lemma SuperFree_ok:
  assumes "vol c" "sectors c * bps c \<le> msize m"
  shows "\<exists>m'. FAT32SuperFree (super c d) m = Inr m' \<and> msize m' = msize m \<and>
    (\<forall>i. i < bps c * 6 \<or> bps c * 8 \<le> i \<longrightarrow> mbyte m' i = mbyte m i) \<and>
    peek m' (bps c * 6) (bps c) = peek m' 0 (bps c) \<and>
    peek m' (bps c * 7) (bps c) = peek m' (bps c) (bps c)"
proof -
  have n: "8 < sectors c"
    using vol_sectors [OF assms(1)] by simp
  then have "bps c * 8 \<le> sectors c * bps c"
    by (subst mult.commute) (intro mult_le_mono1, simp)
  then have sz: "bps c * 8 \<le> msize m"
    using assms(2) by linarith
  have b: "512 \<le> bps c"
    using vol_bps [OF assms(1)] by auto
  define m1 where "m1 = poke m (bps c * 6) (peek m 0 (bps c))"
  define m2 where "m2 = poke m1 (bps c * 7) (peek m1 (bps c) (bps c))"
  have s: "FAT32SuperGetSector (super c d) 6 = Some (bps c * 6)" "FAT32SuperGetSector (super c d) 7 = Some (bps c * 7)"
    "FAT32SuperGetSector (super c d) 1 = Some (bps c)" "unat (sb_bytesPerSector (super c d)) = bps c"
    using GetSector_ok [OF assms(1), of 6 d] GetSector_ok [OF assms(1), of 7 d]
      GetSector_ok [OF assms(1), of 1 d] n fs_inv_word_facts [OF assms(1)] by (simp_all add: super_def)
  have "FAT32SuperFree (super c d) m = Inr m2"
    using sz by (simp add: FAT32SuperFree_def s deref_def m1_def m2_def)
  moreover have "mbyte m2 i = mbyte m i" if "i < bps c * 6 \<or> bps c * 8 \<le> i" for i
    using that by (elim disjE) (simp_all add: m1_def m2_def)
  moreover have "peek m2 (bps c * 6) (bps c) = peek m2 0 (bps c)" "peek m2 (bps c * 7) (bps c) = peek m2 (bps c) (bps c)"
    by (simp_all add: m1_def m2_def)
  ultimately show ?thesis
    by (simp add: m1_def m2_def)
qed

lemma entry_in_image:
  assumes "vol c" "sectors c * bps c \<le> msize m" "k < maxc c"
  shows "table_at c 0 + 4 * k + 4 \<le> table_at c 1" "table_at c 1 + 4 * k + 4 \<le> data_at c"
    "data_at c \<le> msize m"
  using fat_has_entries [OF assms(1)] volume_end [OF assms(1)] assms
  by (simp_all add: regions_ordered algebra_simps)

lemma WriteEntry_ok:
  assumes "vol c" "sectors c * bps c \<le> msize m" "1 \<le> k" "k < maxc c"
  shows "FAT32SuperWriteEntry h (super c d) (of_nat k) v m =
    Inr (poke (poke m (table_at c 0 + 4 * k) (le_enc 4 v)) (table_at c 1 + 4 * k) (le_enc 4 v))"
proof -
  have k: "unat (of_nat k :: u32) = k"
    using assms(4) vol_sectors(5) [OF assms(1)] by (intro unat_of_nat_ok) simp
  have le: "(of_nat k :: u32) < of_nat (maxc c)" "1 \<le> (of_nat k :: u32)"
    using k assms(3,4) fs_inv_word_facts [OF assms(1)] by (simp_all add: word_less_nat_alt word_le_nat_alt)
  note e = entry_in_image [OF assms(1,2,4)]
  have "[0..<2] = [0, 1 :: nat]"
    by (simp add: upt_rec)
  then show ?thesis
    using le e k by (simp add: FAT32SuperWriteEntry_def super_def table_ptr_def deref_def)
qed

lemma linked_Suc:
  "fat_entry c m 0 a = of_nat (a + 1) \<Longrightarrow> linked c m (a + 1) (Suc k) \<Longrightarrow> linked c m a (Suc (Suc k))"
  by (auto simp: linked_def nat.split_sels less_Suc_eq_0_disj)

lemma link_clusters_ok:
  assumes "vol c" "sectors c * bps c \<le> msize m" "1 \<le> nf" "nf + Suc k \<le> maxc c"
  shows "\<exists>m'. link_clusters h (super c d) k (of_nat nf) m = Inr (of_nat (nf + Suc k), m') \<and>
    msize m' = msize m \<and> linked c m' nf (Suc k) \<and>
    (\<forall>i. (\<forall>t<2. \<not> (table_at c t + 4 * nf \<le> i \<and> i < table_at c t + 4 * (nf + Suc k))) \<longrightarrow> mbyte m' i = mbyte m i) \<and>
    (\<forall>q. 4 * nf \<le> q \<and> q < 4 * (nf + Suc k) \<longrightarrow> mbyte m' (table_at c 1 + q) = mbyte m' (table_at c 0 + q))"
  using assms
proof (induction k arbitrary: nf m)
  case 0
  define m' where "m' = poke (poke m (table_at c 0 + 4 * nf) (le_enc 4 (0xFFFFFFFF :: u32)))
    (table_at c 1 + 4 * nf) (le_enc 4 (0xFFFFFFFF :: u32))"
  note e = entry_in_image [OF 0(1,2), of nf]
  have "linked c m' nf (Suc 0)"
    using e 0 by (simp add: linked_def fat_entry_def m'_def)
  moreover have "mbyte m' i = mbyte m i"
    if "\<forall>t<2. \<not> (table_at c t + 4 * nf \<le> i \<and> i < table_at c t + 4 * (nf + Suc 0))" for i
    using that [rule_format, of 0] that [rule_format, of 1] by (auto simp: m'_def mbyte_poke not_less)
  moreover have "mbyte m' (table_at c 1 + q) = mbyte m' (table_at c 0 + q)" if "4 * nf \<le> q" "q < 4 * (nf + Suc 0)" for q
    using that e 0 by (simp add: m'_def mbyte_poke)
  ultimately show ?case
    using WriteEntry_ok [OF 0(1,2,3), of h d "0xFFFFFFFF"] 0(4) by (auto simp: m'_def)
next
  case (Suc k)
  let ?v = "1 + of_nat nf :: u32"
  define m1 where "m1 = poke (poke m (table_at c 0 + 4 * nf) (le_enc 4 ?v)) (table_at c 1 + 4 * nf) (le_enc 4 ?v)"
  note e = entry_in_image [OF Suc.prems(1,2), of nf]
  have run: "link_clusters h (super c d) (Suc k) (of_nat nf) m = link_clusters h (super c d) k (of_nat (nf + 1)) m1"
    using WriteEntry_ok [OF Suc.prems(1-3), of h d ?v] Suc.prems(4)
    by (simp add: m1_def add.commute [of "of_nat nf" 1])
  obtain m' where m': "link_clusters h (super c d) k (of_nat (nf + 1)) m1 = Inr (of_nat (nf + 1 + Suc k), m')"
    "msize m' = msize m1" "linked c m' (nf + 1) (Suc k)"
    "\<And>i. (\<forall>t<2. \<not> (table_at c t + 4 * (nf + 1) \<le> i \<and> i < table_at c t + 4 * (nf + 1 + Suc k))) \<Longrightarrow> mbyte m' i = mbyte m1 i"
    "\<And>q. 4 * (nf + 1) \<le> q \<and> q < 4 * (nf + 1 + Suc k) \<Longrightarrow> mbyte m' (table_at c 1 + q) = mbyte m' (table_at c 0 + q)"
    using Suc.IH [of m1 "nf + 1"] Suc.prems by (auto simp: m1_def)
  have gap: "4 * (nf + 1 + Suc k) \<le> fatsz c * bps c"
    using fat_has_entries [OF Suc.prems(1)] Suc.prems(4) by simp
  have keep: "mbyte m' (table_at c t + 4 * nf + j) = mbyte m1 (table_at c t + 4 * nf + j)" if "t < 2" "j < 4" for t j
    using that gap by (intro m'(4)) (auto simp: less_2_cases_iff regions_ordered)
  have m1t: "mbyte m1 (table_at c t + 4 * nf + j) = le_enc 4 ?v ! j" if "t < 2" "j < 4" for t j
    using that gap by (auto simp: less_2_cases_iff regions_ordered m1_def mbyte_poke)
  have "peek m' (table_at c 0 + 4 * nf) 4 = le_enc 4 ?v"
    using keep [of 0] m1t [of 0] by (intro nth_equalityI) simp_all
  then have "linked c m' nf (Suc (Suc k))"
    using m'(3) by (intro linked_Suc) (simp_all add: fat_entry_def)
  moreover have "mbyte m' i = mbyte m i"
    if "\<forall>t<2. \<not> (table_at c t + 4 * nf \<le> i \<and> i < table_at c t + 4 * (nf + Suc (Suc k)))" for i
  proof -
    have "mbyte m' i = mbyte m1 i"
      using that by (intro m'(4)) (auto simp: not_less)
    also have "\<dots> = mbyte m i"
      using that [rule_format, of 0] that [rule_format, of 1] by (auto simp: m1_def mbyte_poke)
    finally show ?thesis .
  qed
  moreover have "mbyte m' (table_at c 1 + q) = mbyte m' (table_at c 0 + q)"
    if "4 * nf \<le> q" "q < 4 * (nf + Suc (Suc k))" for q
  proof (cases "q < 4 * (nf + 1)")
    case True
    then show ?thesis
      using that keep [of 0 "q - 4 * nf"] keep [of 1 "q - 4 * nf"] m1t [of 0 "q - 4 * nf"] m1t [of 1 "q - 4 * nf"]
      by simp
  next
    case False
    then show ?thesis using m'(5) [of q] that by simp
  qed
  ultimately show ?case
    using run m'(1,2) by (simp add: m1_def)
qed

lemma FATDirEntry_offsets [simp]:
  "struct_size FATDirEntry_layout = 32" "offsetof FATDirEntry_layout ''attr'' = 11"
  "offsetof FATDirEntry_layout ''ntres'' = 12" "offsetof FATDirEntry_layout ''createTimeTenth'' = 13"
  "offsetof FATDirEntry_layout ''createTime'' = 14" "offsetof FATDirEntry_layout ''createDate'' = 16"
  "offsetof FATDirEntry_layout ''lastAccessDate'' = 18"
  "offsetof FATDirEntry_layout ''firstClusterHigh'' = 20" "offsetof FATDirEntry_layout ''writeTime'' = 22"
  "offsetof FATDirEntry_layout ''writeDate'' = 24" "offsetof FATDirEntry_layout ''firstClusterLow'' = 26"
  "offsetof FATDirEntry_layout ''fileSize'' = 28"
  by (simp_all add: FATDirEntry_layout_def struct_size_def)

lemma FATDirEntry_sizes [simp]:
  "field_size FATDirEntry_layout ''attr'' = 1" "field_size FATDirEntry_layout ''ntres'' = 1"
  "field_size FATDirEntry_layout ''createTimeTenth'' = 1" "field_size FATDirEntry_layout ''createTime'' = 2"
  "field_size FATDirEntry_layout ''createDate'' = 2" "field_size FATDirEntry_layout ''lastAccessDate'' = 2"
  "field_size FATDirEntry_layout ''firstClusterHigh'' = 2" "field_size FATDirEntry_layout ''writeTime'' = 2"
  "field_size FATDirEntry_layout ''writeDate'' = 2" "field_size FATDirEntry_layout ''firstClusterLow'' = 2"
  "field_size FATDirEntry_layout ''fileSize'' = 4"
  by (simp_all add: FATDirEntry_layout_def)

text \<open>
  The name field that results from a host name: the part before the first dot in the first eight
  bytes, the rest, dot included, in the last three, unused bytes zero.
\<close>

definition dir_name :: "string \<Rightarrow> u8 list" where
  "dir_name name =
     (let p = map of_char (takeWhile not_dot name); q = map of_char (dropWhile not_dot name)
      in p @ replicate (8 - length p) 0 @ take 3 (q @ replicate 3 0))"

definition name_fits :: "string \<Rightarrow> bool" where
  "name_fits name \<longleftrightarrow>
     takeWhile not_dot name \<noteq> [] \<and> length (takeWhile not_dot name) \<le> 8 \<and>
     length (dropWhile not_dot name) \<le> 24 \<and> CHR 0x00 \<notin> set name"

definition dirent_fields :: "string \<Rightarrow> u32 \<Rightarrow> u32 \<Rightarrow> u32 \<Rightarrow> u8 list list" where
  "dirent_fields name attr first fsize =
     [dir_name name, le_enc 1 attr, le_enc 1 (0 :: u64), le_enc 1 (42 :: u64),
      le_enc 2 (FAT32Time 8 30 25), le_enc 2 (FAT32Date 1995 2 21), le_enc 2 (FAT32Date 1995 2 21),
      le_enc 2 (drop_bit 16 first), le_enc 2 (FAT32Time 8 30 25), le_enc 2 (FAT32Date 1995 2 21),
      le_enc 2 (first AND 0xFFFF), le_enc 4 fsize]"

lemma length_dir_name: "length (takeWhile not_dot name) \<le> 8 \<Longrightarrow> length (dir_name name) = 11"
  by (simp add: dir_name_def Let_def)

lemma length_dirent: "length (takeWhile not_dot name) \<le> 8 \<Longrightarrow> length (concat (dirent_fields name a f s)) = 32"
  by (simp add: dirent_fields_def length_dir_name)

lemma copy_chars_ok:
  "pt + length cs \<le> msize m \<Longrightarrow> copy_chars pt cs m = Inr (poke m pt (map of_char cs))"
proof (induction cs arbitrary: pt m)
  case Nil
  then show ?case by simp
next
  case (Cons c cs)
  then show ?case
    using poke_append [of m pt "[of_char c]" "map of_char cs"] by simp
qed

lemma native_le16: "obj h 2 (load_le16 h (obj h 2 (t :: u16))) = le_enc 2 t"
  by (cases h) (simp_all add: load_le16_eq obj_def rev_le_enc_dec_rev)

lemma le_enc_2_ucast16 [simp]: "le_enc 2 (ucast (w :: u16) :: u64) = le_enc 2 w"
  by (rule le_enc_ucast) simp_all

lemma write_dirent_ok:
  assumes "mbyte m p = 0" "p + 32 \<le> msize m" "name_fits name"
  shows "\<exists>m'. write_dirent h p name attr nf fsize m = Inr m' \<and> msize m' = msize m \<and>
    peek m' p 32 = concat (dirent_fields name attr nf fsize) \<and>
    (\<forall>i. i < p \<or> p + 32 \<le> i \<longrightarrow> mbyte m' i = mbyte m i)"
proof -
  let ?P = "map of_char (takeWhile not_dot name) :: u8 list" and ?S = "map of_char (dropWhile not_dot name) :: u8 list"
  have len: "length ?P \<le> 8" "length ?S \<le> 24"
    using assms(3) by (simp_all add: name_fits_def)
  define T D where "T = FAT32Time 8 30 25" and "D = FAT32Date 1995 2 21"
  define m1 where "m1 = poke (poke (poke m p (replicate 32 0)) p ?P) (p + 8) ?S"
  define m2 where "m2 = poke (poke (poke (poke (poke m1
    (p + 11) (le_enc 1 attr)) (p + 12) (le_enc 1 (0 :: u64))) (p + 13) (le_enc 1 (42 :: u64)))
    (p + 14) (le_enc 2 T)) (p + 16) (le_enc 2 D)"
  define m3 where "m3 = poke (poke (poke (poke (poke (poke m2
    (p + 18) (le_enc 2 D)) (p + 20) (le_enc 2 (drop_bit 16 nf))) (p + 22) (le_enc 2 T)) (p + 24) (le_enc 2 D))
    (p + 26) (le_enc 2 (nf AND 0xFFFF))) (p + 28) (le_enc 4 fsize)"
  have run: "write_dirent h p name attr nf fsize m = Inr m3"
    using assms len
    by (simp add: write_dirent_def Let_def T_def [symmetric] D_def [symmetric] write_name_def copy_chars_ok
        native_le16 m1_def m2_def m3_def peek_def del: le_enc.simps)
  have name: "peek m1 p 11 = dir_name name"
  proof (rule nth_equalityI)
    show "length (peek m1 p 11) = length (dir_name name)"
      using len by (simp add: length_dir_name)
    fix i
    assume "i < length (peek m1 p 11)"
    then show "peek m1 p 11 ! i = dir_name name ! i"
      using len by (auto simp: m1_def mbyte_poke dir_name_def Let_def nth_append)
  qed
  have "peek m3 p 11 = dir_name name"
    by (simp add: m3_def m2_def name)
  then have "pieces_at m3 p (dirent_fields name attr nf fsize)"
    using len
    by (simp add: dirent_fields_def length_dir_name m3_def m2_def T_def [symmetric] D_def [symmetric]
        add.commute [of _ p] del: le_enc.simps)
  then have "peek m3 p 32 = concat (dirent_fields name attr nf fsize)"
    using len by (subst peek_concat) (simp_all add: length_dirent)
  moreover have "mbyte m3 i = mbyte m i" if "i < p \<or> p + 32 \<le> i" for i
    using that len by (elim disjE) (simp_all add: m3_def m2_def m1_def)
  moreover have "msize m3 = msize m"
    by (simp add: m3_def m2_def m1_def)
  ultimately show ?thesis
    using run by blast
qed

section \<open>Reading files back\<close>

lemma chain_linked:
  "linked c m a n \<Longrightarrow> a + n < 2 ^ 31 \<Longrightarrow> n \<le> fuel \<Longrightarrow> chain fuel c m a = Some [a..<a + n]"
proof (induction fuel arbitrary: a n)
  case 0
  then show ?case by (simp add: linked_def)
next
  case (Suc fuel)
  show ?case
  proof (cases "n = 1")
    case True
    then show ?thesis
      using Suc.prems(1) by (simp add: linked_def)
  next
    case False
    then have n: "1 < n"
      using Suc.prems(1) by (simp add: linked_def)
    then have e: "fat_entry c m 0 a = of_nat (a + 1)"
      using Suc.prems(1) unfolding linked_def by (metis add.right_neutral add_0)
    have u: "unat (of_nat (a + 1) :: u32) = a + 1"
      using Suc.prems(2) n by (intro unat_of_nat_ok) simp
    then have ne: "(of_nat (a + 1) :: u32) \<noteq> 0xFFFFFFFF"
    proof -
      have "unat (of_nat (a + 1) :: u32) \<noteq> unat (0xFFFFFFFF :: u32)"
        using Suc.prems(2) n unfolding u by simp
      then show ?thesis by metis
    qed
    have "linked c m (a + 1) (n - 1)"
    proof -
      have "fat_entry c m 0 (a + 1 + j) = of_nat (a + 1 + j + 1)" if "j + 1 < n - 1" for j
        using Suc.prems(1) that unfolding linked_def by (auto dest: spec [of _ "Suc j"] simp del: of_nat_add of_nat_Suc)
      then show ?thesis
        using Suc.prems(1) n by (simp add: linked_def)
    qed
    then have "chain fuel c m (a + 1) = Some [a + 1..<a + n]"
      using Suc.IH [of "a + 1" "n - 1"] Suc.prems n by simp
    then show ?thesis
      using e u ne n by (simp add: Let_def upt_rec [of a] del: of_nat_add of_nat_Suc)
  qed
qed

lemma cluster_at_add: "2 \<le> a \<Longrightarrow> cluster_at c (a + n) = cluster_at c a + n * bpc c"
  by (simp add: cluster_at_def flip: add_mult_distrib)

lemma cluster_at_mono: "a \<le> b \<Longrightarrow> cluster_at c a \<le> cluster_at c b"
  by (simp add: cluster_at_def diff_le_mono)

lemma clusters_contiguous:
  "2 \<le> a \<Longrightarrow> concat (map (\<lambda>k. peek m (cluster_at c k) (bpc c)) [a..<a + n]) = peek m (cluster_at c a) (n * bpc c)"
proof (induction n)
  case 0
  then show ?case by (simp add: peek_def)
next
  case (Suc n)
  show ?case
    using Suc by (simp add: cluster_at_add peek_append [of m _ "n * bpc c" "bpc c"] add.commute [of "bpc c"])
qed

lemma clusters_for_covers: "0 < bpc c \<Longrightarrow> n \<le> clusters_for c n * bpc c"
proof -
  assume b: "0 < bpc c"
  have "n \<le> (n + (bpc c - 1)) div bpc c * bpc c"
    using div_mult_mod_eq [of "n + (bpc c - 1)" "bpc c"] mod_less_divisor [OF b, of "n + (bpc c - 1)"]
    by linarith
  also have "\<dots> \<le> clusters_for c n * bpc c"
    by (simp add: clusters_for_def)
  finally show ?thesis .
qed

lemma file_data_stored:
  assumes "vol c" "stored c m nf i" "nf \<le> maxc c"
  shows "file_data c m i =
    Some (peek m (cluster_at c (dirent_first m (dirent_at c i))) (dirent_size m (dirent_at c i)))"
proof -
  define a n k where "a = dirent_first m (dirent_at c i)" and "n = dirent_size m (dirent_at c i)"
    and "k = clusters_for c n"
  have a: "3 \<le> a" "a + k \<le> nf" "linked c m a k"
    using assms(2) by (simp_all add: stored_def Let_def a_def n_def k_def)
  have "chain (maxc c) c m a = Some [a..<a + k]"
    using a assms(3) vol_sectors(5) [OF assms(1)] by (intro chain_linked) simp_all
  moreover have "n \<le> k * bpc c"
    using clusters_for_covers [of c n] vol_bpc(1) [OF assms(1)] by (simp add: k_def)
  ultimately show ?thesis
    using a(1) by (simp add: file_data_def a_def [symmetric] n_def [symmetric] clusters_contiguous take_peek)
qed

lemma peek_sub:
  "peek m p n = peek m' p n \<Longrightarrow> off + k \<le> n \<Longrightarrow> peek m (p + off) k = peek m' (p + off) k"
  unfolding peek_eq_iff by (auto simp: add.assoc)

lemma stored_cong:
  assumes "vol c" "stored c m nf i" "nf \<le> nf'" "nf \<le> maxc c"
    and "peek m' (dirent_at c i) 32 = peek m (dirent_at c i) 32"
    and "\<And>q. 4 * 3 \<le> q \<Longrightarrow> q < 4 * nf \<Longrightarrow> mbyte m' (table_at c 0 + q) = mbyte m (table_at c 0 + q)"
    and "\<And>q. cluster_at c 3 \<le> q \<Longrightarrow> q < cluster_at c nf \<Longrightarrow> mbyte m' q = mbyte m q"
    and "nf' \<le> maxc c"
  shows "stored c m' nf' i" "file_data c m' i = file_data c m i"
proof -
  let ?p = "dirent_at c i"
  define a n k where "a = dirent_first m ?p" and "n = dirent_size m ?p" and "k = clusters_for c n"
  have a: "3 \<le> a" "a + k \<le> nf" "linked c m a k" "mbyte m ?p \<noteq> 0"
    using assms(2) by (simp_all add: stored_def Let_def a_def n_def k_def)
  have d: "dirent_first m' ?p = a" "dirent_size m' ?p = n"
    using peek_sub [OF assms(5), of 20 2] peek_sub [OF assms(5), of 26 2] peek_sub [OF assms(5), of 28 4]
    by (simp_all add: a_def n_def dirent_first_def dirent_size_def)
  have "mbyte m' ?p = mbyte m ?p"
    using assms(5) unfolding peek_eq_iff by (metis add.right_neutral zero_less_numeral)
  moreover have e: "fat_entry c m' 0 (a + j) = fat_entry c m 0 (a + j)" if "j < k" for j
  proof -
    have "mbyte m' x = mbyte m x" if "table_at c 0 + 4 * (a + j) \<le> x" "x < table_at c 0 + 4 * (a + j) + 4" for x
      using assms(6) [of "x - table_at c 0"] that a \<open>j < k\<close> by simp
    then show ?thesis
      unfolding fat_entry_def by (intro arg_cong [of _ _ le_dec] peek_cong)
  qed
  have "linked c m' a k"
    using a(3) e [of "k - 1"] e by (auto simp: linked_def)
  ultimately show s: "stored c m' nf' i"
    using a d assms(3) by (simp add: stored_def Let_def k_def)
  have "n \<le> k * bpc c"
    using clusters_for_covers [of c n] vol_bpc(1) [OF assms(1)] by (simp add: k_def)
  then have "cluster_at c a + n \<le> cluster_at c nf" "cluster_at c 3 \<le> cluster_at c a"
    using cluster_at_add [of a c k] cluster_at_mono [OF a(2), of c] cluster_at_mono [OF a(1), of c] a(1)
    by simp_all
  then have "peek m' (cluster_at c a) n = peek m (cluster_at c a) n"
    by (intro peek_cong assms(7)) simp_all
  then show "file_data c m' i = file_data c m i"
    using file_data_stored [OF assms(1) s assms(8)] file_data_stored [OF assms(1,2,4)] d
    by (simp add: a_def n_def)
qed

lemma dir_list_cong:
  assumes "\<And>i. i < d \<Longrightarrow> peek m' (dirent_at c i) 32 = peek m (dirent_at c i) 32"
    and "\<And>i. i < d \<Longrightarrow> file_data c m' i = file_data c m i"
  shows "dir_list c m' d = dir_list c m d"
proof -
  have "mbyte m' (dirent_at c i + 11) = mbyte m (dirent_at c i + 11)" if "i < d" for i
    using assms(1) [OF that] unfolding peek_eq_iff by simp
  moreover have "peek m' (dirent_at c i) 11 = peek m (dirent_at c i) 11" if "i < d" for i
    using peek_sub [OF assms(1) [OF that], of 0 11] by simp
  ultimately show ?thesis
    using assms(2) by (simp add: dir_list_def)
qed

lemma root_below_clusters:
  "vol c \<Longrightarrow> i < roots c \<Longrightarrow> dirent_at c i + 32 \<le> cluster_at c 3"
  "vol c \<Longrightarrow> 3 \<le> nf \<Longrightarrow> cluster_at c 3 \<le> cluster_at c nf"
  "vol c \<Longrightarrow> cluster_at c 3 = data_at c + bpc c"
  using vol_bpc(2) [of c] by (auto simp: dirent_at_def cluster_at_def diff_le_mono)

lemma fs_inv_frame:
  assumes inv: "fs_inv c d nf fc m" and sz: "msize m' = msize m"
    and eq: "\<And>i. i < bps c * 6 \<or> bps c * 8 \<le> i \<and> i < cluster_at c nf \<Longrightarrow> mbyte m' i = mbyte m i"
  shows "fs_inv c d nf fc m'" "dir_list c m' d = dir_list c m d"
proof -
  have v: "vol c" and nf: "3 \<le> nf" "nf \<le> maxc c" and d: "d \<le> roots c" "\<forall>i<d. stored c m nf i"
    using inv by (simp_all add: fs_inv_def)
  have b: "512 \<le> bps c"
    using vol_bps [OF v] by auto
  note top = root_below_clusters(2) [OF v nf(1)] root_below_clusters(3) [OF v]
  have low: "peek m' p n = peek m p n" if "p + n \<le> bps c * 6" for p n
    using that by (intro peek_cong eq) simp
  have high: "peek m' p n = peek m p n" if "bps c * 8 \<le> p" "p + n \<le> cluster_at c nf" for p n
    using that by (intro peek_cong eq) simp
  have ent: "peek m' (dirent_at c i) 32 = peek m (dirent_at c i) 32" if "i < roots c" for i
    using root_below_clusters(1) [OF v that] root_below_clusters(2) [OF v nf(1)]
    by (intro high) (simp_all add: dirent_at_def regions_ordered)
  have st: "stored c m' nf i \<and> file_data c m' i = file_data c m i" if "i < d" for i
  proof -
    have "mbyte m' (table_at c 0 + q) = mbyte m (table_at c 0 + q)" if "q < 4 * nf" for q
      using that fat_has_entries [OF v] nf(2) top by (intro eq) (simp add: regions_ordered)
    moreover have "mbyte m' q = mbyte m q" if "cluster_at c 3 \<le> q" "q < cluster_at c nf" for q
      using that by (intro eq) (simp add: cluster_at_def regions_ordered)
    ultimately show ?thesis
      using stored_cong [OF v, of m nf i nf m'] d that nf ent [of i] by simp
  qed
  show "dir_list c m' d = dir_list c m d"
    using st ent d(1) by (intro dir_list_cong) auto
  have "bpb_says c m'"
    using inv b by (simp add: fs_inv_def bpb_says_def low)
  moreover have "peek m' (bps c + 488) 4 = peek m (bps c + 488) 4" "peek m' (bps c + 492) 4 = peek m (bps c + 492) 4"
    using b by (simp_all add: low)
  moreover have "fat_entry c m' 0 2 = fat_entry c m 0 2"
    unfolding fat_entry_def using top nf fat_has_entries [OF v] by (subst high) (simp_all add: regions_ordered)
  moreover have "peek m' (table_at c t) (fatsz c * bps c) = peek m (table_at c t) (fatsz c * bps c)" if "t < 2" for t
    using that top by (intro high) (auto simp: less_2_cases_iff regions_ordered mult.commute [of "fatsz c"])
  moreover have "mbyte m' (dirent_at c i) = mbyte m (dirent_at c i)" if "i < roots c" for i
    using ent [OF that] unfolding peek_eq_iff by (metis add.right_neutral zero_less_numeral)
  ultimately show "fs_inv c d nf fc m'"
    using inv sz st by (simp add: fs_inv_def)
qed

lemma dirent_decode:
  assumes "length (takeWhile not_dot name) \<le> 8" "peek m p 32 = concat (dirent_fields name attr nf fsize)"
  shows "peek m p 11 = dir_name name" "mbyte m (p + 11) = ucast attr"
    "dirent_first m p = unat nf" "dirent_size m p = unat fsize"
proof -
  have "pieces_at m p (dirent_fields name attr nf fsize)"
    using assms by (subst (asm) peek_concat) (simp_all add: length_dirent)
  then have q: "peek m p 11 = dir_name name" "peek m (p + 11) 1 = le_enc 1 attr"
    "peek m (p + 20) 2 = le_enc 2 (drop_bit 16 nf)" "peek m (p + 26) 2 = le_enc 2 (nf AND 0xFFFF)"
    "peek m (p + 28) 4 = le_enc 4 fsize"
    using assms(1) by (simp_all add: dirent_fields_def length_dir_name add.commute [of _ p] del: le_enc.simps)
  then show "peek m p 11 = dir_name name" "dirent_size m p = unat fsize"
    by (simp_all add: dirent_size_def)
  have "mbyte m (p + 11) = peek m (p + 11) 1 ! 0"
    by simp
  also have "\<dots> = ucast attr"
    unfolding q(2) by simp
  finally show "mbyte m (p + 11) = ucast attr" .
  have ff: "nf AND 0xFFFF = take_bit 16 nf"
    by (simp add: take_bit_eq_mask mask_eq_exp_minus_1)
  have "push_bit 16 (take_bit 16 (drop_bit 16 nf)) OR take_bit 16 (nf AND 0xFFFF) = nf"
    unfolding ff by (rule bit_word_eqI) (auto simp: bit_simps not_le)
  then show "dirent_first m p = unat nf"
    using q by (simp add: dirent_first_def le_dec_enc_take)
qed

lemma of_char_nonzero: "a \<noteq> CHR 0x00 \<Longrightarrow> (of_char a :: u8) \<noteq> 0"
proof
  assume "a \<noteq> CHR 0x00" and z: "(of_char a :: u8) = 0"
  have "(of_nat (of_char a) :: u8) = 0"
    using z by (simp only: of_nat_of_char)
  then have "of_char a = (0 :: nat)"
    using unat_of_nat_ok [of "of_char a :: nat", where 'a = 8] by simp
  then have "of_char a = (of_char (CHR 0x00) :: nat)"
    by simp
  then show False
    using \<open>a \<noteq> CHR 0x00\<close> by (simp only: of_char_eq_iff)
qed

lemma dir_name_nonzero: "name_fits name \<Longrightarrow> dir_name name ! 0 \<noteq> 0"
proof -
  assume f: "name_fits name"
  then obtain a rest where a: "takeWhile not_dot name = a # rest"
    by (cases "takeWhile not_dot name") (auto simp: name_fits_def)
  then have "a \<in> set name"
    by (metis list.set_intros(1) set_takeWhileD)
  then have "a \<noteq> CHR 0x00"
    using f by (auto simp: name_fits_def)
  then have "(of_char a :: u8) \<noteq> 0"
    by (rule of_char_nonzero)
  then show ?thesis
    using a by (simp add: dir_name_def Let_def)
qed

lemma fs_inv_extend:
  assumes inv: "fs_inv c d nf fc m" and sz: "msize m' = msize m"
    and k: "k = clusters_for c n" "nf + k \<le> maxc c" and d: "d < roots c" and name: "name_fits name"
    and n: "n < 2 ^ 32" and fc': "maxc c - (nf + k) \<le> fc'" "fc' < 2 ^ 32"
    and low: "\<And>i. i < bps c * 6 \<Longrightarrow> \<not> (bps c + 488 \<le> i \<and> i < bps c + 496) \<Longrightarrow> mbyte m' i = mbyte m i"
    and info: "peek m' (bps c + 488) 4 = le_enc 4 (of_nat fc' :: u32)"
      "peek m' (bps c + 492) 4 = le_enc 4 (of_nat (nf + k) :: u32)"
    and tabs: "\<And>t q. t < 2 \<Longrightarrow> q < fatsz c * bps c \<Longrightarrow> \<not> (4 * nf \<le> q \<and> q < 4 * (nf + k)) \<Longrightarrow>
      mbyte m' (table_at c t + q) = mbyte m (table_at c t + q)"
    and link: "linked c m' nf k"
      "\<And>q. 4 * nf \<le> q \<Longrightarrow> q < 4 * (nf + k) \<Longrightarrow> mbyte m' (table_at c 1 + q) = mbyte m' (table_at c 0 + q)"
    and data: "\<And>i. data_at c \<le> i \<Longrightarrow> i < cluster_at c nf \<Longrightarrow>
      \<not> (dirent_at c d \<le> i \<and> i < dirent_at c d + 32) \<Longrightarrow> mbyte m' i = mbyte m i"
    and ent: "peek m' (dirent_at c d) 32 = concat (dirent_fields name attr (of_nat nf) (of_nat n))"
  shows "fs_inv c (d + 1) (nf + k) fc' m'"
    "dir_list c m' (d + 1) = dir_list c m d @ [(dir_name name, ucast attr, Some (peek m' (cluster_at c nf) n))]"
proof -
  have v: "vol c" and nf: "3 \<le> nf" "nf \<le> maxc c" and old: "\<And>i. i < d \<Longrightarrow> stored c m nf i"
    and mir: "peek m (table_at c 1) (fatsz c * bps c) = peek m (table_at c 0) (fatsz c * bps c)"
    using inv by (simp_all add: fs_inv_def)
  have b: "512 \<le> bps c"
    using vol_bps [OF v] by auto
  have len: "length (takeWhile not_dot name) \<le> 8"
    using name by (simp add: name_fits_def)
  have nfw: "unat (of_nat nf :: u32) = nf" "unat (of_nat n :: u32) = n"
    using nf(2) vol_sectors(5) [OF v] n by (auto intro: unat_of_nat_ok)
  note de = dirent_decode [OF len ent, unfolded nfw]
  have k0: "0 < k"
    by (simp add: k(1) clusters_for_def)
  have other: "peek m' (dirent_at c i) 32 = peek m (dirent_at c i) 32" if "i < roots c" "i \<noteq> d" for i
    using root_below_clusters(1) [OF v that(1)] root_below_clusters(2) [OF v nf(1)] that(2)
    by (intro peek_cong data) (auto simp: dirent_at_def)
  have st: "stored c m' (nf + k) i \<and> file_data c m' i = file_data c m i" if "i < d" for i
  proof -
    have "mbyte m' (table_at c 0 + q) = mbyte m (table_at c 0 + q)" if "q < 4 * nf" for q
      using that fat_has_entries [OF v] nf(2) by (intro tabs) simp_all
    moreover have "mbyte m' q = mbyte m q" if "cluster_at c 3 \<le> q" "q < cluster_at c nf" for q
      using that root_below_clusters(1) [OF v d] by (intro data) (simp_all add: cluster_at_def)
    ultimately show ?thesis
      using stored_cong [OF v old [OF that], of "nf + k" m'] nf k(2) other [of i] that d by simp
  qed
  have "mbyte m' (dirent_at c d) = dir_name name ! 0"
    using arg_cong [OF de(1), of "\<lambda>xs. xs ! 0"] by simp
  then have new: "stored c m' (nf + k) d"
    using de nf(1) link(1) dir_name_nonzero [OF name] by (simp add: stored_def Let_def k(1))
  show "dir_list c m' (d + 1) = dir_list c m d @ [(dir_name name, ucast attr, Some (peek m' (cluster_at c nf) n))]"
    using dir_list_cong [of d m' c m] st other d de file_data_stored [OF v new k(2)]
    by (simp add: dir_list_def)
  have "peek m' p q = peek m p q" if "p + q \<le> bps c" for p q
    using that b by (intro peek_cong low) simp_all
  then have "bpb_says c m'"
    using inv b by (simp add: fs_inv_def bpb_says_def)
  moreover have "fat_entry c m' 0 2 = fat_entry c m 0 2"
  proof -
    have "mbyte m' i = mbyte m i" if "table_at c 0 + 4 * 2 \<le> i" "i < table_at c 0 + 4 * 2 + 4" for i
      using tabs [of 0 "i - table_at c 0"] that nf fat_has_entries [OF v] by simp
    then show ?thesis
      unfolding fat_entry_def by (intro arg_cong [of _ _ le_dec] peek_cong)
  qed
  moreover have "peek m' (table_at c 1) (fatsz c * bps c) = peek m' (table_at c 0) (fatsz c * bps c)"
    unfolding peek_eq_iff
  proof (intro allI impI)
    fix q
    assume q: "q < fatsz c * bps c"
    then have "mbyte m (table_at c 1 + q) = mbyte m (table_at c 0 + q)"
      using mir unfolding peek_eq_iff by blast
    then show "mbyte m' (table_at c 1 + q) = mbyte m' (table_at c 0 + q)"
      using tabs [of 0 q] tabs [of 1 q] link(2) [of q] q
      by (cases "4 * nf \<le> q \<and> q < 4 * (nf + k)") simp_all
  qed
  moreover have "mbyte m' (dirent_at c i) = mbyte m (dirent_at c i)" if "d < i" "i < roots c" for i
    using other [of i] that unfolding peek_eq_iff by (metis add.right_neutral less_irrefl zero_less_numeral)
  ultimately show "fs_inv c (d + 1) (nf + k) fc' m'"
    using inv sz st new info k(2) fc' d by (auto simp: fs_inv_def less_Suc_eq)
qed

section \<open>Copying a file in\<close>

text \<open>A host file that delivers the bytes \<open>bs\<close>.\<close>

definition delivers :: "host_file \<Rightarrow> u8 list \<Rightarrow> bool" where
  "delivers file bs \<longleftrightarrow>
     length bs < 2 ^ 32 \<and> hf_fstat file = Inr (of_nat (length bs)) \<and> hf_lseek file = Inr 0 \<and>
     hf_read file (length bs) = Inr bs"

lemma read_file_ok:
  assumes "delivers file bs" "unat fobjSize = length bs" "length bs \<le> unat clear" "a + unat clear \<le> msize m"
  shows "read_file file (Some a) clear fobjSize m =
    Inr (Inr (), poke (poke m a (replicate (unat clear) 0)) a bs)"
  using assms by (simp add: read_file_def delivers_def)

text \<open>The file's clusters as the code computes them.\<close>

lemma alloc_words:
  assumes v: "vol c" and nf: "3 \<le> nf" "nf \<le> maxc c" and n: "n < 2 ^ 32" "n \<le> bpc c * (maxc c - nf)"
  defines "sz \<equiv> of_nat n :: u32" and "q \<equiv> (n + (bpc c - 1)) div bpc c"
  shows "unat (CDIV sz (of_nat (bpc c))) = q" "q \<le> maxc c - nf"
    "unat (CDIV sz (of_nat (bpc c)) * of_nat (bpc c)) = q * bpc c" "n \<le> q * bpc c"
    "\<not> (of_nat (bpc c) * (of_nat (maxc c) - of_nat nf) :: u32) < sz"
    "unat ((of_nat nf - 2) * (of_nat (bpc c) div of_nat (bps c)) + (8 + of_nat (2 * fatsz c)) :: u32) =
      (nf - 2) * spc c + (8 + 2 * fatsz c)"
proof -
  note w = fs_inv_word_facts [OF v] and s = vol_sectors [OF v]
  have b: "512 \<le> bpc c" "bpc c \<le> 2 ^ 19"
    using vol_bpc [OF v] by simp_all
  have vend: "maxc c * bpc c \<le> sectors c * bps c" "sectors c * bps c < 2 ^ 32"
    using volume_end [OF v] v by (simp_all add: vol_def)
  have "(maxc c - nf + 1) * bpc c \<le> maxc c * bpc c"
    using nf by (intro mult_le_mono1) simp
  then have lim: "bpc c * (maxc c - nf) + bpc c < 2 ^ 32"
    using vend by (simp add: add_mult_distrib mult.commute)
  have "n + (bpc c - 1) < (maxc c - nf + 1) * bpc c"
    using n(2) b(1) by (simp add: algebra_simps)
  then show q: "q \<le> maxc c - nf"
    using less_mult_imp_div_less [of "n + (bpc c - 1)" "maxc c - nf + 1" "bpc c"] by (simp add: q_def)
  show cover: "n \<le> q * bpc c"
    using div_mult_mod_eq [of "n + (bpc c - 1)" "bpc c"] mod_less_divisor [of "bpc c" "n + (bpc c - 1)"] b(1)
    unfolding q_def by linarith
  have "unat (sz + (of_nat (bpc c) - 1)) = n + (bpc c - 1)"
    using n b lim w(2) by (simp add: unat_add_ok unat_sub_ok unat_of_nat_ok sz_def)
  then show cdiv: "unat (CDIV sz (of_nat (bpc c))) = q"
    unfolding CDIV_def add_diff_eq [symmetric] by (simp add: unat_div w q_def)
  have "q * bpc c \<le> bpc c * (maxc c - nf)"
    using q by (subst mult.commute) simp
  then have "q * bpc c < 2 ^ 32"
    using lim by linarith
  then show "unat (CDIV sz (of_nat (bpc c)) * of_nat (bpc c)) = q * bpc c"
    by (subst unat_mult_ok) (simp_all add: cdiv w)
  have nfw: "unat (of_nat nf :: u32) = nf" "unat sz = n"
    using nf s(5) n by (auto simp: sz_def intro!: unat_of_nat_ok)
  have "unat (of_nat (maxc c) - of_nat nf :: u32) = maxc c - nf"
    using nf by (simp add: unat_sub_ok w nfw)
  then have "unat (of_nat (bpc c) * (of_nat (maxc c) - of_nat nf) :: u32) = bpc c * (maxc c - nf)"
    using lim by (subst unat_mult_ok) (simp_all add: w)
  then show "\<not> (of_nat (bpc c) * (of_nat (maxc c) - of_nat nf) :: u32) < sz"
    using n(2) by (simp add: word_less_nat_alt nfw)
  have bd: "bpc c div bps c = spc c"
    using vol_bps [OF v] by (auto simp: bpc_def)
  have top: "(nf - 2) * spc c + (8 + 2 * fatsz c) \<le> sectors c"
  proof -
    have "nf - 2 \<le> maxc c"
      using nf by simp
    then have "(nf - 2) * spc c \<le> spc c * maxc c"
      by (simp add: mult.commute)
    then show ?thesis using s(2) by linarith
  qed
  have "unat ((of_nat nf - 2) * (of_nat (bpc c) div of_nat (bps c)) :: u32) = (nf - 2) * spc c"
    using top s(3) nf by (subst unat_mult_ok) (simp_all add: unat_div w unat_sub_ok nfw bd)
  moreover have "unat (8 + of_nat (2 * fatsz c) :: u32) = 8 + 2 * fatsz c"
    using s by (subst unat_add_ok) (simp_all add: w del: of_nat_mult)
  ultimately show "unat ((of_nat nf - 2) * (of_nat (bpc c) div of_nat (bps c)) + (8 + of_nat (2 * fatsz c)) :: u32) =
      (nf - 2) * spc c + (8 + 2 * fatsz c)"
    using top s(3) by (subst unat_add_ok) simp_all
qed

lemma copyin_start:
  assumes "fs_inv c d nf fc m" "hf_fstat file = Inr (of_nat n)" "n < 2 ^ 32"
  shows "FAT32Copyin h file name attr e0 m =
    (if of_nat (bpc c) * (of_nat (maxc c) - of_nat nf) < (of_nat n :: u32) then copyin_err (super c d) EDQUOT m
     else if d = roots c then copyin_err (super c d) EDQUOT m
     else
       let allocCluster = CDIV (of_nat n) (of_nat (bpc c));
           ret = (of_nat nf - 2) * (of_nat (bpc c) div of_nat (bps c)) + (8 + of_nat (2 * fatsz c)) in
       bindE (read_file file (FAT32SuperGetSector (super c d) ret) (allocCluster * of_nat (bpc c)) (of_nat n) m)
         (\<lambda>(outcome, m).
           case outcome of
             Inl e \<Rightarrow> copyin_err (super c d) e m
           | Inr _ \<Rightarrow>
               bindE (copyin_commit h (super c d) (bps c) name attr (of_nat n) allocCluster (of_nat nf) (of_nat fc) m)
                 (\<lambda>m. Inr (ret, e0, m))))"
proof -
  have v: "vol c" and sz: "sectors c * bps c \<le> msize m" and nf: "3 \<le> nf" "nf \<le> maxc c" and d: "d \<le> roots c"
    and info: "peek m (bps c + 488) 4 = le_enc 4 (of_nat fc :: u32)"
      "peek m (bps c + 492) 4 = le_enc 4 (of_nat nf :: u32)"
    using assms(1) by (simp_all add: fs_inv_def)
  note w = fs_inv_word_facts [OF v]
  have nfw: "unat (of_nat nf :: u32) = nf" "unat (of_nat d :: u32) = d"
    using nf d vol_sectors(5) [OF v] vol_bpc [OF v] by (auto intro!: unat_of_nat_ok)
  have "2 * bps c \<le> sectors c * bps c"
    using vol_sectors(1) [OF v] by simp
  moreover have "512 \<le> bps c"
    using vol_bps [OF v] by auto
  ultimately have r: "bps c + 496 \<le> msize m"
    using sz by linarith
  have nz: "(of_nat (bps c) :: u32) \<noteq> 0" "(of_nat (bpc c) :: u32) \<noteq> 0"
    using vol_bps [OF v] vol_bpc(1) [OF v] w(1,2) by (auto simp: word_unat_eq_iff)
  have cmp: "(of_nat nf :: u32) \<le> of_nat (maxc c)" "(2 :: u32) < of_nat nf"
    using nf w(4) nfw by (simp_all add: word_le_nat_alt word_less_nat_alt)
  have full: "(of_nat d = (of_nat (roots c) :: u32)) = (d = roots c)"
    using nfw w(6) by (auto simp: word_unat_eq_iff)
  have sb: "sb_fsInfo (super c d) = Some (bps c)" "sb_bytesPerSector (super c d) = of_nat (bps c)"
    "sb_bytesPerCluster (super c d) = of_nat (bpc c)" "sb_maxCluster (super c d) = of_nat (maxc c)"
    "sb_numReserved (super c d) = 8" "sb_numFAT (super c d) = of_nat (2 * fatsz c)"
    "sb_nextRootEntry (super c d) = of_nat d" "sb_numRootEntry (super c d) = of_nat (roots c)"
    by (simp_all add: super_def)
  have n: "(ucast (of_nat n :: u64) :: u32) = of_nat n"
    by (rule word_of_nat_unat_eq) (use assms(3) in \<open>simp add: unsigned_ucast_eq unat_of_nat take_bit_nat_eq_self\<close>)
  show ?thesis
    using r nz cmp full info
    by (simp add: FAT32Copyin_def assms(2) SuperInit_ok [OF assms(1)] sb deref_def get32_ok Let_def n
        cong: if_cong sum.case_cong del: of_nat_mult)
qed

lemma copyin_commit_ok:
  assumes inv: "fs_inv c d nf fc m" and sz: "msize m1 = msize m"
    and eq: "\<And>i. i < bps c * 6 \<or> bps c * 8 \<le> i \<and> i < cluster_at c nf \<Longrightarrow> mbyte m1 i = mbyte m i"
    and n: "n < 2 ^ 32" and k: "k = clusters_for c n" "nf + k \<le> maxc c" and d: "d < roots c"
    and name: "name_fits name" and a: "unat a = (n + (bpc c - 1)) div bpc c"
  shows "\<exists>m' fc'. copyin_commit h (super c d) (bps c) name attr (of_nat n) a (of_nat nf) (of_nat fc) m1 = Inr m' \<and>
    fs_inv c (d + 1) (nf + k) fc' m' \<and>
    dir_list c m' (d + 1) = dir_list c m d @ [(dir_name name, ucast attr, Some (peek m1 (cluster_at c nf) n))] \<and>
    peek m' (cluster_at c nf) n = peek m1 (cluster_at c nf) n \<and>
    peek m' (bps c * 6) (bps c) = peek m' 0 (bps c) \<and> peek m' (bps c * 7) (bps c) = peek m' (bps c) (bps c) \<and>
    msize m' = msize m1 \<and> (\<forall>i. sectors c * bps c \<le> i \<longrightarrow> mbyte m' i = mbyte m1 i) \<and>
    (\<forall>i. cluster_at c 3 \<le> i \<and> i < cluster_at c nf \<longrightarrow> mbyte m' i = mbyte m i)"
proof -
  have v: "vol c" and vsz: "sectors c * bps c \<le> msize m" and nf: "3 \<le> nf" "nf \<le> maxc c"
    and fc: "maxc c - nf \<le> fc" "fc < 2 ^ 32"
    and zero: "mbyte m (dirent_at c d) = 0"
    using inv d by (simp_all add: fs_inv_def)
  have b: "512 \<le> bps c"
    using vol_bps [OF v] by auto
  note top = root_below_clusters(1) [OF v d] root_below_clusters(2) [OF v nf(1)] root_below_clusters(3) [OF v]
  have cl: "cluster_at c nf + n \<le> sectors c * bps c"
    using cluster_run_end [OF v, of nf k] clusters_for_covers [of c n] vol_bpc(1) [OF v] nf k by simp
  have sbd: "sb_rootDir (super c d) = Some (data_at c)" "sb_nextRootEntry (super c d) = of_nat d"
    by (simp_all add: super_def)
  have dw: "unat (of_nat d :: u32) = d"
    using d vol_bpc [OF v] by (intro unat_of_nat_ok) simp
  have "mbyte m1 (dirent_at c d) = 0"
    using eq [of "dirent_at c d"] zero top by (simp add: dirent_at_def regions_ordered)
  then obtain m2 where m2: "write_dirent h (dirent_at c d) name attr (of_nat nf) (of_nat n) m1 = Inr m2"
    "msize m2 = msize m1" "peek m2 (dirent_at c d) 32 = concat (dirent_fields name attr (of_nat nf) (of_nat n))"
    "\<And>i. i < dirent_at c d \<or> dirent_at c d + 32 \<le> i \<Longrightarrow> mbyte m2 i = mbyte m1 i"
    using write_dirent_ok [of m1 "dirent_at c d" name h attr "of_nat nf" "of_nat n"] name top cl vsz sz by auto
  have kk: "Suc (unat a - 1) = k"
    by (simp add: a k(1) clusters_for_def max_def)
  obtain m3 where m3: "link_clusters h (super c d) (unat a - 1) (of_nat nf) m2 = Inr (of_nat (nf + k), m3)"
    "msize m3 = msize m2" "linked c m3 nf k"
    "\<And>i. (\<forall>t<2. \<not> (table_at c t + 4 * nf \<le> i \<and> i < table_at c t + 4 * (nf + k))) \<Longrightarrow> mbyte m3 i = mbyte m2 i"
    "\<And>q. 4 * nf \<le> q \<and> q < 4 * (nf + k) \<Longrightarrow> mbyte m3 (table_at c 1 + q) = mbyte m3 (table_at c 0 + q)"
    using link_clusters_ok [OF v, of m2 nf "unat a - 1" h d] nf k(2) vsz sz m2(2) unfolding kk by auto
  define fc' where "fc' = fc - unat a"
  have "unat a \<le> k"
    using a k(1) by (simp add: clusters_for_def)
  then have ale: "unat a \<le> fc" "maxc c - (nf + k) \<le> fc'"
    using fc(1) k(2) by (simp_all add: fc'_def)
  have "unat (of_nat fc - a) = fc'" "a \<le> of_nat fc"
    using fc(2) ale(1) by (simp_all add: unat_sub_ok unat_of_nat_ok word_le_nat_alt fc'_def)
  then have fw: "of_nat fc - a = of_nat fc'" "a \<le> of_nat fc"
    using word_of_nat_unat_eq by blast+
  define m4 where "m4 = poke (poke m3 (bps c + 488) (le_enc 4 (of_nat fc' :: u32))) (bps c + 492)
    (le_enc 4 (of_nat (nf + k) :: u32))"
  have room: "bps c + 496 \<le> msize m3"
    using top cl vsz sz m2(2) m3(2) b by (simp add: dirent_at_def regions_ordered)
  obtain m5 where m5: "FAT32SuperFree (super c d) m4 = Inr m5" "msize m5 = msize m4"
    "\<And>i. i < bps c * 6 \<or> bps c * 8 \<le> i \<Longrightarrow> mbyte m5 i = mbyte m4 i"
    "peek m5 (bps c * 6) (bps c) = peek m5 0 (bps c)" "peek m5 (bps c * 7) (bps c) = peek m5 (bps c) (bps c)"
    using SuperFree_ok [OF v, of m4 d] vsz sz m2(2) m3(2) by (auto simp: m4_def)
  have run: "copyin_commit h (super c d) (bps c) name attr (of_nat n) a (of_nat nf) (of_nat fc) m1 = Inr m5"
    using m2(1) m3(1) m5(1) room fw
    by (simp add: copyin_commit_def sbd deref_def dw m4_def flip: dirent_at_def)
  have s4: "mbyte m4 i = mbyte m3 i" if "i < bps c + 488 \<or> bps c + 496 \<le> i" for i
    using that by (auto simp: m4_def mbyte_poke)
  have tab: "4 * (nf + k) \<le> fatsz c * bps c"
    using fat_has_entries [OF v] k(2) by simp
  have s3: "mbyte m3 i = mbyte m2 i" if "i < bps c * 8 \<or> data_at c \<le> i" for i
    using that tab by (intro m3(4)) (auto simp: less_2_cases_iff regions_ordered)
  have beyond: "mbyte m5 i = mbyte m1 i" if "data_at c \<le> i" "i < dirent_at c d \<or> dirent_at c d + 32 \<le> i" for i
    using that m5(3) [of i] s4 [of i] s3 [of i] m2(4) [of i] b by (auto simp: regions_ordered)
  have part: "peek m5 (cluster_at c nf) n = peek m1 (cluster_at c nf) n"
  proof -
    have "data_at c \<le> cluster_at c nf"
      by (simp add: cluster_at_def)
    then show ?thesis
      using top(1,2) by (intro peek_cong beyond) linarith+
  qed
  have old: "mbyte m5 i = mbyte m i" if "i < bps c * 6" "\<not> (bps c + 488 \<le> i \<and> i < bps c + 496)" for i
    using that m5(3) [of i] s4 [of i] s3 [of i] m2(4) [of i] eq [of i]
    by (auto simp: dirent_at_def regions_ordered)
  have info: "peek m5 (bps c + 488) 4 = le_enc 4 (of_nat fc' :: u32)"
    "peek m5 (bps c + 492) 4 = le_enc 4 (of_nat (nf + k) :: u32)"
  proof -
    have "peek m5 p 4 = peek m4 p 4" if "p + 4 \<le> bps c * 6" for p
      using that by (intro peek_cong m5(3)) simp
    then show "peek m5 (bps c + 488) 4 = le_enc 4 (of_nat fc' :: u32)"
      "peek m5 (bps c + 492) 4 = le_enc 4 (of_nat (nf + k) :: u32)"
      using b by (simp_all add: m4_def)
  qed
  have m53: "mbyte m5 i = mbyte m3 i" if "bps c * 8 \<le> i" for i
    using that m5(3) [of i] s4 [of i] b by simp
  have tabs: "mbyte m5 (table_at c t + q) = mbyte m (table_at c t + q)"
    if "t < 2" "q < fatsz c * bps c" "\<not> (4 * nf \<le> q \<and> q < 4 * (nf + k))" for t q
  proof -
    have r: "bps c * 8 \<le> table_at c t + q" "table_at c t + q < data_at c"
      using that(1,2) by (auto simp: less_2_cases_iff regions_ordered mult.commute)
    have "mbyte m3 (table_at c t + q) = mbyte m2 (table_at c t + q)"
      using that tab by (intro m3(4)) (auto simp: less_2_cases_iff regions_ordered)
    then show ?thesis
      using r m53 [of "table_at c t + q"] m2(4) [of "table_at c t + q"] eq [of "table_at c t + q"] top
      by (simp add: dirent_at_def)
  qed
  have "fat_entry c m5 0 j = fat_entry c m3 0 j" for j
    unfolding fat_entry_def by (intro arg_cong [of _ _ le_dec] peek_cong m53) (simp add: regions_ordered)
  then have link: "linked c m5 nf k"
    using m3(3) by (simp add: linked_def)
  have mir: "mbyte m5 (table_at c 1 + q) = mbyte m5 (table_at c 0 + q)" if "4 * nf \<le> q" "q < 4 * (nf + k)" for q
    using that m3(5) [of q] by (simp add: m53 regions_ordered)
  have data: "mbyte m5 i = mbyte m i"
    if "data_at c \<le> i" "i < cluster_at c nf" "\<not> (dirent_at c d \<le> i \<and> i < dirent_at c d + 32)" for i
    using beyond [of i] eq [of i] that by (auto simp: regions_ordered)
  have "peek m5 (dirent_at c d) 32 = peek m2 (dirent_at c d) 32"
    using s3 b by (intro peek_cong) (auto simp: m53 dirent_at_def regions_ordered)
  then have ent: "peek m5 (dirent_at c d) 32 = concat (dirent_fields name attr (of_nat nf) (of_nat n))"
    using m2(3) by simp
  have "msize m5 = msize m"
    using m5(2) m3(2) m2(2) sz by (simp add: m4_def)
  moreover have "fc' < 2 ^ 32"
    using fc(2) by (simp add: fc'_def)
  ultimately have "fs_inv c (d + 1) (nf + k) fc' m5"
    "dir_list c m5 (d + 1) = dir_list c m d @ [(dir_name name, ucast attr, Some (peek m1 (cluster_at c nf) n))]"
    using fs_inv_extend [OF inv _ k d name n ale(2) _ old info tabs link mir data ent] part by simp_all
  moreover have "mbyte m5 i = mbyte m1 i" if "sectors c * bps c \<le> i" for i
  proof -
    have "data_at c \<le> cluster_at c nf"
      by (simp add: cluster_at_def)
    then show ?thesis
      using that cl top(1,2) by (intro beyond) linarith+
  qed
  moreover have "mbyte m5 i = mbyte m i" if "cluster_at c 3 \<le> i" "i < cluster_at c nf" for i
    using that top(1,3) by (intro data) linarith+
  moreover have "msize m5 = msize m1"
    using m5(2) m3(2) m2(2) by (simp add: m4_def)
  ultimately show ?thesis
    using run part m5(4,5) by blast
qed

lemma copyin_addr:
  assumes v: "vol c" and nf: "3 \<le> nf" "nf \<le> maxc c"
    and r: "unat r = (nf - 2) * spc c + (8 + 2 * fatsz c)"
  shows "FAT32SuperGetSector (super c d) r = Some (cluster_at c nf)" "unat r * bps c = cluster_at c nf" "r \<noteq> 0"
proof -
  have "(nf - 2) * spc c + spc c \<le> maxc c * spc c"
    using nf mult_le_mono1 [of "nf - 2 + 1" "maxc c" "spc c"] by (simp add: algebra_simps)
  then have lt: "(nf - 2) * spc c + (8 + 2 * fatsz c) < sectors c"
    using vol_sectors(2) [OF v] vol_spc [OF v] by (auto simp: mult.commute)
  show eq: "unat r * bps c = cluster_at c nf"
    by (simp add: r cluster_at_def data_at_def bpc_def algebra_simps)
  show "FAT32SuperGetSector (super c d) r = Some (cluster_at c nf)"
    using GetSector_ok [OF v lt, of d] word_of_nat_unat_eq [OF r] eq r by (simp add: mult.commute)
  show "r \<noteq> 0"
    using r by auto
qed

lemma FAT32Copyin_ok:
  assumes inv: "fs_inv c d nf fc m" and del: "delivers file bs" and name: "name_fits name"
    and d: "d < roots c" and k: "nf + clusters_for c (length bs) \<le> maxc c"
  shows "\<exists>s m' fc'. FAT32Copyin h file name attr e0 m = Inr (s, e0, m') \<and> s \<noteq> 0 \<and>
    fs_inv c (d + 1) (nf + clusters_for c (length bs)) fc' m' \<and>
    dir_list c m' (d + 1) = dir_list c m d @ [(dir_name name, ucast attr, Some bs)] \<and>
    unat s * bps c = cluster_at c nf \<and> peek m' (unat s * bps c) (length bs) = bs \<and>
    peek m' (bps c * 6) (bps c) = peek m' 0 (bps c) \<and> peek m' (bps c * 7) (bps c) = peek m' (bps c) (bps c) \<and>
    msize m' = msize m \<and> (\<forall>i. sectors c * bps c \<le> i \<longrightarrow> mbyte m' i = mbyte m i) \<and>
    (\<forall>i. cluster_at c 3 \<le> i \<and> i < cluster_at c nf \<longrightarrow> mbyte m' i = mbyte m i)"
proof -
  have v: "vol c" and sz: "sectors c * bps c \<le> msize m" and nf: "3 \<le> nf" "nf \<le> maxc c"
    using inv by (simp_all add: fs_inv_def)
  define n where "n = length bs"
  have n: "n < 2 ^ 32" "hf_fstat file = Inr (of_nat n)"
    using del by (simp_all add: delivers_def n_def)
  have cov: "n \<le> clusters_for c n * bpc c"
    using clusters_for_covers [of c n] vol_bpc(1) [OF v] by simp
  have nmax: "n \<le> bpc c * (maxc c - nf)"
  proof -
    have "clusters_for c n * bpc c \<le> (maxc c - nf) * bpc c"
      using k by (intro mult_le_mono1) (simp add: n_def)
    then have "n \<le> (maxc c - nf) * bpc c"
      using cov by (rule order_trans [rotated])
    then show ?thesis by (simp add: mult.commute)
  qed
  let ?a = "CDIV (of_nat n) (of_nat (bpc c)) :: u32"
  let ?r = "(of_nat nf - 2) * (of_nat (bpc c) div of_nat (bps c)) + (8 + of_nat (2 * fatsz c)) :: u32"
  note aw = alloc_words [OF v nf n(1) nmax]
  note r = copyin_addr(1) [OF v nf aw(6), of d] copyin_addr(2,3) [OF v nf aw(6)]
  have fit: "cluster_at c nf + unat (?a * of_nat (bpc c)) \<le> sectors c * bps c"
    using cluster_run_end [OF v, of nf "maxc c - nf"] mult_le_mono1 [OF aw(2), of "bpc c"] nf
    unfolding aw(3) by linarith
  define m1 where "m1 = poke (poke m (cluster_at c nf) (replicate (unat (?a * of_nat (bpc c))) 0)) (cluster_at c nf) bs"
  have rdf: "read_file file (FAT32SuperGetSector (super c d) ?r) (?a * of_nat (bpc c)) (of_nat n) m = Inr (Inr (), m1)"
    unfolding r(1) m1_def using n(1) aw(3,4) fit sz
    by (intro read_file_ok [OF del]) (simp_all add: unat_of_nat_ok n_def)
  have m1: "mbyte m1 i = mbyte m i" if "i < cluster_at c nf" for i
    using that by (simp add: m1_def)
  have m1': "mbyte m1 i = mbyte m i" if "i < bps c * 6 \<or> bps c * 8 \<le> i \<and> i < cluster_at c nf" for i
    using that by (intro m1) (auto simp: cluster_at_def regions_ordered)
  have new: "peek m1 (cluster_at c nf) n = bs"
    by (simp add: m1_def n_def)
  obtain m' fc' where m': "copyin_commit h (super c d) (bps c) name attr (of_nat n) ?a (of_nat nf) (of_nat fc) m1 = Inr m'"
    "fs_inv c (d + 1) (nf + clusters_for c n) fc' m'"
    "dir_list c m' (d + 1) = dir_list c m d @ [(dir_name name, ucast attr, Some bs)]"
    "peek m' (cluster_at c nf) n = bs"
    "peek m' (bps c * 6) (bps c) = peek m' 0 (bps c)" "peek m' (bps c * 7) (bps c) = peek m' (bps c) (bps c)"
    "msize m' = msize m1" "\<forall>i. sectors c * bps c \<le> i \<longrightarrow> mbyte m' i = mbyte m1 i"
    "\<forall>i. cluster_at c 3 \<le> i \<and> i < cluster_at c nf \<longrightarrow> mbyte m' i = mbyte m i"
    using copyin_commit_ok [OF inv _ m1' n(1) refl _ d name aw(1), of h attr] k new by (auto simp: m1_def n_def)
  have "FAT32Copyin h file name attr e0 m = Inr (?r, e0, m')"
    using aw(5) d rdf m'(1) by (simp add: copyin_start [OF inv n(2,1)] Let_def del: of_nat_mult)
  moreover have "mbyte m' i = mbyte m i" if "sectors c * bps c \<le> i" for i
    using that m'(8) fit aw(3,4) by (simp add: m1_def n_def)
  ultimately show ?thesis
    using m' r(2,3) by (auto simp: n_def m1_def)
qed

text \<open>A host file whose data cannot be read completely.\<close>

definition read_fails :: "host_file \<Rightarrow> nat \<Rightarrow> bool" where
  "read_fails file n \<longleftrightarrow>
     (case hf_lseek file of
        Inl e \<Rightarrow> True
      | Inr pos \<Rightarrow> pos \<noteq> 0 \<or> (case hf_read file n of Inl e \<Rightarrow> True | Inr bs \<Rightarrow> length bs < n))"

lemma read_file_fails:
  assumes "read_fails file n" "unat fobjSize = n" "n \<le> unat clear" "a + unat clear \<le> msize m"
  shows "\<exists>e m'. read_file file (Some a) clear fobjSize m = Inr (Inl e, m') \<and> msize m' = msize m \<and>
    (\<forall>i<a. mbyte m' i = mbyte m i)"
  using assms by (auto simp: read_file_def read_fails_def split: sum.splits)

lemma copyin_err_ok:
  assumes inv: "fs_inv c d nf fc m" and sz: "msize m1 = msize m"
    and eq: "\<And>i. i < cluster_at c nf \<Longrightarrow> mbyte m1 i = mbyte m i"
  shows "\<exists>m'. copyin_err (super c d) e m1 = Inr (0, e, m') \<and> fs_inv c d nf fc m' \<and> dir_list c m' d = dir_list c m d"
proof -
  have v: "vol c" "sectors c * bps c \<le> msize m1"
    using inv sz by (simp_all add: fs_inv_def)
  then obtain m' where m': "FAT32SuperFree (super c d) m1 = Inr m'" "msize m' = msize m1"
    "\<And>i. i < bps c * 6 \<or> bps c * 8 \<le> i \<Longrightarrow> mbyte m' i = mbyte m1 i"
    using SuperFree_ok by blast
  have "mbyte m' i = mbyte m i" if "i < bps c * 6 \<or> bps c * 8 \<le> i \<and> i < cluster_at c nf" for i
    using that m'(3) [of i] eq [of i] by (auto simp: cluster_at_def regions_ordered)
  then show ?thesis
    using fs_inv_frame [OF inv, of m'] m'(1,2) sz by (simp add: copyin_err_def)
qed

lemma FAT32Copyin_err:
  assumes inv: "fs_inv c d nf fc m" and n: "hf_fstat file = Inr (of_nat n)" "n < 2 ^ 32"
    and bad: "bpc c * (maxc c - nf) < n \<or> d = roots c \<or> read_fails file n"
  shows "\<exists>e m'. FAT32Copyin h file name attr e0 m = Inr (0, e, m') \<and> fs_inv c d nf fc m' \<and>
    dir_list c m' d = dir_list c m d \<and> (bpc c * (maxc c - nf) < n \<or> d = roots c \<longrightarrow> e = EDQUOT)"
proof -
  have v: "vol c" and sz: "sectors c * bps c \<le> msize m" and nf: "3 \<le> nf" "nf \<le> maxc c"
    using inv by (simp_all add: fs_inv_def)
  note w = fs_inv_word_facts [OF v]
  show ?thesis
  proof (cases "bpc c * (maxc c - nf) < n")
    case True
    have "unat (of_nat nf :: u32) = nf"
      using nf vol_sectors(5) [OF v] by (intro unat_of_nat_ok) simp
    then have sub: "unat (of_nat (maxc c) - of_nat nf :: u32) = maxc c - nf"
      using nf by (simp add: unat_sub_ok w)
    have "unat (of_nat (bpc c) * (of_nat (maxc c) - of_nat nf) :: u32) = bpc c * (maxc c - nf)"
      using True n(2) by (subst unat_mult_ok) (simp_all add: w sub)
    then have "of_nat (bpc c) * (of_nat (maxc c) - of_nat nf) < (of_nat n :: u32)"
      using True n(2) by (simp add: word_less_nat_alt unat_of_nat_ok)
    then show ?thesis
      using copyin_err_ok [OF inv, of m EDQUOT] by (auto simp: copyin_start [OF inv n])
  next
    case False
    then have nmax: "n \<le> bpc c * (maxc c - nf)" by simp
    note aw = alloc_words [OF v nf n(2) nmax]
    note r = copyin_addr(1) [OF v nf aw(6), of d] copyin_addr(2,3) [OF v nf aw(6)]
    show ?thesis
    proof (cases "d = roots c")
      case True
      then show ?thesis
        using copyin_err_ok [OF inv, of m EDQUOT] aw(5) by (auto simp: copyin_start [OF inv n])
    next
      case False
      let ?a = "CDIV (of_nat n) (of_nat (bpc c)) :: u32"
      have fit: "cluster_at c nf + unat (?a * of_nat (bpc c)) \<le> msize m"
        using cluster_run_end [OF v, of nf "maxc c - nf"] mult_le_mono1 [OF aw(2), of "bpc c"] nf sz
        unfolding aw(3) by linarith
      obtain e m1 where m1: "read_file file (Some (cluster_at c nf)) (?a * of_nat (bpc c)) (of_nat n) m = Inr (Inl e, m1)"
        "msize m1 = msize m" "\<forall>i<cluster_at c nf. mbyte m1 i = mbyte m i"
        using read_file_fails [of "file" n "of_nat n" "?a * of_nat (bpc c)" "cluster_at c nf" m] fit bad False nmax
          aw(3,4) n(2) by (auto simp: unat_of_nat_ok)
      obtain m' where "copyin_err (super c d) e m1 = Inr (0, e, m')" "fs_inv c d nf fc m'" "dir_list c m' d = dir_list c m d"
        using copyin_err_ok [OF inv m1(2), of e] m1(3) by blast
      then show ?thesis
        using aw(5) False m1(1) nmax r(1) by (simp add: copyin_start [OF inv n] Let_def del: of_nat_mult)
    qed
  qed
qed

end
