(* ===== verification/Fat.thy ===== *)
theory Fat
  imports Fat_Store
begin

text \<open>
  The properties of the FAT32 component: formatting, copying files in, the error paths, and the
  interface \<open>file_store\<close> through which the installers use a volume.
\<close>

unbundle bit_operations_syntax

section \<open>A formatted buffer is an empty volume\<close>

lemma formatted_pieces:
  assumes "vol c" "formatted c m m'"
  shows "pieces_at m' (table_at c 0) (table_pieces (media c) (fatsz c * bps c))"
proof -
  let ?n = "fatsz c * bps c"
  have "12 \<le> ?n"
    using fat_has_entries [OF assms(1)] assms(1) by (simp add: vol_def)
  then have len: "?n = length (concat (table_pieces (media c) ?n))"
    by (simp add: table_pieces_def)
  have "peek m' (table_at c 0) ?n = concat (table_pieces (media c) ?n)"
    using assms(2) by (simp add: formatted_def)
  then show ?thesis
    by (rule peek_concat [OF len, THEN iffD1])
qed

lemma formatted_volume:
  assumes "vol c" "sectors c * bps c \<le> msize m" "formatted c m m'"
  shows "fs_inv c 0 3 (2 * fatsz c * (bps c div 4) - 3) m'"
proof -
  have b: "512 \<le> bps c"
    using vol_bps [OF assms(1)] by auto
  let ?n = "fatsz c * bps c"
  have f: "peek m' 0 512 = concat (bpb_fields c)"
    "fsinfo_fields (bps c) (of_nat (2 * fatsz c * (bps c div 4) - 3)) 3 m'" "msize m' = msize m"
    "peek m' (data_at c) (bpc c) = replicate (bpc c) 0"
    and t: "\<And>t. t < 2 \<Longrightarrow> peek m' (table_at c t) ?n = concat (table_pieces (media c) ?n)"
    using assms(3) by (simp_all add: formatted_def)
  have "pieces_at m' 0 (bpb_fields c)"
    using f(1) by (simp add: peek_concat)
  then have "bpb_says c m'"
    by (simp add: bpb_fields_def bpb_says_def del: le_enc.simps)
  moreover have "pieces_at m' (table_at c 0) (table_pieces (media c) ?n)"
    using formatted_pieces [OF assms(1,3)] .
  then have "fat_entry c m' 0 2 = 0xFFFFFFFF"
    by (simp add: fat_entry_def table_pieces_def add.commute [of 8])
  moreover have "mbyte m' (dirent_at c i) = 0" if "i < roots c" for i
  proof -
    have "32 * i < bpc c"
      using that vol_bpc(2) [OF assms(1)] by simp
    then show ?thesis
      using f(4) by (simp add: peek_replicate dirent_at_def)
  qed
  moreover have "maxc c - 3 \<le> 2 * fatsz c * (bps c div 4) - 3"
  proof -
    have "maxc c \<le> sectors c div spc c"
      by (simp add: maxc_def div_le_mono)
    also have "\<dots> \<le> fatsz c * (bps c div 4)"
      using assms(1) fatsz_covers by (simp add: vol_def)
    finally show ?thesis by simp
  qed
  moreover have "2 * fatsz c * (bps c div 4) < 2 ^ 32"
  proof -
    have "2 * fatsz c * (bps c div 4) \<le> 2 * fatsz c * bps c"
      by simp
    also have "\<dots> = bps c * (2 * fatsz c)"
      by simp
    also have "\<dots> < 2 ^ 32"
      using vol_sectors(1) [OF assms(1)] by (intro region_fits [OF assms(1)]) simp
    finally show ?thesis .
  qed
  ultimately show ?thesis
    using assms(1,2) f t [of 0] t [of 1]
    by (simp add: fs_inv_def fsinfo_fields_def vol_def)
qed

section \<open>The interface of a file store\<close>



lemma hf_fstat_update:
  "hf_lseek (f\<lparr>hf_fstat := x\<rparr>) = hf_lseek f" "hf_read (f\<lparr>hf_fstat := x\<rparr>) = hf_read f"
  "hf_errno (f\<lparr>hf_fstat := x\<rparr>) = hf_errno f"
  by simp_all

text \<open>Of the size that \<open>fstat\<close> gives only the low 32 bits count.\<close>

lemma FAT32Copyin_low_size:
  assumes "hf_fstat file = Inr sz"
  shows "FAT32Copyin h file name attr e0 m =
    FAT32Copyin h (file\<lparr>hf_fstat := Inr (of_nat (unat sz mod 2 ^ 32))\<rparr>) name attr e0 m"
proof -
  have "(ucast (of_nat (unat sz mod 2 ^ 32) :: u64) :: u32) = ucast sz"
    by (simp add: word_unat_eq_iff unsigned_ucast_eq unat_of_nat take_bit_eq_mod)
  moreover have "read_file (file\<lparr>hf_fstat := Inr (of_nat (unat sz mod 2 ^ 32))\<rparr>) = read_file file"
    by (intro ext) (simp only: read_file_def host_file.select_convs hf_fstat_update)
  moreover have "hf_fstat (file\<lparr>hf_fstat := Inr (of_nat (unat sz mod 2 ^ 32))\<rparr>) = Inr (of_nat (unat sz mod 2 ^ 32))"
    by simp
  ultimately show ?thesis
    unfolding FAT32Copyin_def assms by (simp only: sum.case)
qed

text \<open>
  A FAT32 volume as a file store. The number of files is that of the directory entries before the
  first free one. A file is put with its name, its attributes and its bytes.
\<close>

definition live :: "FATConfig \<Rightarrow> mem \<Rightarrow> nat" where
  "live c m = length (takeWhile (\<lambda>i. mbyte m (dirent_at c i) \<noteq> 0) [0..<roots c])"

definition volume_files :: "FATConfig \<Rightarrow> mem \<Rightarrow> (u8 list \<times> u8 \<times> u8 list option) list" where
  "volume_files c m = dir_list c m (live c m)"





text \<open>
  The specification. The files take up clusters from number 3 on; a file is appended if the directory
  has a slot left and its clusters end below the last one, and is refused otherwise.
\<close>

definition clusters_used :: "FATConfig \<Rightarrow> (u8 list \<times> u8 \<times> u8 list option) list \<Rightarrow> nat" where
  "clusters_used c fs =
     sum_list (map (\<lambda>(name, attr, data). case data of None \<Rightarrow> 0 | Some bs \<Rightarrow> clusters_for c (length bs)) fs)"


definition volume_ok :: "FATConfig \<Rightarrow> mem \<Rightarrow> bool" where
  "volume_ok c m \<longleftrightarrow> (\<exists>fc. fs_inv c (live c m) (3 + clusters_used c (volume_files c m)) fc m)"

lemma live_fs_inv: "fs_inv c d nf fc m \<Longrightarrow> live c m = d"
proof -
  assume "fs_inv c d nf fc m"
  then have d: "d \<le> roots c" "\<And>i. i < d \<Longrightarrow> mbyte m (dirent_at c i) \<noteq> 0"
    "\<And>i. d \<le> i \<Longrightarrow> i < roots c \<Longrightarrow> mbyte m (dirent_at c i) = 0"
    by (auto simp: fs_inv_def stored_def Let_def)
  have "[0..<roots c] = [0..<d] @ [d..<roots c]"
    using d(1) upt_add_eq_append [of 0 d "roots c - d"] by simp
  moreover have "takeWhile (\<lambda>i. mbyte m (dirent_at c i) \<noteq> 0) [d..<roots c] = []"
    using d(3) by (cases "d < roots c") (simp_all add: upt_rec)
  ultimately show ?thesis
    using d(2) by (simp add: live_def) (subst takeWhile_append2, auto)
qed





section \<open>Properties\<close>

text \<open>
  A small volume for the witnesses: 64 sectors of 512 bytes, one sector per cluster, and a host
  file with three bytes.
\<close>

definition demo_fat :: FATConfig where
  "demo_fat = \<lparr>nSector = 64, bytesPerSector = 512, clusterSize = 1, writeRandomData = False, isFixed = True\<rparr>"

definition demo_file :: "u8 list \<Rightarrow> host_file" where
  "demo_file bs = \<lparr>hf_fstat = Inr (of_nat (length bs)), hf_lseek = Inr 0, hf_read = (\<lambda>n. Inr (take n bs)), hf_errno = 0\<rparr>"

lemma demo_geometry [simp]:
  "sectors demo_fat = 64" "bps demo_fat = 512" "spc demo_fat = 1" "fatsz demo_fat = 1" "maxc demo_fat = 54"
  "bpc demo_fat = 512" "roots demo_fat = 16"
  by (simp_all add: demo_fat_def sectors_def bps_def spc_def fatsz_def maxc_def bpc_def roots_def)

lemma demo_vol: "vol demo_fat" "fat_ready demo_fat (blank 32768)"
  by (simp_all add: vol_def fat_ready_def configIsValid_geometry blank_def)

lemma demo_delivers: "length bs < 2 ^ 32 \<Longrightarrow> delivers (demo_file bs) bs"
  by (simp add: delivers_def demo_file_def)


lemma create_volume:
  assumes "vol c" "sectors c * bps c \<le> msize m"
  shows "\<exists>m'. createFAT32 h c m = Inr (0, m') \<and> formatted c m m' \<and>
    fs_inv c 0 3 (2 * fatsz c * (bps c div 4) - 3) m' \<and> volume_ok c m' \<and> volume_files c m' = []"
proof -
  have "fat_ready c m"
    using assms by (simp add: fat_ready_def vol_def)
  then obtain m' where m': "createFAT32 h c m = Inr (0, m')" "formatted c m m'"
    using createFAT32_ok by blast
  have i: "fs_inv c 0 3 (2 * fatsz c * (bps c div 4) - 3) m'"
    using formatted_volume [OF assms m'(2)] .
  then show ?thesis
    using m' i live_fs_inv [OF i] by (auto simp: volume_ok_def volume_files_def dir_list_def clusters_used_def)
qed

text \<open>
  C7: Copying a file in. On a well-formed volume with a free directory entry and enough free
  clusters, \<open>FAT32Copyin\<close> succeeds and leaves \<open>FAT32Errno\<close> alone; following the allocation table
  from the new last directory entry yields exactly the bytes of the host file; all earlier files
  read back as before; the volume stays well-formed; the file is one contiguous block at the
  returned sector; the backup copies of the boot sector and \<open>FSInfo\<close> are in sync; and no byte
  outside the volume changes.
\<close>

theorem FAT32Copyin_appends:
  assumes "fs_inv c d nf fc m" "delivers file bs" "name_fits name" "d < roots c"
    "nf + clusters_for c (length bs) \<le> maxc c"
  shows "\<exists>s m' fc'. FAT32Copyin h file name attr e0 m = Inr (s, e0, m') \<and> s \<noteq> 0 \<and>
    fs_inv c (d + 1) (nf + clusters_for c (length bs)) fc' m' \<and>
    dir_list c m' (d + 1) = dir_list c m d @ [(dir_name name, ucast attr, Some bs)] \<and>
    unat s * bps c = cluster_at c nf \<and> peek m' (unat s * bps c) (length bs) = bs \<and>
    peek m' (bps c * 6) (bps c) = peek m' 0 (bps c) \<and> peek m' (bps c * 7) (bps c) = peek m' (bps c) (bps c) \<and>
    msize m' = msize m \<and> (\<forall>i. sectors c * bps c \<le> i \<longrightarrow> mbyte m' i = mbyte m i)"
  using FAT32Copyin_ok [OF assms, of h attr e0] by blast

theorem FAT32Copyin_appends_witness:
  "\<exists>m s m'. createFAT32 Little demo_fat (blank 32768) = Inr (0, m) \<and>
     FAT32Copyin Little (demo_file [1, 2, 3]) ''a.b'' 0x20 0 m = Inr (s, 0, m') \<and> s \<noteq> 0 \<and>
     dir_list demo_fat m' 1 = [([97, 0, 0, 0, 0, 0, 0, 0, 46, 98, 0], 0x20, Some [1, 2, 3])]"
proof -
  obtain m where m: "createFAT32 Little demo_fat (blank 32768) = Inr (0, m)"
    "fs_inv demo_fat 0 3 (2 * fatsz demo_fat * (bps demo_fat div 4) - 3) m"
    using create_volume [OF demo_vol(1), of "blank 32768" Little] by (auto simp: blank_def)
  have "name_fits ''a.b''"
    by (simp add: name_fits_def not_dot_def)
  moreover have "dir_name ''a.b'' = [97, 0, 0, 0, 0, 0, 0, 0, 46, 98, 0]"
    by (simp add: dir_name_def not_dot_def numeral_eq_Suc)
  ultimately show ?thesis
    using FAT32Copyin_appends [OF m(2) demo_delivers [of "[1, 2, 3]"], of "''a.b''" Little "0x20" 0] m(1)
    by (auto simp: clusters_for_def dir_list_def)
qed

text \<open>
  C8: The error paths of \<open>FAT32Copyin\<close>. With \<open>n\<close> the low 32 bits of the size that \<open>fstat\<close> gives: if \<open>n\<close> bytes
  are more than the free clusters hold, the root directory is full, or the seek or the read of \<open>n\<close> bytes
  fails or is short, the call returns 0, the volume stays well-formed with the same allocation state, and
  every file still reads back as before; the first two cases report \<open>EDQUOT\<close>. Only for files below 4 GiB
  is \<open>n\<close> the size of the file.
\<close>

theorem FAT32Copyin_error_keeps:
  assumes "fs_inv c d nf fc m" "hf_fstat file = Inr sz" "n = unat sz mod 2 ^ 32"
    "bpc c * (maxc c - nf) < n \<or> d = roots c \<or> read_fails file n"
  shows "\<exists>e m'. FAT32Copyin h file name attr e0 m = Inr (0, e, m') \<and> fs_inv c d nf fc m' \<and>
    dir_list c m' d = dir_list c m d \<and> (bpc c * (maxc c - nf) < n \<or> d = roots c \<longrightarrow> e = EDQUOT)"
proof -
  have "FAT32Copyin h file name attr e0 m = FAT32Copyin h (file\<lparr>hf_fstat := Inr (of_nat n)\<rparr>) name attr e0 m"
    unfolding assms(3) by (rule FAT32Copyin_low_size [OF assms(2)])
  moreover have "read_fails (file\<lparr>hf_fstat := Inr (of_nat n)\<rparr>) n = read_fails file n"
    by (simp only: read_fails_def hf_fstat_update)
  ultimately show ?thesis
    using FAT32Copyin_err [OF assms(1), of "file\<lparr>hf_fstat := Inr (of_nat n)\<rparr>" n h name attr e0] assms(3,4) by simp
qed

theorem FAT32Copyin_error_keeps_witness:
  "\<exists>m e m' e2 m2. createFAT32 Big demo_fat (blank 32768) = Inr (0, m) \<and>
     FAT32Copyin Big \<lparr>hf_fstat = Inr 10, hf_lseek = Inr 0, hf_read = (\<lambda>n. Inr [7]), hf_errno = 4\<rparr> ''x'' 0 0 m =
       Inr (0, e, m') \<and> dir_list demo_fat m' 0 = [] \<and>
     FAT32Copyin Big \<lparr>hf_fstat = Inr 40000, hf_lseek = Inr 0, hf_read = (\<lambda>n. Inr [7]), hf_errno = 4\<rparr> ''x'' 0 0 m =
       Inr (0, EDQUOT, m2)"
proof -
  obtain m where m: "createFAT32 Big demo_fat (blank 32768) = Inr (0, m)"
    "fs_inv demo_fat 0 3 (2 * fatsz demo_fat * (bps demo_fat div 4) - 3) m"
    using create_volume [OF demo_vol(1), of "blank 32768" Big] by (auto simp: blank_def)
  let ?f = "\<lambda>n. \<lparr>hf_fstat = Inr n, hf_lseek = Inr 0, hf_read = (\<lambda>n. Inr [7]), hf_errno = 4\<rparr> :: host_file"
  have "read_fails (?f 10) 10"
    by (simp add: read_fails_def)
  then show ?thesis
    using FAT32Copyin_error_keeps [OF m(2), of "?f 10" 10 10 Big "''x''" 0 0]
      FAT32Copyin_error_keeps [OF m(2), of "?f 40000" 40000 40000 Big "''x''" 0 0] m(1) by (auto simp: dir_list_def)
qed

text \<open>
  C35: A file of 4 GiB or more is accepted although it cannot fit: its size is cut to 32 bits before it is
  checked. If the low 32 bits of the size and a slot of the directory fit, and the seek and the read of
  that many bytes succeed, the call succeeds and the volume holds only these first bytes of the file.
\<close>

theorem FAT32Copyin_truncates:
  assumes "fs_inv c d nf fc m" "hf_fstat file = Inr sz" "n = unat sz mod 2 ^ 32" "hf_lseek file = Inr 0"
    "hf_read file n = Inr bs" "length bs = n" "name_fits name" "d < roots c" "nf + clusters_for c n \<le> maxc c"
  shows "\<exists>s m' fc'. FAT32Copyin h file name attr e0 m = Inr (s, e0, m') \<and> s \<noteq> 0 \<and>
    fs_inv c (d + 1) (nf + clusters_for c n) fc' m' \<and>
    dir_list c m' (d + 1) = dir_list c m d @ [(dir_name name, ucast attr, Some bs)]"
proof -
  let ?f = "file\<lparr>hf_fstat := Inr (of_nat n)\<rparr>"
  have eq: "FAT32Copyin h file name attr e0 m = FAT32Copyin h ?f name attr e0 m"
    unfolding assms(3) by (rule FAT32Copyin_low_size [OF assms(2)])
  have "delivers ?f bs"
    using assms(3-6) by (simp add: delivers_def)
  from FAT32Copyin_ok [OF assms(1) this assms(7,8), of h attr e0] assms(6,9) show ?thesis
    unfolding eq by blast
qed

theorem FAT32Copyin_truncates_witness:
  "\<exists>m s m'. createFAT32 Little demo_fat (blank 32768) = Inr (0, m) \<and>
     FAT32Copyin Little \<lparr>hf_fstat = Inr 0x100000002, hf_lseek = Inr 0, hf_read = (\<lambda>n. Inr (replicate n 7)), hf_errno = 4\<rparr> ''x'' 0 0 m =
       Inr (s, 0, m') \<and> s \<noteq> 0 \<and> dir_list demo_fat m' 1 = [(dir_name ''x'', 0, Some [7, 7])]"
proof -
  obtain m where m: "createFAT32 Little demo_fat (blank 32768) = Inr (0, m)"
    "fs_inv demo_fat 0 3 (2 * fatsz demo_fat * (bps demo_fat div 4) - 3) m"
    using create_volume [OF demo_vol(1), of "blank 32768" Little] by (auto simp: blank_def)
  let ?f = "\<lparr>hf_fstat = Inr 0x100000002, hf_lseek = Inr 0, hf_read = (\<lambda>n. Inr (replicate n 7)), hf_errno = 4\<rparr> :: host_file"
  have sz: "2 = unat (0x100000002 :: u64) mod 2 ^ 32" by (simp add: unsigned_numeral)
  have r: "hf_fstat ?f = Inr 0x100000002" "hf_lseek ?f = Inr 0" "hf_read ?f 2 = Inr [7, 7]"
    by (simp_all add: numeral_eq_Suc)
  have p: "length [7, 7 :: u8] = 2" "name_fits ''x''" "(0 :: nat) < roots demo_fat" "3 + clusters_for demo_fat 2 \<le> maxc demo_fat"
    by (simp_all add: name_fits_def not_dot_def clusters_for_def)
  show ?thesis
    using FAT32Copyin_truncates [OF m(2) r(1) sz r(2,3) p, of Little 0 0] m(1) by (auto simp: dir_list_def)
qed

text \<open>
  C9: Formatting. On a valid configuration whose volume fits the buffer and stays below 4 GiB,
  \<open>createFAT32\<close> returns 0 and the buffer is known byte for byte: the boot sector and its copy in sector 6
  are the parameter block; \<open>FSInfo\<close> in sector 1 has its signatures and counters, its two reserved areas
  keep what the buffer held (they are not cleared, as the comments in the code say), and sector 7 is its copy; both
  allocation tables hold three reserved entries, entry 1 with the two status bits rather than an end mark, and
  are otherwise 0; the root directory is cleared; and no other byte of the buffer changes.
\<close>

theorem createFAT32_formats:
  assumes "fat_ready c m"
  shows "\<exists>m'. createFAT32 h c m = Inr (0, m') \<and> formatted c m m'"
  using assms by (rule createFAT32_ok)

theorem createFAT32_formats_witness:
  "\<exists>m'. createFAT32 Big demo_fat (blank 32768) = Inr (0, m') \<and> formatted demo_fat (blank 32768) m'"
  using createFAT32_formats [OF demo_vol(2)] .

text \<open>
  C10: The result codes of \<open>createFAT32\<close>. It returns 1, and then without touching the buffer, exactly
  for fewer than 16 sectors, a sector size that is not 512, 1024, 2048 or 4096, or a cluster size
  that is not a power of two up to 128; a valid configuration with at most two clusters does not
  return an error but ends in the failed assertion.
\<close>

theorem createFAT32_result_codes:
  "((\<exists>m'. createFAT32 h c m = Inr (1, m')) \<longleftrightarrow>
      sectors c < 16 \<or> bps c \<notin> {512, 1024, 2048, 4096} \<or> spc c \<notin> {1, 2, 4, 8, 16, 32, 64, 128}) \<and>
   (createFAT32 h c m = Inr (r, m') \<and> r \<noteq> 0 \<longrightarrow> r = 1 \<and> m' = m) \<and>
   (configIsValid c \<and> sectors c div spc c \<le> 2 \<longrightarrow> createFAT32 h c m = Inl AssertFail)"
proof -
  have bad: "\<not> configIsValid c \<longleftrightarrow>
      sectors c < 16 \<or> bps c \<notin> {512, 1024, 2048, 4096} \<or> spc c \<notin> {1, 2, 4, 8, 16, 32, 64, 128}"
    unfolding configIsValid_geometry by linarith
  have good: "createFAT32 h c m = Inl f \<or> fst (projr (createFAT32 h c m)) = 0 \<and> isl (createFAT32 h c m) = False"
    if "configIsValid c" "f = (case createFAT32 h c m of Inl f \<Rightarrow> f | Inr _ \<Rightarrow> AssertFail)" for f
    using that by (auto simp: createFAT32_def Let_def bindE_def split: sum.splits)
  have few: "createFAT32 h c m = Inl AssertFail" if "configIsValid c" "sectors c div spc c \<le> 2"
  proof -
    have "\<not> 2 < nSector c div clusterSize c"
      using that(2) by (simp add: word_less_nat_alt unat_div sectors_def spc_def)
    then show ?thesis
      using that(1) by (simp add: createFAT32_def Let_def)
  qed
  show ?thesis
    unfolding bad [symmetric] using good few
    by (cases "configIsValid c") (auto simp: createFAT32_def)
qed

theorem createFAT32_result_codes_witness:
  "createFAT32 Little (demo_fat\<lparr>clusterSize := 32\<rparr>) (blank 32768) = Inl AssertFail \<and>
   createFAT32 Little (demo_fat\<lparr>clusterSize := 3\<rparr>) (blank 32768) = Inr (1, blank 32768)"
proof -
  have "configIsValid (demo_fat\<lparr>clusterSize := 32\<rparr>)" "sectors (demo_fat\<lparr>clusterSize := 32\<rparr>) div spc (demo_fat\<lparr>clusterSize := 32\<rparr>) \<le> 2"
    "spc (demo_fat\<lparr>clusterSize := 3\<rparr>) = 3"
    by (simp_all add: configIsValid_geometry sectors_def bps_def spc_def demo_fat_def)
  note c = this
  obtain m' where m': "createFAT32 Little (demo_fat\<lparr>clusterSize := 3\<rparr>) (blank 32768) = Inr (1, m')"
    using createFAT32_result_codes [THEN conjunct1, of Little "demo_fat\<lparr>clusterSize := 3\<rparr>" "blank 32768"] c(3) by auto
  then have "m' = blank 32768"
    using createFAT32_result_codes [THEN conjunct2, THEN conjunct1, of Little _ "blank 32768" 1 m'] by auto
  then show ?thesis
    using m' c(1,2) createFAT32_result_codes [THEN conjunct2, THEN conjunct2, of "demo_fat\<lparr>clusterSize := 32\<rparr>" Little "blank 32768"]
    by auto
qed

text \<open>
  C11: Mounting what was formatted. The super block that \<open>FAT32SuperInit\<close> reads back from a
  freshly formatted volume, on a host of either byte order, has exactly the configured geometry:
  sector, cluster and table sizes, the regions, both table addresses, the root directory address
  and capacity, and an empty directory.
\<close>

theorem mount_after_format:
  assumes "vol c" "sectors c * bps c \<le> msize m"
  shows "\<exists>m'. createFAT32 h c m = Inr (0, m') \<and> FAT32SuperInit h' m' = Inr (super c 0)"
  using create_volume [OF assms, of h] SuperInit_ok by blast

theorem mount_after_format_witness:
  "\<exists>m'. createFAT32 Little demo_fat (blank 32768) = Inr (0, m') \<and> FAT32SuperInit Big m' = Inr (super demo_fat 0)"
  using mount_after_format [OF demo_vol(1), of "blank 32768"] by (simp add: blank_def)



lemma take_bit_small: "unat w < 2 ^ n \<Longrightarrow> take_bit n w = (w :: 'a::len word)"
  by (simp add: word_unat_eq_iff unsigned_take_bit_eq take_bit_nat_eq_self)

lemma and_mask_small:
  "(w :: u16) AND 0x1F = take_bit 5 w" "w AND 0xF = take_bit 4 w" "w AND 0x7F = take_bit 7 w"
  "w AND 0x3F = take_bit 6 w"
  by (simp_all add: take_bit_eq_mask mask_eq_exp_minus_1)

lemma FAT32Date_fields:
  "drop_bit 9 (FAT32Date year month day) = take_bit 7 (year - 1980)"
  "take_bit 4 (drop_bit 5 (FAT32Date year month day)) = take_bit 4 month"
  "take_bit 5 (FAT32Date year month day) = take_bit 5 day"
  unfolding FAT32Date_def Let_def and_mask_small
  by (rule bit_word_eqI; auto simp: bit_simps)+

lemma FAT32Time_fields:
  "drop_bit 11 (FAT32Time hour minute sec) = take_bit 5 hour"
  "take_bit 6 (drop_bit 5 (FAT32Time hour minute sec)) = take_bit 6 minute"
  "take_bit 5 (FAT32Time hour minute sec) = take_bit 5 (drop_bit 1 sec)"
  unfolding FAT32Time_def Let_def and_mask_small
  by (rule bit_word_eqI; auto simp: bit_simps)+

lemma push_drop_bit: "push_bit n (drop_bit n w) = (w :: 'a::len word) AND NOT (mask n)"
  by (rule bit_word_eqI) (auto simp: bit_simps)

text \<open>
  Dates and times. For every calendar date from 1980 to 2107 and every time of day, the fields
  of the encoded words give the date back exactly and the time with the seconds rounded down to an
  even number.
\<close>

theorem FAT32Date_Time_roundtrip:
  assumes "1980 \<le> year" "year \<le> 2107" "month \<le> 12" "day \<le> 31"
    and "hour \<le> 23" "minute \<le> 59" "sec \<le> 59"
  shows "drop_bit 9 (FAT32Date year month day) + 1980 = year \<and>
    drop_bit 5 (FAT32Date year month day) AND 0xF = month \<and> FAT32Date year month day AND 0x1F = day \<and>
    drop_bit 11 (FAT32Time hour minute sec) = hour \<and> drop_bit 5 (FAT32Time hour minute sec) AND 0x3F = minute \<and>
    push_bit 1 (FAT32Time hour minute sec AND 0x1F) = sec AND NOT 1"
proof -
  have "unat (year - 1980) < 2 ^ 7"
    using assms(1,2) by (subst unat_sub_ok) (simp_all add: word_le_nat_alt)
  moreover have "unat month < 2 ^ 4" "unat day < 2 ^ 5" "unat hour < 2 ^ 5" "unat minute < 2 ^ 6" "unat sec < 2 ^ 6"
    using assms(3-) by (simp_all add: word_le_nat_alt)
  moreover from this(5) have "push_bit 1 (take_bit 5 (drop_bit 1 sec)) = sec AND NOT 1"
    using push_drop_bit [of 1 sec] by (subst take_bit_small) (simp_all add: drop_bit_eq_div unat_div)
  ultimately show ?thesis
    unfolding and_mask_small FAT32Date_fields FAT32Time_fields by (simp add: take_bit_small)
qed

theorem FAT32Date_Time_roundtrip_witness:
  "drop_bit 9 (FAT32Date 1995 2 21) + 1980 = 1995 \<and> drop_bit 5 (FAT32Date 1995 2 21) AND 0xF = 2 \<and>
   push_bit 1 (FAT32Time 8 30 25 AND 0x1F) = 24"
  using FAT32Date_Time_roundtrip [of 1995 2 21 8 30 25] by simp

section \<open>Free space\<close>

lemma formatted_free:
  assumes "vol c" "formatted c m m'" "3 \<le> k" "k < fatsz c * (bps c div 4)"
  shows "fat_entry c m' 0 k = 0"
proof -
  let ?n = "fatsz c * bps c"
  have n: "4 * k + 4 \<le> ?n"
  proof -
    have "4 * (k + 1) \<le> fatsz c * (bps c div 4 * 4)"
      using assms(4) by simp
    also have "bps c div 4 * 4 = bps c"
      using vol_bps [OF assms(1)] by auto
    finally show ?thesis by simp
  qed
  have "peek m' (table_at c 0 + 12) (?n - 12) = replicate (?n - 12) 0"
    using formatted_pieces [OF assms(1,2)] by (simp add: table_pieces_def add.commute [of 12])
  then have z: "mbyte m' (table_at c 0 + 12 + i) = 0" if "i < ?n - 12" for i
    using that by (simp add: peek_replicate)
  have "mbyte m' (table_at c 0 + 4 * k + j) = 0" if "j < 4" for j
    using z [of "4 * k - 12 + j"] that n assms(3) by (simp add: add.assoc)
  then have "peek m' (table_at c 0 + 4 * k) 4 = replicate 4 0"
    by (simp add: peek_replicate)
  moreover have "(le_dec (replicate 4 0) :: u32) = 0"
    by code_simp
  ultimately show ?thesis
    by (simp add: fat_entry_def)
qed

lemma formatted_reserved:
  assumes "vol c" "formatted c m m'" "k < 3"
  shows "fat_entry c m' 0 k \<noteq> 0"
proof -
  have "pieces_at m' (table_at c 0) (table_pieces (media c) (fatsz c * bps c))"
    using formatted_pieces [OF assms(1,2)] .
  then have "fat_entry c m' 0 0 = 0xFFFF00 OR media c"
    "fat_entry c m' 0 1 = FAT32_CHUNK_SHUT_BITMASK OR FAT32_HDR_ERROR_BITMASK" "fat_entry c m' 0 2 = 0xFFFFFFFF"
    by (simp_all add: fat_entry_def table_pieces_def add.commute [of 8])
  moreover have "0xFFFF00 OR media c \<noteq> 0" "FAT32_CHUNK_SHUT_BITMASK OR FAT32_HDR_ERROR_BITMASK \<noteq> 0"
    by (simp_all add: media_def FAT32_CHUNK_SHUT_BITMASK_def FAT32_HDR_ERROR_BITMASK_def)
  moreover have "k = 0 \<or> k = 1 \<or> k = 2"
    using assms(3) by auto
  ultimately show ?thesis by auto
qed

lemma mounted_freeCount:
  assumes "fs_inv c d nf fc m"
  shows "get32 h FSInfo_layout (bps c) ''freeCount'' m = Inr (of_nat fc)"
    "get32 h FSInfo_layout (bps c) ''nextFree'' m = Inr (of_nat nf)"
proof -
  have v: "vol c" and i: "sectors c * bps c \<le> msize m" "peek m (bps c + 488) 4 = le_enc 4 (of_nat fc :: u32)"
    "peek m (bps c + 492) 4 = le_enc 4 (of_nat nf :: u32)"
    using assms by (simp_all add: fs_inv_def)
  have "2 * bps c \<le> sectors c * bps c"
    using vol_sectors(1) [OF v] by simp
  moreover have "512 \<le> bps c"
    using vol_bps [OF v] by auto
  ultimately have "bps c + 496 \<le> msize m"
    using i(1) by linarith
  then show "get32 h FSInfo_layout (bps c) ''freeCount'' m = Inr (of_nat fc)"
    "get32 h FSInfo_layout (bps c) ''nextFree'' m = Inr (of_nat nf)"
    using i(2,3) by (simp_all add: get32_ok)
qed

text \<open>
  The free-cluster count that \<open>createFAT32\<close> records is wrong: it counts the entries of both
  allocation tables, so it is more than twice the number of table entries that are free, for every
  volume.
\<close>

theorem freeCount_counts_both_tables:
  assumes "vol c" "sectors c * bps c \<le> msize m"
  shows "\<exists>m' fr. createFAT32 h c m = Inr (0, m') \<and> get32 h FSInfo_layout (bps c) ''freeCount'' m' = Inr fr \<and>
    unat fr = 2 * card {k. k < fatsz c * (bps c div 4) \<and> fat_entry c m' 0 k = 0} + 3"
proof -
  obtain m' where m': "createFAT32 h c m = Inr (0, m')" "formatted c m m'"
    "fs_inv c 0 3 (2 * fatsz c * (bps c div 4) - 3) m'"
    using create_volume [OF assms, of h] by blast
  define e where "e = fatsz c * (bps c div 4)"
  have e2: "2 * fatsz c * (bps c div 4) = 2 * e"
    by (simp add: e_def)
  have "k < e \<and> fat_entry c m' 0 k = 0 \<longleftrightarrow> k \<in> {3..<e}" for k
    unfolding e_def using formatted_free [OF assms(1) m'(2), of k] formatted_reserved [OF assms(1) m'(2), of k]
    by (cases "k < 3") auto
  then have "{k. k < e \<and> fat_entry c m' 0 k = 0} = {3..<e}"
    by blast
  then have "card {k. k < e \<and> fat_entry c m' 0 k = 0} = e - 3"
    by simp
  moreover have "3 \<le> e"
  proof -
    have "maxc c \<le> sectors c div spc c"
      by (simp add: maxc_def div_le_mono)
    then show ?thesis
      using fatsz_covers [of c] assms(1) by (simp add: vol_def e_def)
  qed
  moreover have "2 * e - 3 < 2 ^ 32"
    using m'(3) by (simp add: fs_inv_def e_def mult.assoc)
  ultimately have "unat (of_nat (2 * e - 3) :: u32) = 2 * card {k. k < e \<and> fat_entry c m' 0 k = 0} + 3"
    by (subst unat_of_nat_ok) simp_all
  then show ?thesis
    using m'(1) mounted_freeCount(1) [OF m'(3), of h] unfolding e2 e_def by blast
qed

theorem freeCount_counts_both_tables_witness:
  "\<exists>m' fr. createFAT32 Little demo_fat (blank 32768) = Inr (0, m') \<and>
     get32 Little FSInfo_layout 512 ''freeCount'' m' = Inr fr \<and>
     unat fr = 2 * card {k. k < 128 \<and> fat_entry demo_fat m' 0 k = 0} + 3"
  using freeCount_counts_both_tables [OF demo_vol(1), of "blank 32768" Little] by (simp add: blank_def)

text \<open>
  An empty file needs no cluster, yet it is given one: on a volume whose clusters are all
  allocated, copying in an empty file passes both size checks and then ends in the failed
  assertion of \<open>FAT32SuperWriteEntry\<close>, after the directory entry has been written.
\<close>

theorem empty_file_on_full_volume:
  assumes "fs_inv c d (maxc c) fc m" "delivers file []" "name_fits name" "d < roots c"
  shows "FAT32Copyin h file name attr e0 m = Inl AssertFail"
proof -
  have v: "vol c" and sz: "sectors c * bps c \<le> msize m" and nf: "3 \<le> maxc c"
    and zero: "mbyte m (dirent_at c d) = 0"
    using assms(1,4) by (simp_all add: fs_inv_def)
  have n: "hf_fstat file = Inr (of_nat 0)"
    using assms(2) by (simp add: delivers_def)
  note aw = alloc_words [OF v nf order_refl, of 0]
  have b: "(bpc c - 1) div bpc c = 0"
    using vol_bpc(1) [OF v] by simp
  note r = copyin_addr(1) [OF v nf order_refl aw(6), of d]
  have fit: "cluster_at c (maxc c) \<le> msize m"
    using cluster_run_end [OF v, of "maxc c" 0] nf sz by simp
  have rdf: "read_file file (Some (cluster_at c (maxc c))) (CDIV 0 (of_nat (bpc c)) * of_nat (bpc c)) 0 m = Inr (Inr (), m)"
    using read_file_ok [OF assms(2), of 0 "CDIV 0 (of_nat (bpc c)) * of_nat (bpc c)" "cluster_at c (maxc c)" m] fit aw(3) b
    by simp
  have dw: "unat (of_nat d :: u32) = d"
    using assms(4) vol_bpc [OF v] by (intro unat_of_nat_ok) simp
  have "dirent_at c d + 32 \<le> msize m"
    using root_below_clusters(1) [OF v assms(4)] root_below_clusters(2) [OF v nf] fit by linarith
  then obtain m2 where m2: "write_dirent h (data_at c + 32 * d) name attr (of_nat (maxc c)) 0 m = Inr m2"
    using write_dirent_ok [of m "dirent_at c d" name h attr "of_nat (maxc c)" 0] zero assms(3)
    by (auto simp: dirent_at_def)
  have "link_clusters h (super c d) 0 (of_nat (maxc c)) m2 = Inl AssertFail"
    by (simp add: FAT32SuperWriteEntry_def super_def)
  then have "copyin_commit h (super c d) (bps c) name attr 0 (CDIV 0 (of_nat (bpc c))) (of_nat (maxc c)) (of_nat fc) m =
      Inl AssertFail"
    using m2 aw(1) b by (simp add: copyin_commit_def super_def deref_def dw)
  then show ?thesis
    using rdf r assms(4) by (simp add: copyin_start [OF assms(1) n] Let_def del: of_nat_mult)
qed


theorem empty_file_on_full_volume_witness:
  "\<exists>m. createFAT32 Little (demo_fat\<lparr>nSector := 16, clusterSize := 2\<rparr>) (blank 8192) = Inr (0, m) \<and>
     FAT32Copyin Little (demo_file []) ''e'' 0 0 m = Inl AssertFail"
proof -
  let ?c = "demo_fat\<lparr>nSector := 16, clusterSize := 2\<rparr>"
  have g: "sectors ?c = 16" "bps ?c = 512" "spc ?c = 2" "fatsz ?c = 1" "maxc ?c = 3" "roots ?c = 32"
    by (simp_all add: sectors_def bps_def spc_def fatsz_def maxc_def roots_def bpc_def demo_fat_def)
  then have "vol ?c"
    by (simp add: vol_def configIsValid_geometry)
  then obtain m fc where m: "createFAT32 Little ?c (blank 8192) = Inr (0, m)" "fs_inv ?c 0 (maxc ?c) fc m"
    using create_volume [of ?c "blank 8192" Little] g by (auto simp: blank_def)
  moreover have "name_fits ''e''"
    by (simp add: name_fits_def not_dot_def)
  ultimately show ?thesis
    using empty_file_on_full_volume [OF m(2) demo_delivers [of "[]"]] g by auto
qed

section \<open>Addresses computed from the parameter block\<close>

lemma native_fields:
  assumes "vol c" "sectors c * bps c \<le> msize m" "formatted c m m'"
  shows "get_native Little BPB_layout 0 ''rootEntryCount'' m' = Inr (0 :: u32)"
    "get_native Little BPB_layout 0 ''fatSize16'' m' = Inr (0 :: u32)"
    "get_native Little BPB_layout 0 ''fatSize32'' m' = Inr (of_nat (fatsz c) :: u32)"
    "get_native Little BPB_layout 0 ''numSectors16'' m' = Inr (0 :: u32)"
    "get_native Little BPB_layout 0 ''numSectors32'' m' = Inr (of_nat (sectors c) :: u32)"
    "get_native Little BPB_layout 0 ''numReservedSectors'' m' = Inr (8 :: u32)"
    "get_native Little BPB_layout 0 ''numAllocTable'' m' = Inr (2 :: u32)"
    "get_native Little BPB_layout 0 ''bytesPerSector'' m' = Inr (of_nat (bps c) :: u32)"
proof -
  have sz: "512 \<le> msize m'"
    using assms vol_bps [of c] vol_sectors [of c] mult_le_mono [of 1 "sectors c" 512 "bps c"]
    by (auto simp: formatted_def)
  have "peek m' 0 512 = concat (bpb_fields c)"
    using assms(3) by (simp add: formatted_def)
  then have p: "pieces_at m' 0 (bpb_fields c)"
    by (simp add: peek_concat)
  have e: "(le_dec (le_enc 2 (8 :: u64)) :: u32) = 8" "(le_dec (le_enc 1 (2 :: u64)) :: u32) = 2"
    "(le_dec (le_enc 2 (0 :: u64)) :: u32) = 0" "(le_dec (replicate 2 0) :: u32) = 0"
    by code_simp+
  have "(le_dec (le_enc 2 (bytesPerSector c)) :: u32) = of_nat (bps c)"
    using vol_bps [OF assms(1)] fs_inv_word_facts [OF assms(1)] by (auto simp: config_words le_dec_enc_small)
  then show "get_native Little BPB_layout 0 ''rootEntryCount'' m' = Inr (0 :: u32)"
    "get_native Little BPB_layout 0 ''fatSize16'' m' = Inr (0 :: u32)"
    "get_native Little BPB_layout 0 ''fatSize32'' m' = Inr (of_nat (fatsz c) :: u32)"
    "get_native Little BPB_layout 0 ''numSectors16'' m' = Inr (0 :: u32)"
    "get_native Little BPB_layout 0 ''numSectors32'' m' = Inr (of_nat (sectors c) :: u32)"
    "get_native Little BPB_layout 0 ''numReservedSectors'' m' = Inr (8 :: u32)"
    "get_native Little BPB_layout 0 ''numAllocTable'' m' = Inr (2 :: u32)"
    "get_native Little BPB_layout 0 ''bytesPerSector'' m' = Inr (of_nat (bps c) :: u32)"
    using sz p e
    by (simp_all add: get_native_def val_def bpb_fields_def config_words(3) del: le_enc.simps replicate.simps)
qed

lemma pack_halves:
  "drop_bit 32 (push_bit 32 (ucast (a :: u32)) OR ucast (b :: u32) :: u64) = ucast a"
  "take_bit 32 (push_bit 32 (ucast (a :: u32)) OR ucast (b :: u32) :: u64) = ucast b"
  by (rule bit_word_eqI; auto simp: bit_simps dest: bit_imp_le_length)+

text \<open>
  On a little-endian host the two address helpers agree with the mounted volume:
  \<open>numSectorDataRegion\<close> is the size of the data region, and \<open>clusterToFATEntry\<close> gives the sector
  and the offset in it of the very table entry that \<open>FAT32SuperReadEntry\<close> reads.
\<close>

theorem FAT_address_helpers:
  assumes "vol c" "sectors c * bps c \<le> msize m" "k < maxc c"
  shows "\<exists>m' r. createFAT32 Little c m = Inr (0, m') \<and>
    numSectorDataRegion Little 0 m' = Inr (of_nat (sectors c - 8 - 2 * fatsz c)) \<and>
    clusterToFATEntry Little 0 (of_nat k) m' = Inr r \<and>
    FAT32SuperReadEntry Little (super c 0) (of_nat k) m' =
      get_entry Little (unat (drop_bit 32 r) * bps c + unat (take_bit 32 r)) 0 m'"
proof -
  obtain m' where m': "createFAT32 Little c m = Inr (0, m')" "formatted c m m'"
    using create_volume [OF assms(1,2), of Little] by blast
  note f = native_fields [OF assms(1,2) m'(2)] and w = fs_inv_word_facts [OF assms(1)]
    and n = vol_sectors [OF assms(1)]
  have ds: "of_nat (sectors c) - (8 + of_nat (fatsz c) * 2 + 0 :: u32) = of_nat (sectors c - 8 - 2 * fatsz c)"
    using n(1) by (simp add: of_nat_diff algebra_simps)
  have dsw: "unat (of_nat (sectors c - 8 - 2 * fatsz c) :: u32) = sectors c - 8 - 2 * fatsz c"
    using n(3) by (intro unat_of_nat_ok) simp
  have "(of_nat (sectors c - 8 - 2 * fatsz c) :: u32) < of_nat (sectors c)"
    using n(1,3) unfolding word_less_nat_alt dsw w by simp
  then have data: "numSectorDataRegion Little 0 m' = Inr (of_nat (sectors c - 8 - 2 * fatsz c))"
    using ds by (simp add: numSectorDataRegion_def f Let_def)
  define sec off where "sec = 8 + (of_nat k * 4) div (of_nat (bps c) :: u32)"
    and "off = (of_nat k * 4) mod (of_nat (bps c) :: u32)"
  have nz: "(of_nat (fatsz c) :: u32) \<noteq> 0" "(of_nat (bps c) :: u32) \<noteq> 0"
    using n(4) vol_bps [OF assms(1)] w by (auto simp: word_unat_eq_iff)
  have run: "clusterToFATEntry Little 0 (of_nat k) m' = Inr (push_bit 32 (ucast sec) OR ucast off)"
    using nz by (simp add: clusterToFATEntry_def f Let_def sec_def off_def)
  have k: "unat (of_nat k :: u32) = k" "k < 2 ^ 23"
    using assms(3) n(5) by (auto intro!: unat_of_nat_ok)
  then have k4: "unat (of_nat k * 4 :: u32) = k * 4"
    by (subst unat_mult_ok) simp_all
  have "8 + k * 4 < 2 ^ 32"
    using k(2) by simp
  then have "8 + k * 4 div bps c < 2 ^ 32"
    using le_less_trans [of "8 + k * 4 div bps c" "8 + k * 4" "2 ^ 32"] by simp
  then have "unat sec = 8 + k * 4 div bps c"
    unfolding sec_def by (subst unat_add_ok) (simp_all add: unat_div k4 w)
  moreover have "unat off = k * 4 mod bps c"
    by (simp add: off_def unat_mod k4 w)
  ultimately have "unat sec * bps c + unat off = table_at c 0 + 4 * k"
    using div_mult_mod_eq [of "k * 4" "bps c"] by (simp add: table_at_def algebra_simps)
  moreover have "FAT32SuperReadEntry Little (super c 0) (of_nat k) m' = get_entry Little (table_at c 0) k m'"
    using assms(3) k by (simp add: FAT32SuperReadEntry_def super_def deref_def word_less_nat_alt w)
  moreover define r :: u64 where "r = push_bit 32 (ucast sec) OR ucast off"
  have "unat (drop_bit 32 r) = unat sec" "unat (take_bit 32 r) = unat off"
    unfolding r_def pack_halves using unsigned_less [of sec, where 'a = nat] unsigned_less [of off, where 'a = nat]
    by (simp_all add: unsigned_ucast_eq take_bit_nat_eq_self)
  ultimately show ?thesis
    using m'(1) data run by (intro exI [of _ m'] exI [of _ r]) (simp add: get_entry_def r_def [symmetric])
qed

theorem FAT_address_helpers_witness:
  "\<exists>m' r. createFAT32 Little demo_fat (blank 32768) = Inr (0, m') \<and>
     clusterToFATEntry Little 0 2 m' = Inr r \<and>
     FAT32SuperReadEntry Little (super demo_fat 0) 2 m' =
       get_entry Little (unat (drop_bit 32 r) * 512 + unat (take_bit 32 r)) 0 m'"
  using FAT_address_helpers [OF demo_vol(1), of "blank 32768" 2] by (auto simp: blank_def)

end
