(* ===== verification/Installers.thy ===== *)
theory Installers
  imports Gpt Fat
begin

text \<open>
  The two programs that build a bootable disk, \<open>gpt/mkgpt.c\<close> and \<open>gpt/installer.c\<close>, with the
  small helpers \<open>gpt/blockdev.c\<close> and \<open>gpt/init.c\<close>. They compose the partition table generator
  and the FAT32 component on one image. What the operating system answers (open, mmap, fstat, read,
  write, the files of \<open>/sys\<close>) is a parameter.
\<close>

unbundle bit_operations_syntax

section \<open>A pointer into the image\<close>

text \<open>
  The FAT routines get the address of the first partition. \<open>view\<close> is the image seen from there, and
  \<open>on_part\<close> runs a routine on it and puts the bytes back.
\<close>

definition view :: "nat \<Rightarrow> mem \<Rightarrow> mem" where
  "view base m = \<lparr>msize = msize m - base, mbyte = (\<lambda>i. mbyte m (base + i))\<rparr>"

definition unview :: "nat \<Rightarrow> mem \<Rightarrow> mem \<Rightarrow> mem" where
  "unview base v m = m\<lparr>mbyte := (\<lambda>i. if base \<le> i then mbyte v (i - base) else mbyte m i)\<rparr>"

definition on_part :: "nat \<Rightarrow> (mem \<Rightarrow> ('a \<times> mem) res) \<Rightarrow> mem \<Rightarrow> ('a \<times> mem) res" where
  "on_part base f m = bindE (f (view base m)) (\<lambda>(x, v). Inr (x, unview base v m))"

section \<open>mkgpt\<close>

definition disk_size :: nat where
  "disk_size = 1024 * 1024 * 256"

definition mkgpt_volume :: u64 where
  "mkgpt_volume = of_nat (disk_size div GPT_SECTOR_SIZE)"

definition boot_partition :: "u64 \<Rightarrow> PartitionConfig" where
  "boot_partition volume =
     \<lparr>partType = EFI_SYSTEM_PARTITION, partId = myDiskID, pname = ''Boot Partition'', pvolume = volume, startLBA = 0\<rparr>"

definition fs_partition :: "u64 \<Rightarrow> PartitionConfig" where
  "fs_partition volume =
     \<lparr>partType = EFI_SYSTEM_PARTITION, partId = myDiskID, pname = ''Filesystem'', pvolume = volume, startLBA = 0\<rparr>"

definition two_partitions :: "u64 \<Rightarrow> u64 \<Rightarrow> GPTConfig" where
  "two_partitions volume boot =
     \<lparr>gvolume = volume, numPart = 2,
      partitions = [boot_partition boot, fs_partition (volume - 5 - boot)], diskId = myDiskID\<rparr>"

definition mkgpt_config :: GPTConfig where
  "mkgpt_config = two_partitions mkgpt_volume 262140"

definition boot_fat :: "u64 \<Rightarrow> FATConfig" where
  "boot_fat volume =
     \<lparr>nSector = ucast volume, bytesPerSector = of_nat GPT_SECTOR_SIZE, clusterSize = 8,
      writeRandomData = False, isFixed = True\<rparr>"

definition sysFlag :: u32 where
  "sysFlag = FAT_ATTR_READ_ONLY OR FAT_ATTR_SYSTEM"

text \<open>
  The files that are copied in: the macro that records the start sector, the host path, the name in
  the root directory and the attributes.
\<close>

definition mkgpt_files :: "(string \<times> string \<times> string \<times> u32) list" where
  "mkgpt_files =
     [(''BOOTLOADER_OFFSET'', ''../bootloader/linuz.bin'', ''linuz'', sysFlag),
      (''KERNEL_OFFSET'', ''../bootloader/kernel'', ''kernel'', sysFlag),
      (''BUSYBOX_OFFSET'', ''/usr/bin/busybox'', ''busybox'', FAT_ATTR_READ_ONLY),
      (''INIT_OFFSET'', ''init'', ''init'', FAT_ATTR_READ_ONLY)]"

text \<open>
  The host: whether \<open>a.img\<close> opens, the anonymous \<open>mmap\<close> succeeds and the final \<open>write\<close> is
  complete; the files by path (a file that does not open is one whose \<open>fstat\<close> fails); and what
  reading 440 bytes of \<open>mbr.img\<close> delivers.
\<close>

record host =
  opens :: bool
  maps :: bool
  writes_all :: bool
  host_path :: "string \<Rightarrow> host_file"
  mbr_code :: "int + u8 list"

fun copy_files ::
  "endian \<Rightarrow> host \<Rightarrow> nat \<Rightarrow> (string \<times> string \<times> string \<times> u32) list \<Rightarrow> int \<Rightarrow> mem \<Rightarrow>
   ((string \<times> u32) list \<times> mem) res" where
  "copy_files h env base [] e m = Inr ([], m)"
| "copy_files h env base ((macro, path, name, attr) # fs) e m =
     bindE (on_part base
         (\<lambda>v. bindE (FAT32Copyin h (host_path env path) name attr e v) (\<lambda>(s, e, v). Inr ((s, e), v))) m)
       (\<lambda>((s, e), m). bindE (copy_files h env base fs e m) (\<lambda>(defs, m). Inr ((macro, s) # defs, m)))"

definition copy_mbr :: "host \<Rightarrow> mem \<Rightarrow> mem res" where
  "copy_mbr env m = (case mbr_code env of Inl e \<Rightarrow> Inr m | Inr bs \<Rightarrow> wr 0 (take 440 bs) m)"

text \<open>
  \<open>main\<close> of mkgpt: the exit code, the numbers printed into \<open>config.h\<close>, and the image written to
  \<open>a.img\<close>. The result of \<open>createFAT32\<close> is ignored, as in the code.
\<close>

definition mkgpt_main ::
  "endian \<Rightarrow> host \<Rightarrow> (int \<times> (string \<times> u64) list \<times> (string \<times> u32) list \<times> mem option) res" where
  "mkgpt_main h env =
     (if \<not> opens env \<or> \<not> maps env then Inr (1, [], [], None)
      else
        bindE (GPTGenerate h mkgpt_config (blank disk_size)) (\<lambda>(n, pc, m).
        if numPart mkgpt_config \<noteq> n then Inr (1, [], [], None)
        else
          let starts = [(''PARTITION_0_START'', startLBA (pc ! 0)), (''PARTITION_1_START'', startLBA (pc ! 1))];
              base = unat (of_nat GPT_SECTOR_SIZE * startLBA (pc ! 0))
          in
            bindE (on_part base (createFAT32 h (boot_fat (pvolume (pc ! 0)))) m) (\<lambda>(_, m).
            bindE (copy_files h env base mkgpt_files 0 m) (\<lambda>(offsets, m).
            bindE (copy_mbr env m) (\<lambda>m.
              if \<not> writes_all env then Inr (1, starts, offsets, None)
              else Inr (0, starts, offsets, Some m))))))"

section \<open>installer\<close>

fun basename_from :: "string \<Rightarrow> string \<Rightarrow> string" where
  "basename_from ret [] = ret"
| "basename_from ret (c # cs) = basename_from (if c = CHR ''/'' then c # cs else ret) cs"

definition basename :: "string \<Rightarrow> string" where
  "basename path = basename_from path path"

text \<open>
  \<open>fstat\<close> of the destination: its error, or mode and size. For a block device the size in sectors is
  read from a file of \<open>/sys\<close>, a parameter that maps its path to the number found there.
\<close>

definition S_IFREG :: u32 where "S_IFREG = 0x8000"
definition S_IFBLK :: u32 where "S_IFBLK = 0x6000"
definition S_IFMT :: u32 where "S_IFMT = 0xF000"

datatype size_result = Size u64 | Die string | NotADisk

definition sys_path :: "string \<Rightarrow> string" where
  "sys_path name = ''/sys/class/block/'' @ name @ ''/size''"

definition fdsize :: "(unit + u32 \<times> u64) \<Rightarrow> (string \<Rightarrow> u64 option) \<Rightarrow> string \<Rightarrow> size_result" where
  "fdsize st sysfs path =
     (case st of
        Inl _ \<Rightarrow> Die ''fstat''
      | Inr (mode, st_size) \<Rightarrow>
          if mode AND S_IFREG = S_IFREG then Size st_size
          else if mode AND S_IFMT = S_IFBLK then
            (case sysfs (sys_path (basename path)) of None \<Rightarrow> Die ''fopen'' | Some ret \<Rightarrow> Size (ret * 512))
          else NotADisk)"

text \<open>\<open>gpt/blockdev.c\<close>: the same number in sectors; a missing file is dereferenced as null.\<close>

definition sizeOfBlockdev :: "(string \<Rightarrow> u64 option) \<Rightarrow> string \<Rightarrow> u64 res" where
  "sizeOfBlockdev sysfs name =
     (case sysfs (sys_path name) of None \<Rightarrow> Inl NullDeref | Some ret \<Rightarrow> Inr ret)"

text \<open>\<open>mkpart\<close>: \<open>None\<close> when the program ends with an error message.\<close>

definition mkpart :: "endian \<Rightarrow> u64 \<Rightarrow> u64 \<Rightarrow> mem \<Rightarrow> (PartitionConfig list \<times> mem) option res" where
  "mkpart h disk boot_size m =
     (let volume = disk div of_nat GPT_SECTOR_SIZE;
          boot_size = boot_size * (1024 * 1024) in
      if disk < boot_size + of_nat GPT_SECTOR_SIZE * 64 then Inr None
      else
        bindE (GPTGenerate h (two_partitions volume (boot_size div of_nat GPT_SECTOR_SIZE)) m) (\<lambda>(n, pc, m).
        if 2 \<noteq> n then Inr None else Inr (Some (pc, m))))"

text \<open>\<open>copyin\<close>: \<open>None\<close> when the file does not open or the copy returns 0.\<close>

definition copyin :: "endian \<Rightarrow> host_file option \<Rightarrow> nat \<Rightarrow> string \<Rightarrow> mem \<Rightarrow> (u32 \<times> mem) option res" where
  "copyin h file base name m =
     (case file of
        None \<Rightarrow> Inr None
      | Some f \<Rightarrow>
          bindE (on_part base (\<lambda>v. bindE (FAT32Copyin h f name sysFlag 0 v) (\<lambda>(s, e, v). Inr (s, v))) m) (\<lambda>(s, m).
            if s = 0 then Inr None else Inr (Some (s, m))))"

text \<open>The options of \<open>main\<close>. A loop iteration that matches no option does not advance.\<close>

record options =
  path_bzimage :: "string option"
  path_busybox :: "string option"
  dst :: "string option"
  boot_size :: u64
  print_help :: bool

definition no_options :: options where
  "no_options = \<lparr>path_bzimage = None, path_busybox = None, dst = None, boot_size = 64, print_help = False\<rparr>"

text \<open>\<open>argv[i + 1]\<close> past the last argument is the terminating null pointer; \<open>atoi\<close> crashes on it.\<close>

fun parse_options :: "(string \<Rightarrow> u64) \<Rightarrow> string list \<Rightarrow> options \<Rightarrow> options res" where
  "parse_options atoi [] o0 = Inr o0"
| "parse_options atoi (cur # rest) o0 =
     (if cur = ''-h'' \<or> cur = ''--help'' then Inr (o0\<lparr>print_help := True\<rparr>)
      else if cur = ''-k'' then
        (case rest of [] \<Rightarrow> Inr (o0\<lparr>path_bzimage := None\<rparr>) | a # as \<Rightarrow> parse_options atoi as (o0\<lparr>path_bzimage := Some a\<rparr>))
      else if cur = ''-d'' then
        (case rest of [] \<Rightarrow> Inr (o0\<lparr>dst := None\<rparr>) | a # as \<Rightarrow> parse_options atoi as (o0\<lparr>dst := Some a\<rparr>))
      else if cur = ''-s'' then
        (case rest of [] \<Rightarrow> Inl NullDeref | a # as \<Rightarrow> parse_options atoi as (o0\<lparr>boot_size := atoi a\<rparr>))
      else if cur = ''-busybox'' then
        (case rest of [] \<Rightarrow> Inr (o0\<lparr>path_busybox := None\<rparr>) | a # as \<Rightarrow> parse_options atoi as (o0\<lparr>path_busybox := Some a\<rparr>))
      else Inl Diverge)"

datatype install_error = Usage | Help | DestFails | MmapFails | PartFails | CopyFails | MbrFails

record target =
  t_stat :: "(unit + u32 \<times> u64) option"
  t_sysfs :: "string \<Rightarrow> u64 option"
  t_maps :: "u64 \<Rightarrow> mem option"
  t_files :: "string \<Rightarrow> host_file option"
  t_mbr :: "int + u8 list"

fun copyin_all :: "endian \<Rightarrow> target \<Rightarrow> nat \<Rightarrow> (string \<times> string) list \<Rightarrow> mem \<Rightarrow> (u32 list \<times> mem) option res" where
  "copyin_all h t base [] m = Inr (Some ([], m))"
| "copyin_all h t base ((path, name) # fs) m =
     bindE (copyin h (t_files t path) base name m) (\<lambda>r.
       case r of None \<Rightarrow> Inr None
       | Some (s, m) \<Rightarrow> bindE (copyin_all h t base fs m) (\<lambda>r.
           case r of None \<Rightarrow> Inr None | Some (ss, m) \<Rightarrow> Inr (Some (s # ss, m))))"

definition installer_run ::
  "endian \<Rightarrow> target \<Rightarrow> string \<Rightarrow> string \<Rightarrow> string \<Rightarrow> u64 \<Rightarrow> (install_error + u32 list \<times> mem) res" where
  "installer_run h t bzimage busybox dest mib =
     (case t_stat t of
        None \<Rightarrow> Inr (Inl DestFails)
      | Some st \<Rightarrow>
          case fdsize st (t_sysfs t) dest of
            Die _ \<Rightarrow> Inr (Inl DestFails)
          | NotADisk \<Rightarrow> Inr (Inl DestFails)
          | Size n \<Rightarrow>
              let disk = n div 4096 * 4096 in
              case t_maps t disk of
                None \<Rightarrow> Inr (Inl MmapFails)
              | Some m \<Rightarrow>
                  bindE (mkpart h disk mib m) (\<lambda>r.
                  case r of None \<Rightarrow> Inr (Inl PartFails)
                  | Some (pc, m) \<Rightarrow>
                      let base = unat (of_nat GPT_SECTOR_SIZE * startLBA (pc ! 0)) in
                      bindE (on_part base (createFAT32 h (boot_fat (pvolume (pc ! 0)))) m) (\<lambda>(_, m).
                      bindE (copyin_all h t base
                        [(''linuz.bin'', ''loader''), (bzimage, ''kernel''), (busybox, ''busybox''),
                         (''init.elf'', ''init'')] m) (\<lambda>r.
                      case r of None \<Rightarrow> Inr (Inl CopyFails)
                      | Some (ss, m) \<Rightarrow>
                          case t_mbr t of
                            Inl e \<Rightarrow> Inr (Inl MbrFails)
                          | Inr bs \<Rightarrow> bindE (wr 0 (take 440 bs) m) (\<lambda>m. Inr (Inr (ss, m)))))))"

definition installer_main ::
  "endian \<Rightarrow> (string \<Rightarrow> u64) \<Rightarrow> (string \<Rightarrow> target) \<Rightarrow> string list \<Rightarrow> (install_error + u32 list \<times> mem) res" where
  "installer_main h atoi targets args =
     bindE (parse_options atoi args no_options) (\<lambda>opt.
     if print_help opt then Inr (Inl Help)
     else case (path_bzimage opt, dst opt, path_busybox opt) of
       (Some bz, Some d, Some bb) \<Rightarrow> installer_run h (targets d) bz bb d (boot_size opt)
     | _ \<Rightarrow> Inr (Inl Usage))"

section \<open>init\<close>

text \<open>The first user program: one \<open>execve\<close>, and \<open>exit\<close> with code 1 if it returns.\<close>

datatype init_call = Execve string "string list" "string list" | ExitCode int

definition init_argv :: "string list" where "init_argv = [''/busybox'', ''sh'']"

definition init_envp :: "string list" where
  "init_envp = [''PATH=/:/bin:/usr/bin'', ''TERM=linux'', ''HOME=/'', ''HOSTTYPE=x86_64'', ''PWD=/'']"

definition init_start :: "init_call list" where
  "init_start = [Execve (init_argv ! 0) init_argv init_envp, ExitCode 1]"

section \<open>Views\<close>

lemma view_simps [simp]:
  "msize (view base m) = msize m - base" "mbyte (view base m) i = mbyte m (base + i)"
  "msize (unview base v m) = msize m"
  by (simp_all add: view_def unview_def)

lemma mbyte_unview: "mbyte (unview base v m) i = (if base \<le> i then mbyte v (i - base) else mbyte m i)"
  by (simp add: unview_def)

lemma peek_view [simp]: "peek (view base m) off n = peek m (base + off) n"
  by (simp add: peek_eq_iff add.assoc)

lemma view_unview: "msize v = msize m - base \<Longrightarrow> view base (unview base v m) = v"
  by (rule mem.equality) (auto simp: mbyte_unview fun_eq_iff)

section \<open>Copying several files\<close>

fun start_sectors :: "FATConfig \<Rightarrow> nat \<Rightarrow> nat list \<Rightarrow> nat list" where
  "start_sectors c nf [] = []"
| "start_sectors c nf (n # ns) =
     ((nf - 2) * spc c + (8 + 2 * fatsz c)) # start_sectors c (nf + clusters_for c n) ns"

definition clusters_of :: "FATConfig \<Rightarrow> nat list \<Rightarrow> nat" where
  "clusters_of c ns = sum_list (map (clusters_for c) ns)"

lemma clusters_of_simps [simp]:
  "clusters_of c [] = 0" "clusters_of c (n # ns) = clusters_for c n + clusters_of c ns"
  by (simp_all add: clusters_of_def)

text \<open>The file list with the bytes each path holds.\<close>

definition ready_file :: "(string \<Rightarrow> host_file) \<Rightarrow> (string \<Rightarrow> u8 list) \<Rightarrow> string \<times> string \<times> string \<times> u32 \<Rightarrow> bool" where
  "ready_file hp con f =
     (case f of (macro, path, name, attr) \<Rightarrow> delivers (hp path) (con path) \<and> name_fits name)"

definition file_sizes :: "(string \<Rightarrow> u8 list) \<Rightarrow> (string \<times> string \<times> string \<times> u32) list \<Rightarrow> nat list" where
  "file_sizes con fs = map (\<lambda>(macro, path, name, attr). length (con path)) fs"

definition file_entries ::
  "(string \<Rightarrow> u8 list) \<Rightarrow> (string \<times> string \<times> string \<times> u32) list \<Rightarrow> (u8 list \<times> u8 \<times> u8 list option) list" where
  "file_entries con fs = map (\<lambda>(macro, path, name, attr). (dir_name name, ucast attr, Some (con path))) fs"

lemma file_list_simps [simp]:
  "file_sizes con [] = []" "file_entries con [] = []"
  "file_sizes con ((macro, path, name, attr) # fs) = length (con path) # file_sizes con fs"
  "file_entries con ((macro, path, name, attr) # fs) = (dir_name name, ucast attr, Some (con path)) # file_entries con fs"
  by (simp_all add: file_sizes_def file_entries_def)

lemma copy_files_ok:
  assumes "fs_inv c d nf fc (view base m)" "base \<le> msize m" "\<forall>f\<in>set fs. ready_file (host_path env) con f"
    "d + length fs \<le> roots c" "nf + clusters_of c (file_sizes con fs) \<le> maxc c"
  shows "\<exists>offs m' fc'. copy_files h env base fs e m = Inr (zip (map fst fs) offs, m') \<and>
    map unat offs = start_sectors c nf (file_sizes con fs) \<and>
    fs_inv c (d + length fs) (nf + clusters_of c (file_sizes con fs)) fc' (view base m') \<and>
    dir_list c (view base m') (d + length fs) = dir_list c (view base m) d @ file_entries con fs \<and>
    msize m' = msize m \<and>
    (\<forall>i. i < base \<or> base + sectors c * bps c \<le> i \<longrightarrow> mbyte m' i = mbyte m i) \<and>
    (\<forall>i. cluster_at c 3 \<le> i \<and> i < cluster_at c nf \<longrightarrow> mbyte m' (base + i) = mbyte m (base + i)) \<and>
    (\<forall>j<length fs. peek m' (base + bps c * start_sectors c nf (file_sizes con fs) ! j) (file_sizes con fs ! j) =
       con (fst (snd (fs ! j))))"
  using assms
proof (induction fs arbitrary: d nf fc m e)
  case Nil
  then show ?case by (auto intro!: exI [of _ m])
next
  case (Cons f fs)
  obtain macro path name attr where f: "f = (macro, path, name, attr)" by (cases f)
  let ?bs = "con path" and ?k = "clusters_for c (length (con path))"
  have del: "delivers (host_path env path) ?bs" "name_fits name"
    using Cons.prems(3) by (simp_all add: f ready_file_def)
  have fit: "d < roots c" "nf + ?k \<le> maxc c"
    using Cons.prems(4,5) by (simp_all add: f)
  obtain s v' fc1 where v': "FAT32Copyin h (host_path env path) name attr e (view base m) = Inr (s, e, v')"
    "fs_inv c (d + 1) (nf + ?k) fc1 v'"
    "dir_list c v' (d + 1) = dir_list c (view base m) d @ [(dir_name name, ucast attr, Some ?bs)]"
    "unat s * bps c = cluster_at c nf" "peek v' (unat s * bps c) (length ?bs) = ?bs"
    "msize v' = msize (view base m)" "\<forall>i. sectors c * bps c \<le> i \<longrightarrow> mbyte v' i = mbyte (view base m) i"
    "\<forall>i. cluster_at c 3 \<le> i \<and> i < cluster_at c nf \<longrightarrow> mbyte v' i = mbyte (view base m) i"
    using FAT32Copyin_ok [OF Cons.prems(1) del fit, of h attr e] by blast
  define m1 where "m1 = unview base v' m"
  have vm: "view base m1 = v'" "msize m1 = msize m"
    using v'(6) by (simp_all add: m1_def view_unview)
  obtain offs m' fc' where m': "copy_files h env base fs e m1 = Inr (zip (map fst fs) offs, m')"
    "map unat offs = start_sectors c (nf + ?k) (file_sizes con fs)"
    "fs_inv c (d + 1 + length fs) (nf + ?k + clusters_of c (file_sizes con fs)) fc' (view base m')"
    "dir_list c (view base m') (d + 1 + length fs) = dir_list c (view base m1) (d + 1) @ file_entries con fs"
    "msize m' = msize m1"
    "\<forall>i. i < base \<or> base + sectors c * bps c \<le> i \<longrightarrow> mbyte m' i = mbyte m1 i"
    "\<forall>i. cluster_at c 3 \<le> i \<and> i < cluster_at c (nf + ?k) \<longrightarrow> mbyte m' (base + i) = mbyte m1 (base + i)"
    "\<forall>j<length fs. peek m' (base + bps c * start_sectors c (nf + ?k) (file_sizes con fs) ! j) (file_sizes con fs ! j) =
       con (fst (snd (fs ! j)))"
    using Cons.IH [of "d + 1" "nf + ?k" fc1 m1 e] Cons.prems vm v'(2) by (auto simp: f)
  have v: "vol c" "3 \<le> nf"
    using Cons.prems(1) by (simp_all add: fs_inv_def)
  have start: "(nf - 2) * spc c + (8 + 2 * fatsz c) = unat s"
  proof -
    have "unat s * bps c = ((nf - 2) * spc c + (8 + 2 * fatsz c)) * bps c"
      unfolding v'(4) cluster_at_def data_at_def bpc_def by (simp add: algebra_simps)
    moreover have "0 < bps c"
      using vol_bps [OF v(1)] by auto
    ultimately show ?thesis by simp
  qed
  have run: "copy_files h env base (f # fs) e m = Inr (zip (map fst (f # fs)) (s # offs), m')"
    using m'(1) v'(1) by (simp add: f on_part_def m1_def)
  have first: "peek m' (base + bps c * unat s) (length ?bs) = ?bs"
  proof -
    have "length ?bs \<le> ?k * bpc c"
      using clusters_for_covers [of c "length ?bs"] vol_bpc(1) [OF v(1)] by simp
    then have r: "cluster_at c nf + length ?bs \<le> cluster_at c (nf + ?k)"
      using cluster_at_add [of nf c ?k] v(2) by simp
    have "mbyte m' (base + (cluster_at c nf + i)) = mbyte v' (cluster_at c nf + i)" if "i < length ?bs" for i
      using m'(7) that r cluster_at_mono [OF v(2), of c] by (simp add: m1_def mbyte_unview)
    then show ?thesis
      using v'(4,5) by (simp add: list_eq_iff_nth_eq mult.commute add.assoc)
  qed
  have each: "peek m' (base + bps c * start_sectors c nf (file_sizes con (f # fs)) ! j) (file_sizes con (f # fs) ! j) =
       con (fst (snd ((f # fs) ! j)))" if "j < length (f # fs)" for j
    using that first m'(8) start by (cases j) (simp_all add: f)
  have out: "mbyte m' i = mbyte m i" if "i < base \<or> base + sectors c * bps c \<le> i" for i
    using that m'(6) v'(7) by (auto simp: m1_def mbyte_unview)
  have low: "mbyte m' (base + i) = mbyte m (base + i)" if "cluster_at c 3 \<le> i" "i < cluster_at c nf" for i
    using that m'(7) v'(8) cluster_at_mono [of nf "nf + ?k" c] by (simp add: m1_def mbyte_unview)
  show ?case
    using run m'(2-5) v'(3) vm start each out low
    by (intro exI [of _ "s # offs"] exI [of _ m'] exI [of _ fc']) (simp add: f add.assoc)
qed

section \<open>The partition table of a bootable disk\<close>

lemma guid_node [simp]: "length (node EFI_SYSTEM_PARTITION) = 6" "length (node myDiskID) = 6"
  by (simp_all add: EFI_SYSTEM_PARTITION_def myDiskID_def)

lemma two_partitions_ok:
  assumes V: "5 + B \<le> V" "512 * V \<le> msize m" "msize m < 2 ^ 64"
  defines "cfg \<equiv> two_partitions (of_nat V) (of_nat B)"
  shows "\<exists>cps m'. GPTGenerate Little cfg m = Inr (2, cps, m') \<and> msize m' = msize m \<and>
    startLBA (cps ! 0) = 3 \<and> pvolume (cps ! 0) = of_nat B \<and> startLBA (cps ! 1) = of_nat (3 + B) \<and>
    (\<forall>m''. (\<forall>i. 440 \<le> i \<and> i < 1536 \<or> 512 * (V - 1) \<le> i \<longrightarrow> mbyte m'' i = mbyte m' i) \<longrightarrow>
       header_valid m'' 1 \<and> header_valid m'' (V - 1))"
proof -
  have w: "unat (of_nat V :: u64) = V" "unat (of_nat B :: u64) = B"
    using V by (auto intro!: unat_of_nat_ok)
  have fs: "unat (of_nat V - 5 - of_nat B :: u64) = V - 5 - B"
    using V(1) by (simp add: unat_sub_ok w)
  have arr: "array_sectors cfg = 1"
    by (simp add: array_sectors_def cfg_def two_partitions_def)
  have V5: "5 \<le> V"
    using V(1) by simp
  have ready: "gpt_ready cfg m"
    using V V5 unfolding gpt_ready_def arr
    by (simp add: cfg_def two_partitions_def config_ok_def boot_partition_def fs_partition_def w)
  obtain n cps start m' where g: "GPTGenerate Little cfg m = Inr (of_nat n, cps, m')" "msize m' = msize m"
    "placed 2 (of_nat (V - 5)) 3 (partitions cfg) n cps start" "gpt_image cfg n cps start m'"
    using GPTGenerate_ok [OF ready] unfolding arr by (auto simp: cfg_def two_partitions_def w)
  have rem: "unat (of_nat (V - 5) :: u64) = V - 5"
    using V by (intro unat_of_nat_ok) simp
  note pl = g(3) [unfolded placed_def rem]
  have two: "n = 2"
  proof (rule ccontr)
    assume "n \<noteq> 2"
    then have "n = 0 \<or> n = 1" "n < 2"
      using pl by auto
    then show False
      using pl V(1) fs w
      by (auto simp: cfg_def two_partitions_def boot_partition_def fs_partition_def sectors_before_def)
  qed
  have cps: "cps ! i = (partitions cfg ! i)\<lparr>startLBA := of_nat (3 + sectors_before (partitions cfg) i)\<rparr>" if "i < 2" for i
    using pl two that by (simp add: cfg_def two_partitions_def)
  have "startLBA (cps ! 0) = 3" "pvolume (cps ! 0) = of_nat B" "startLBA (cps ! 1) = of_nat (3 + B)"
    using cps [of 0] cps [of 1] w
    by (simp_all add: cfg_def two_partitions_def boot_partition_def sectors_before_def)
  moreover have "header_valid m'' 1 \<and> header_valid m'' (V - 1)"
    if "\<forall>i. 440 \<le> i \<and> i < 1536 \<or> 512 * (V - 1) \<le> i \<longrightarrow> mbyte m'' i = mbyte m' i" for m''
  proof -
    have "peek m'' p q = peek m' p q" if "440 \<le> p \<and> p + q \<le> 1536 \<or> 512 * (V - 1) \<le> p" for p q
      using that \<open>\<forall>i. 440 \<le> i \<and> i < 1536 \<or> 512 * (V - 1) \<le> i \<longrightarrow> mbyte m'' i = mbyte m' i\<close>
      by (intro peek_cong) auto
    then show ?thesis
      using image_headers_valid [OF g(4), of m''] V5 two by (simp add: cfg_def two_partitions_def w)
  qed
  ultimately show ?thesis
    using g(1,2) two by auto
qed

lemma boot_fat_geometry:
  "B < 2 ^ 32 \<Longrightarrow> sectors (boot_fat (of_nat B)) = B" "bps (boot_fat v) = 512" "spc (boot_fat v) = 8"
  "bpc (boot_fat v) = 4096" "roots (boot_fat v) = 128"
  by (simp_all add: sectors_def bps_def spc_def bpc_def roots_def boot_fat_def GPT_SECTOR_SIZE_def
      unsigned_ucast_eq unat_of_nat take_bit_nat_eq_self)

text \<open>
  The steps the two programs share after the partition table: format the first partition, copy the
  files in, install the boot code.
\<close>

lemma boot_volume:
  assumes c: "c = boot_fat (of_nat B)" "vol c" "B < 2 ^ 32" "5 + B \<le> V" "512 * V \<le> msize m"
    and fs: "\<forall>f\<in>set fs. ready_file (host_path env) con f" "length fs \<le> 128"
      "3 + clusters_of c (file_sizes con fs) \<le> maxc c"
    and mbr: "mbr_code env = Inr code"
  shows "\<exists>m1 offs m2 m3. on_part 1536 (createFAT32 h c) m = Inr (0, m1) \<and>
    copy_files h env 1536 fs e m1 = Inr (zip (map fst fs) offs, m2) \<and> copy_mbr env m2 = Inr m3 \<and>
    map unat offs = start_sectors c 3 (file_sizes con fs) \<and>
    dir_list c (view 1536 m3) (length fs) = file_entries con fs \<and>
    (\<forall>j<length fs. peek m3 (512 * (3 + start_sectors c 3 (file_sizes con fs) ! j)) (file_sizes con fs ! j) =
       con (fst (snd (fs ! j)))) \<and>
    peek m3 0 (length (take 440 code)) = take 440 code \<and>
    (\<forall>i. 440 \<le> i \<and> i < 1536 \<or> 512 * (3 + B) \<le> i \<longrightarrow> mbyte m3 i = mbyte m i)"
proof -
  have g: "sectors c = B" "bps c = 512" "roots c = 128"
    using boot_fat_geometry c(1,3) by simp_all
  have "sectors c * bps c \<le> msize (view 1536 m)"
    using c(4,5) g by simp
  then obtain v1 where v1: "createFAT32 h c (view 1536 m) = Inr (0, v1)" "formatted c (view 1536 m) v1"
    "fs_inv c 0 3 (2 * fatsz c * (bps c div 4) - 3) v1"
    using create_volume [OF c(2), of "view 1536 m" h] by blast
  define m1 where "m1 = unview 1536 v1 m"
  have vm: "view 1536 m1 = v1" "msize m1 = msize m"
    using v1(2) by (simp_all add: m1_def view_unview formatted_def)
  have fm: "mbyte m1 i = mbyte m i" if "i < 1536 \<or> 512 * (3 + B) \<le> i" for i
  proof -
    have "data_at c + bpc c \<le> sectors c * bps c" "1 \<le> maxc c"
      using cluster_run_end [OF c(2), of 2 1] c(2) by (auto simp: cluster_at_def vol_def)
    moreover have "bps c * 8 \<le> data_at c"
      by (simp add: regions_ordered)
    ultimately have "mbyte v1 j = mbyte (view 1536 m) j" if "512 * B \<le> j" for j
      using that v1(2) g unfolding formatted_def by auto
    then show ?thesis
      using that by (auto simp: m1_def mbyte_unview)
  qed
  have iv: "fs_inv c 0 3 (2 * fatsz c * (bps c div 4) - 3) (view 1536 m1)" "1536 \<le> msize m1"
    "0 + length fs \<le> roots c" "dir_list c (view 1536 m1) 0 = []"
    using v1(3) vm c(4,5) fs(2) g(3) by (simp_all add: dir_list_def)
  obtain offs m2 fc' where m2: "copy_files h env 1536 fs e m1 = Inr (zip (map fst fs) offs, m2)"
    "map unat offs = start_sectors c 3 (file_sizes con fs)"
    "fs_inv c (length fs) (3 + clusters_of c (file_sizes con fs)) fc' (view 1536 m2)"
    "dir_list c (view 1536 m2) (length fs) = file_entries con fs" "msize m2 = msize m1"
    "\<forall>i. i < 1536 \<or> 1536 + sectors c * bps c \<le> i \<longrightarrow> mbyte m2 i = mbyte m1 i"
    "\<forall>j<length fs. peek m2 (1536 + bps c * start_sectors c 3 (file_sizes con fs) ! j) (file_sizes con fs ! j) =
       con (fst (snd (fs ! j)))"
    using copy_files_ok [OF iv(1,2) fs(1) iv(3) fs(3), of h e] unfolding iv(4) add_0 append_Nil by blast
  define m3 where "m3 = poke m2 0 (take 440 code)"
  have mbr': "copy_mbr env m2 = Inr m3"
    using m2(5) vm c(4,5) by (simp add: copy_mbr_def mbr m3_def)
  have "view 1536 m3 = view 1536 m2"
    by (rule mem.equality) (auto simp: m3_def fun_eq_iff)
  moreover have "peek m3 p q = peek m2 p q" if "440 \<le> p" for p q
    using that by (simp add: m3_def)
  moreover have "mbyte m3 i = mbyte m i" if "440 \<le> i \<and> i < 1536 \<or> 512 * (3 + B) \<le> i" for i
    using that m2(6) fm g by (auto simp: m3_def)
  moreover have "on_part 1536 (createFAT32 h c) m = Inr (0, m1)"
    by (simp add: on_part_def v1(1) m1_def)
  ultimately show ?thesis
    using m2 mbr' g
    by (intro exI [of _ m1] exI [of _ offs] exI [of _ m2] exI [of _ m3]) (simp add: m3_def algebra_simps)
qed

section \<open>Properties of mkgpt\<close>

lemma mkgpt_geometry:
  defines "c \<equiv> boot_fat 262140"
  shows "sectors c = 262140" "fatsz c = 256" "maxc c = 32702" "vol c"
proof -
  show n: "sectors c = 262140"
    using boot_fat_geometry(1) [of 262140] by (simp add: c_def)
  show f: "fatsz c = 256"
    by (simp add: fatsz_def n) (simp add: c_def boot_fat_geometry)
  show x: "maxc c = 32702"
    by (simp add: maxc_def n f) (simp add: c_def boot_fat_geometry)
  show "vol c"
    by (simp add: vol_def configIsValid_geometry n x) (simp add: c_def boot_fat_geometry)
qed

lemma names_fit:
  "name_fits ''linuz''" "name_fits ''loader''" "name_fits ''kernel''" "name_fits ''busybox''" "name_fits ''init''"
  by (simp_all add: name_fits_def not_dot_def)

lemma mkgpt_partitioned:
  "\<exists>pc m. GPTGenerate Little mkgpt_config (blank disk_size) = Inr (2, pc, m) \<and> msize m = disk_size \<and>
    startLBA (pc ! 0) = 3 \<and> pvolume (pc ! 0) = 262140 \<and> startLBA (pc ! 1) = 262143 \<and>
    (\<forall>m''. (\<forall>i. 440 \<le> i \<and> i < 1536 \<or> 512 * 524287 \<le> i \<longrightarrow> mbyte m'' i = mbyte m i) \<longrightarrow>
       header_valid m'' 1 \<and> header_valid m'' 524287)"
  using two_partitions_ok [of 262140 524288 "blank disk_size"]
  by (simp add: mkgpt_config_def mkgpt_volume_def disk_size_def GPT_SECTOR_SIZE_def blank_def)

lemma mkgpt_image:
  assumes env: "opens env" "maps env" "writes_all env" "mbr_code env = Inr code"
    and fs: "\<forall>f\<in>set mkgpt_files. ready_file (host_path env) con f"
      "clusters_of (boot_fat 262140) (file_sizes con mkgpt_files) \<le> 32699"
  defines "loader \<equiv> con ''../bootloader/linuz.bin''" and "kimage \<equiv> con ''../bootloader/kernel''"
  shows "\<exists>offs m. mkgpt_main Little env =
      Inr (0, [(''PARTITION_0_START'', 3), (''PARTITION_1_START'', 262143)], zip (map fst mkgpt_files) offs, Some m) \<and>
    map unat offs = start_sectors (boot_fat 262140) 3 (file_sizes con mkgpt_files) \<and>
    header_valid m 1 \<and> header_valid m 524287 \<and> peek m 0 (length (take 440 code)) = take 440 code \<and>
    dir_list (boot_fat 262140) (view (512 * 3) m) 4 = file_entries con mkgpt_files \<and>
    peek m (512 * 531) (length loader) = loader \<and>
    (length loader \<le> 4096 \<longrightarrow> peek m (512 * 539) (length kimage) = kimage)"
proof -
  let ?c = "boot_fat 262140"
  obtain pc m where g: "GPTGenerate Little mkgpt_config (blank disk_size) = Inr (2, pc, m)" "msize m = disk_size"
    "startLBA (pc ! 0) = 3" "pvolume (pc ! 0) = 262140" "startLBA (pc ! 1) = 262143"
    "\<And>m''. \<forall>i. 440 \<le> i \<and> i < 1536 \<or> 512 * 524287 \<le> i \<longrightarrow> mbyte m'' i = mbyte m i \<Longrightarrow>
       header_valid m'' 1 \<and> header_valid m'' 524287"
    using mkgpt_partitioned by blast
  have len: "length mkgpt_files = 4" "length mkgpt_files \<le> 128"
    by (simp_all add: mkgpt_files_def)
  have pre: "?c = boot_fat (of_nat 262140)" "5 + 262140 \<le> (524288 :: nat)" "512 * 524288 \<le> msize m"
    "3 + clusters_of ?c (file_sizes con mkgpt_files) \<le> maxc ?c" "(262140 :: nat) < 2 ^ 32"
    using g(2) fs(2) by (simp_all add: disk_size_def mkgpt_geometry)
  obtain m1 offs m2 m3 where b: "on_part 1536 (createFAT32 Little ?c) m = Inr (0, m1)"
    "copy_files Little env 1536 mkgpt_files 0 m1 = Inr (zip (map fst mkgpt_files) offs, m2)" "copy_mbr env m2 = Inr m3"
    "map unat offs = start_sectors ?c 3 (file_sizes con mkgpt_files)"
    "dir_list ?c (view 1536 m3) (length mkgpt_files) = file_entries con mkgpt_files"
    "\<And>j. j < length mkgpt_files \<Longrightarrow>
       peek m3 (512 * (3 + start_sectors ?c 3 (file_sizes con mkgpt_files) ! j)) (file_sizes con mkgpt_files ! j) =
       con (fst (snd (mkgpt_files ! j)))"
    "peek m3 0 (length (take 440 code)) = take 440 code"
    "\<forall>i. 440 \<le> i \<and> i < 1536 \<or> 512 * (3 + 262140) \<le> i \<longrightarrow> mbyte m3 i = mbyte m i"
    using boot_volume [OF pre(1) mkgpt_geometry(4) pre(5,2,3) fs(1) len(2) pre(4) env(4), of Little 0] by blast
  have hv: "header_valid m3 1 \<and> header_valid m3 524287"
    using b(8) by (intro g(6)) auto
  have base: "unat (of_nat GPT_SECTOR_SIZE * 3 :: u64) = 1536"
    by (simp add: GPT_SECTOR_SIZE_def)
  have run: "mkgpt_main Little env =
      Inr (0, [(''PARTITION_0_START'', 3), (''PARTITION_1_START'', 262143)], zip (map fst mkgpt_files) offs, Some m3)"
    using env(1-3) b(1-3)
    by (simp add: mkgpt_main_def g g(5) [unfolded One_nat_def] base Let_def)
      (simp add: mkgpt_config_def two_partitions_def)
  have l: "peek m3 (512 * 531) (length loader) = loader"
    using b(6) [of 0] len by (simp add: mkgpt_files_def loader_def mkgpt_geometry boot_fat_geometry)
  have k: "peek m3 (512 * 539) (length kimage) = kimage" if "length loader \<le> 4096"
  proof -
    have "clusters_for ?c (length loader) = 1"
      using that by (auto simp: clusters_for_def boot_fat_geometry div_le_mono)
    then show ?thesis
      using b(6) [of 1] len by (simp add: mkgpt_files_def loader_def kimage_def mkgpt_geometry boot_fat_geometry)
  qed
  show ?thesis
    using run b(4,5,7) hv l k len by (intro exI [of _ offs] exI [of _ m3]) simp
qed

text \<open>
  C13: The image that mkgpt writes is bootable by the loaders of this repository. If the host calls
  succeed and the four files fit, the program exits with 0; both GPT headers of the image are valid;
  the boot code is the beginning of \<open>mbr.img\<close>; the FAT volume in the first partition, at LBA 3,
  lists exactly the four files with their bytes; the second-stage loader lies in consecutive sectors
  from LBA 531, where \<open>mbr.c\<close> and \<open>biosmbr.S\<close> read it; and if it has at most 4096 bytes the kernel
  lies from LBA 539, where \<open>bzimage.c\<close> reads it. The printed offsets are the real ones.
\<close>

theorem mkgpt_bootable:
  assumes env: "opens env" "maps env" "writes_all env" "mbr_code env = Inr code"
    and fs: "\<forall>f\<in>set mkgpt_files. ready_file (host_path env) con f"
      "clusters_of (boot_fat 262140) (file_sizes con mkgpt_files) \<le> 32699"
  defines "loader \<equiv> con ''../bootloader/linuz.bin''" and "kimage \<equiv> con ''../bootloader/kernel''"
  shows "\<exists>offs m. mkgpt_main Little env =
      Inr (0, [(''PARTITION_0_START'', 3), (''PARTITION_1_START'', 262143)], zip (map fst mkgpt_files) offs, Some m) \<and>
    map unat offs = start_sectors (boot_fat 262140) 3 (file_sizes con mkgpt_files) \<and>
    header_valid m 1 \<and> header_valid m 524287 \<and> peek m 0 (length (take 440 code)) = take 440 code \<and>
    dir_list (boot_fat 262140) (view (512 * 3) m) 4 = file_entries con mkgpt_files \<and>
    peek m (512 * 531) (length loader) = loader \<and>
    (length loader \<le> 4096 \<longrightarrow> peek m (512 * 539) (length kimage) = kimage)"
  unfolding loader_def kimage_def by (rule mkgpt_image [OF env fs])

definition demo_host :: host where
  "demo_host = \<lparr>opens = True, maps = True, writes_all = True, host_path = (\<lambda>_. demo_file [0x7f, 0x45]), mbr_code = Inr [0xfa]\<rparr>"

theorem mkgpt_bootable_witness:
  "\<exists>offs m. mkgpt_main Little demo_host =
      Inr (0, [(''PARTITION_0_START'', 3), (''PARTITION_1_START'', 262143)], zip (map fst mkgpt_files) offs, Some m) \<and>
    map unat offs = [528, 536, 544, 552] \<and> header_valid m 1 \<and> peek m (512 * 539) 2 = [0x7f, 0x45]"
proof -
  let ?con = "\<lambda>_ :: string. [0x7f, 0x45] :: u8 list"
  have cl: "clusters_for (boot_fat 262140) (Suc (Suc 0)) = Suc 0"
    by (simp add: clusters_for_def boot_fat_geometry)
  have rdy: "\<forall>f\<in>set mkgpt_files. ready_file (host_path demo_host) ?con f"
    by (simp add: mkgpt_files_def ready_file_def demo_host_def demo_delivers names_fit)
  have ss: "start_sectors (boot_fat 262140) 3 (file_sizes ?con mkgpt_files) = [528, 536, 544, 552]"
    "clusters_of (boot_fat 262140) (file_sizes ?con mkgpt_files) \<le> 32699"
    by (simp_all add: mkgpt_files_def cl mkgpt_geometry boot_fat_geometry)
  have "opens demo_host" "maps demo_host" "writes_all demo_host" "mbr_code demo_host = Inr [0xfa]"
    by (simp_all add: demo_host_def)
  from mkgpt_bootable [OF this rdy ss(2)] obtain offs m where "mkgpt_main Little demo_host =
      Inr (0, [(''PARTITION_0_START'', 3), (''PARTITION_1_START'', 262143)], zip (map fst mkgpt_files) offs, Some m)"
    "map unat offs = [528, 536, 544, 552]" "header_valid m 1"
    "length [0x7f, 0x45 :: u8] \<le> 4096 \<longrightarrow> peek m (512 * 539) (length [0x7f, 0x45 :: u8]) = [0x7f, 0x45]"
    unfolding ss(1) by (elim exE conjE) (rule that)
  then show ?thesis
    by (intro exI [of _ offs] exI [of _ m]) (simp add: numeral_2_eq_2)
qed

text \<open>
  The failure paths of mkgpt. If the image file cannot be opened, the memory cannot be mapped
  or the final write is incomplete, the exit code is 1 and no image is written.
\<close>

theorem mkgpt_failures:
  assumes "mkgpt_main h env = Inr (code, starts, offsets, img)"
  shows "code = (if img = None then 1 else 0) \<and> (\<not> (opens env \<and> maps env \<and> writes_all env) \<longrightarrow> img = None)"
  using assms
  by (auto simp: mkgpt_main_def Let_def bindE_def split: if_splits sum.splits prod.splits)

theorem mkgpt_failures_witness:
  "\<exists>offsets. mkgpt_main Little (demo_host\<lparr>maps := False\<rparr>) = Inr (1, [], offsets, None)"
  using mkgpt_failures [of Little "demo_host\<lparr>maps := False\<rparr>" 1 "[]" "[]" None]
  by (simp add: mkgpt_main_def demo_host_def)

section \<open>Properties of installer\<close>

text \<open>What \<open>basename\<close> computes: the path from its last slash on, the slash included.\<close>

lemma basename_from_slash:
  "CHR ''/'' \<notin> set b \<Longrightarrow> basename_from r (a @ CHR ''/'' # b) = CHR ''/'' # b"
proof (induction a arbitrary: r)
  case Nil
  have "CHR ''/'' \<notin> set b \<Longrightarrow> basename_from r b = r" for r b
    by (induction b) auto
  then show ?case using Nil by simp
next
  case (Cons c a)
  then show ?case by simp
qed

text \<open>
  \<open>basename\<close> keeps the slash: for a path with a directory part it returns the slash and the
  last component, so for a block device the size is looked up under \<open>/sys/class/block//\<close>.
\<close>

theorem basename_keeps_slash:
  assumes "CHR ''/'' \<notin> set name"
  shows "basename (dir @ CHR ''/'' # name) = CHR ''/'' # name \<and>
    (mode AND S_IFREG \<noteq> S_IFREG \<and> mode AND S_IFMT = S_IFBLK \<longrightarrow>
     fdsize (Inr (mode, n)) sysfs (dir @ CHR ''/'' # name) =
       (case sysfs (''/sys/class/block//'' @ name @ ''/size'') of None \<Rightarrow> Die ''fopen'' | Some ret \<Rightarrow> Size (ret * 512)))"
  using assms by (auto simp: basename_def basename_from_slash fdsize_def sys_path_def)

theorem basename_keeps_slash_witness:
  "basename ''/dev/sda'' = ''/sda'' \<and>
   fdsize (Inr (0x61b0, 0)) (\<lambda>p. if p = ''/sys/class/block//sda/size'' then Some 8 else None) ''/dev/sda'' = Size 4096"
  using basename_keeps_slash [of "''sda''" "''/dev''" "0x61b0" 0 "\<lambda>p. if p = ''/sys/class/block//sda/size'' then Some 8 else None"]
  by (simp add: S_IFREG_def S_IFMT_def S_IFBLK_def)

fun option_pairs :: "string list \<Rightarrow> bool" where
  "option_pairs [] = True"
| "option_pairs [a] = False"
| "option_pairs (a # b # as) = (a \<in> {''-k'', ''-d'', ''-s'', ''-busybox''} \<and> option_pairs as)"

text \<open>
  An argument that is no option and no option value makes the option loop of the installer run
  forever, whatever precedes it in correct pairs and whatever follows.
\<close>

theorem installer_hangs_on_unknown:
  assumes "option_pairs good" "bad \<notin> {''-h'', ''--help'', ''-k'', ''-d'', ''-s'', ''-busybox''}"
  shows "installer_main h atoi targets (good @ bad # rest) = Inl Diverge"
proof -
  have "parse_options atoi (good @ bad # rest) o0 = Inl Diverge" for o0
    using assms(1) by (induction good arbitrary: o0 rule: option_pairs.induct) (use assms(2) in auto)
  then show ?thesis
    by (simp add: installer_main_def)
qed

theorem installer_hangs_on_unknown_witness:
  "installer_main Little (\<lambda>_. 0) (\<lambda>_. undefined) [''-k'', ''bzImage'', ''--verbose''] = Inl Diverge"
  using installer_hangs_on_unknown [of "[''-k'', ''bzImage'']" "''--verbose''" Little "\<lambda>_. 0" "\<lambda>_. undefined" "[]"] by simp

lemma FAT32Copyin_nonzero:
  assumes "FAT32Copyin h f name attr e m = Inr (s, e', m')" "s \<noteq> 0"
  shows "e' = e"
  using assms
  apply (auto simp: FAT32Copyin_def copyin_err_def Let_def bindE_eq_Inr split: sum.splits if_splits prod.splits)
  subgoal for x2 x xa xb xc a by (cases a) auto
  done

text \<open>The installer stops at the first file that fails; on success it does what mkgpt does.\<close>

lemma copyin_all_copy_files:
  assumes "copy_files h env base (map (\<lambda>(path, name). ([], path, name, sysFlag)) fs) 0 m = Inr (defs, m')"
    "0 \<notin> snd ` set defs" "\<forall>(path, name)\<in>set fs. t_files t path = Some (host_path env path)"
  shows "copyin_all h t base fs m = Inr (Some (map snd defs, m'))"
  using assms
proof (induction fs arbitrary: m defs)
  case Nil
  then show ?case by simp
next
  case (Cons f fs)
  obtain path name where f: "f = (path, name)" by (cases f)
  obtain s e v defs' where c: "FAT32Copyin h (host_path env path) name sysFlag 0 (view base m) = Inr (s, e, v)"
    "copy_files h env base (map (\<lambda>(path, name). ([], path, name, sysFlag)) fs) e (unview base v m) = Inr (defs', m')"
    "defs = ([], s) # defs'"
    using Cons.prems(1) by (auto simp: f on_part_def bindE_eq_Inr)
  then have "s \<noteq> 0" "e = 0"
    using Cons.prems(2) FAT32Copyin_nonzero [OF c(1)] by auto
  then show ?case
    using c Cons.IH [of "unview base v m" defs'] Cons.prems(2,3) by (simp add: f copyin_def on_part_def)
qed

lemma boot_fat_mib:
  assumes "1 \<le> mib" "mib < 4096"
  defines "c \<equiv> boot_fat (of_nat (2048 * mib))"
  shows "sectors c = 2048 * mib" "fatsz c = 2 * mib" "vol c" "bps c = 512" "spc c = 8"
proof -
  show n: "sectors c = 2048 * mib"
    using boot_fat_geometry(1) [of "2048 * mib"] assms by simp
  show b: "bps c = 512" "spc c = 8"
    by (simp_all add: c_def boot_fat_geometry)
  show f: "fatsz c = 2 * mib"
    by (simp add: fatsz_def n b)
  have "3 \<le> maxc c"
    using assms(1,2) by (simp add: maxc_def n f b)
  then show "vol c"
    using assms(1,2) by (simp add: vol_def configIsValid_geometry n b)
qed

definition installer_files :: "string \<Rightarrow> string \<Rightarrow> (string \<times> string \<times> string \<times> u32) list" where
  "installer_files bzimage busybox =
     map (\<lambda>(path, name). ([], path, name, sysFlag))
       [(''linuz.bin'', ''loader''), (bzimage, ''kernel''), (busybox, ''busybox''), (''init.elf'', ''init'')]"

lemma mkpart_ok:
  assumes "1 \<le> mib" "mib < 4096" "1048576 * mib + 32768 \<le> D" "D = msize m" "D < 2 ^ 64"
  defines "V \<equiv> D div 512"
  shows "\<exists>pc m'. mkpart Little (of_nat D) (of_nat mib) m = Inr (Some (pc, m')) \<and> msize m' = msize m \<and>
    startLBA (pc ! 0) = 3 \<and> pvolume (pc ! 0) = of_nat (2048 * mib) \<and> 5 + 2048 * mib \<le> V \<and>
    (\<forall>m''. (\<forall>i. 440 \<le> i \<and> i < 1536 \<or> 512 * (V - 1) \<le> i \<longrightarrow> mbyte m'' i = mbyte m' i) \<longrightarrow>
       header_valid m'' 1 \<and> header_valid m'' (V - 1))"
proof -
  have w: "unat (of_nat D :: u64) = D" "unat (of_nat mib :: u64) = mib"
    using assms by (auto intro!: unat_of_nat_ok)
  have b: "unat (of_nat mib * (1024 * 1024) :: u64) = 1048576 * mib"
    using assms(2) by (subst unat_mult_ok) (simp_all add: w)
  have b32: "unat (of_nat mib * (1024 * 1024) + of_nat GPT_SECTOR_SIZE * 64 :: u64) = 1048576 * mib + 32768"
    using assms(2) b by (subst unat_add_ok) (simp_all add: GPT_SECTOR_SIZE_def)
  have "\<not> of_nat D < (of_nat mib * (1024 * 1024) + of_nat GPT_SECTOR_SIZE * 64 :: u64)"
    using assms(3) b32 w by (simp add: word_less_nat_alt)
  moreover have "of_nat D div (of_nat GPT_SECTOR_SIZE :: u64) = of_nat V"
    by (rule word_of_nat_unat_eq) (simp add: unat_div w GPT_SECTOR_SIZE_def V_def)
  moreover have "of_nat mib * (1024 * 1024) div (of_nat GPT_SECTOR_SIZE :: u64) = of_nat (2048 * mib)"
    by (rule word_of_nat_unat_eq) (use b in \<open>simp add: unat_div GPT_SECTOR_SIZE_def\<close>)
  ultimately have mk: "mkpart Little (of_nat D) (of_nat mib) m =
      bindE (GPTGenerate Little (two_partitions (of_nat V) (of_nat (2048 * mib))) m) (\<lambda>(n, pc, m).
        if 2 \<noteq> n then Inr None else Inr (Some (pc, m)))"
    by (simp add: mkpart_def Let_def del: of_nat_mult)
  have V: "5 + 2048 * mib \<le> V" "512 * V \<le> msize m"
    using assms(3,4) by (simp_all add: V_def)
  show ?thesis
    using two_partitions_ok [OF V] assms(4,5) V(1) unfolding mk by (auto simp del: of_nat_mult)
qed

text \<open>No file starts at sector 0, so the installer's check of each copy passes.\<close>

lemma start_sectors_nonzero:
  assumes "map unat offs = start_sectors c nf ns"
  shows "0 \<notin> set offs"
proof
  assume "0 \<in> set offs"
  moreover have "8 \<le> x" if "x \<in> set (start_sectors c nf ns)" for x c nf ns
    using that by (induction c nf ns rule: start_sectors.induct) auto
  ultimately show False
    using assms by (metis image_eqI list.set_map not_numeral_le_zero unat_0)
qed

lemma installer_copies:
  assumes run: "copy_files Little env 1536 (installer_files bzimage busybox) 0 m1 =
      Inr (zip (map fst (installer_files bzimage busybox)) offs, m2)"
    and offs: "map unat offs = start_sectors c nf (file_sizes con (installer_files bzimage busybox))"
    and files: "\<forall>f\<in>set (installer_files bzimage busybox). t_files t (fst (snd f)) = Some (host_path env (fst (snd f)))"
  shows "copyin_all Little t 1536 [(''linuz.bin'', ''loader''), (bzimage, ''kernel''), (busybox, ''busybox''),
      (''init.elf'', ''init'')] m1 = Inr (Some (offs, m2))"
proof -
  let ?fs = "installer_files bzimage busybox"
  have "length offs = length ?fs"
    using arg_cong [OF offs, of length] by (simp add: installer_files_def)
  then have s1: "map snd (zip (map fst ?fs) offs) = offs" and "snd ` set (zip (map fst ?fs) offs) \<subseteq> set offs"
    by (auto dest: set_zip_rightD)
  then have s2: "0 \<notin> snd ` set (zip (map fst ?fs) offs)"
    using start_sectors_nonzero [OF offs] by blast
  have "\<forall>(path, name)\<in>set [(''linuz.bin'', ''loader''), (bzimage, ''kernel''), (busybox, ''busybox''),
    (''init.elf'', ''init'')]. t_files t path = Some (host_path env path)"
    using files by (auto simp: installer_files_def)
  from copyin_all_copy_files [OF run [unfolded installer_files_def] s2 [unfolded installer_files_def] this]
  show ?thesis
    unfolding s1 [unfolded installer_files_def] .
qed

lemma page_multiple:
  assumes "D mod 4096 = 0" and "D < 2 ^ 64"
  shows "(of_nat D :: u64) div 4096 * 4096 = of_nat D"
proof (rule word_of_nat_unat_eq)
  have "D div 4096 * 4096 = D" using assms(1) by auto
  then show "unat ((of_nat D :: u64) div 4096 * 4096) = D"
    using assms(2) by (subst unat_mult_ok) (simp_all add: unat_div unat_of_nat_ok)
qed

text \<open>The first file of the installer is the loader, in the first cluster behind the root directory.\<close>

lemma installer_first:
  assumes "1 \<le> mib" and "mib < 4096"
  shows "file_sizes con (installer_files bzimage busybox) ! 0 = length (con ''linuz.bin'')"
    "fst (snd (installer_files bzimage busybox ! 0)) = ''linuz.bin''"
    "start_sectors (boot_fat (of_nat (2048 * mib))) 3 (file_sizes con (installer_files bzimage busybox)) ! 0 = 16 + 4 * mib"
    "map unat offs = start_sectors (boot_fat (of_nat (2048 * mib))) 3 (file_sizes con (installer_files bzimage busybox)) \<Longrightarrow>
       unat (hd offs) = 16 + 4 * mib"
proof -
  let ?fs = "installer_files bzimage busybox" and ?c = "boot_fat (of_nat (2048 * mib))"
  show "file_sizes con ?fs ! 0 = length (con ''linuz.bin'')" "fst (snd (?fs ! 0)) = ''linuz.bin''"
    by (simp_all add: installer_files_def)
  have sz: "file_sizes con ?fs = length (con ''linuz.bin'') # tl (file_sizes con ?fs)"
    by (simp add: installer_files_def)
  show starts: "start_sectors ?c 3 (file_sizes con ?fs) ! 0 = 16 + 4 * mib"
    by (subst sz) (simp add: boot_fat_mib [OF assms] del: of_nat_mult)
  show "unat (hd offs) = 16 + 4 * mib" if "map unat offs = start_sectors ?c 3 (file_sizes con ?fs)"
    using arg_cong [OF that, of length] arg_cong [OF that, of "\<lambda>xs. xs ! 0"] starts
    by (cases offs) (simp_all add: installer_files_def del: of_nat_mult)
qed

text \<open>
  C14: Where the installer puts the second-stage loader. On a regular file or block device that holds
  a boot partition of \<open>mib\<close> MiB, with all files readable and fitting, the installer finishes; both
  GPT headers are valid and the FAT volume lists the four files; the loader lies from LBA
  \<open>19 + 4 * mib\<close>. The boot sectors read LBA 531, which is the loader only for \<open>-s 128\<close>: with the
  default of 64 MiB it is at LBA 275 and the disk does not boot.
\<close>

theorem installer_loader_sector:
  assumes mib: "1 \<le> mib" "mib < 4096" "1048576 * mib + 32768 \<le> D" "D mod 4096 = 0" "D < 2 ^ 64"
    and disk: "t_stat t = Some st" "fdsize st (t_sysfs t) dest = Size (of_nat D)" "t_maps t (of_nat D) = Some m" "msize m = D"
    and fs: "\<forall>f\<in>set (installer_files bzimage busybox). ready_file (\<lambda>p. the (t_files t p)) con f"
      "\<forall>f\<in>set (installer_files bzimage busybox). t_files t (fst (snd f)) \<noteq> None"
      "3 + clusters_of (boot_fat (of_nat (2048 * mib))) (file_sizes con (installer_files bzimage busybox))
        \<le> maxc (boot_fat (of_nat (2048 * mib)))"
    and mbr: "t_mbr t = Inr code"
  shows "\<exists>ss m'. installer_run Little t bzimage busybox dest (of_nat mib) = Inr (Inr (ss, m')) \<and>
    header_valid m' 1 \<and> header_valid m' (D div 512 - 1) \<and>
    dir_list (boot_fat (of_nat (2048 * mib))) (view 1536 m') 4 = file_entries con (installer_files bzimage busybox) \<and>
    unat (hd ss) = 16 + 4 * mib \<and>
    peek m' (512 * (19 + 4 * mib)) (length (con ''linuz.bin'')) = con ''linuz.bin'' \<and>
    (3 + unat (hd ss) = 531 \<longleftrightarrow> mib = 128)"
proof -
  let ?fs = "installer_files bzimage busybox" and ?c = "boot_fat (of_nat (2048 * mib))" and ?V = "D div 512"
  define env where "env = \<lparr>opens = True, maps = True, writes_all = True, host_path = (\<lambda>p. the (t_files t p)), mbr_code = Inr code\<rparr>"
  note g = boot_fat_mib [OF mib(1,2)]
  obtain pc m0 where p: "mkpart Little (of_nat D) (of_nat mib) m = Inr (Some (pc, m0))" "msize m0 = msize m"
    "startLBA (pc ! 0) = 3" "pvolume (pc ! 0) = of_nat (2048 * mib)" "5 + 2048 * mib \<le> ?V"
    "\<And>m''. \<forall>i. 440 \<le> i \<and> i < 1536 \<or> 512 * (?V - 1) \<le> i \<longrightarrow> mbyte m'' i = mbyte m0 i \<Longrightarrow>
       header_valid m'' 1 \<and> header_valid m'' (?V - 1)"
    using mkpart_ok [OF mib(1,2,3) disk(4) [symmetric] mib(5)] by blast
  have pre: "2048 * mib < 2 ^ 32" "512 * ?V \<le> msize m0" "\<forall>f\<in>set ?fs. ready_file (host_path env) con f"
    "length ?fs \<le> 128" "mbr_code env = Inr code" "length ?fs = 4"
    using mib(2) p(2) disk(4) fs(1) by (simp_all add: env_def installer_files_def)
  obtain m1 offs m2 m3 where b: "on_part 1536 (createFAT32 Little ?c) m0 = Inr (0, m1)"
    "copy_files Little env 1536 ?fs 0 m1 = Inr (zip (map fst ?fs) offs, m2)" "copy_mbr env m2 = Inr m3"
    "map unat offs = start_sectors ?c 3 (file_sizes con ?fs)"
    "dir_list ?c (view 1536 m3) (length ?fs) = file_entries con ?fs"
    "\<And>j. j < length ?fs \<Longrightarrow> peek m3 (512 * (3 + start_sectors ?c 3 (file_sizes con ?fs) ! j)) (file_sizes con ?fs ! j) =
       con (fst (snd (?fs ! j)))"
    "\<forall>i. 440 \<le> i \<and> i < 1536 \<or> 512 * (3 + 2048 * mib) \<le> i \<longrightarrow> mbyte m3 i = mbyte m0 i"
    using boot_volume [OF refl g(3) pre(1) p(5) pre(2,3,4) fs(3) pre(5), of Little 0] by blast
  have hv: "header_valid m3 1 \<and> header_valid m3 (?V - 1)"
    using b(7) p(5) by (intro p(6)) auto
  note first = installer_first [OF mib(1,2)]
  have cp: "copyin_all Little t 1536 [(''linuz.bin'', ''loader''), (bzimage, ''kernel''), (busybox, ''busybox''),
      (''init.elf'', ''init'')] m1 = Inr (Some (offs, m2))"
    using fs(2) by (intro installer_copies [OF b(2,4)]) (simp add: env_def)
  note round = page_multiple [OF mib(4,5)]
  have base: "unat (of_nat GPT_SECTOR_SIZE * 3 :: u64) = 1536"
    by (simp add: GPT_SECTOR_SIZE_def)
  have wr0: "wr 0 (take 440 code) m2 = Inr m3"
    using b(3) by (simp add: copy_mbr_def env_def)
  have run: "installer_run Little t bzimage busybox dest (of_nat mib) = Inr (Inr (offs, m3))"
    unfolding installer_run_def disk(1) option.case disk(2) size_result.case Let_def round disk(3) p(1) bindE_Inr prod.case
      p(3,4) base b(1) cp mbr sum.case wr0 by (rule refl)
  have "peek m3 (512 * (19 + 4 * mib)) (length (con ''linuz.bin'')) = con ''linuz.bin''"
    using b(6) [of 0] pre(6) unfolding first(1-3) by simp
  then show ?thesis
    using run hv b(5) first(4) [OF b(4)] pre(6) by (intro exI [of _ offs] exI [of _ m3]) auto
qed

definition demo_target :: target where
  "demo_target = \<lparr>t_stat = Some (Inr (0x8000, 1081344)), t_sysfs = (\<lambda>_. None), t_maps = (\<lambda>n. Some (blank (unat n))),
     t_files = (\<lambda>_. Some (demo_file [0x7f])), t_mbr = Inr [0xfa]\<rparr>"

theorem installer_loader_sector_witness:
  "\<exists>ss m'. installer_run Little demo_target ''bz'' ''bb'' ''disk.img'' 1 = Inr (Inr (ss, m')) \<and>
     header_valid m' 1 \<and> unat (hd ss) = 20 \<and> 3 + unat (hd ss) \<noteq> 531"
proof -
  let ?con = "\<lambda>_ :: string. [0x7f] :: u8 list" and ?fs = "installer_files ''bz'' ''bb''"
  have one: "of_nat (2048 * 1) = (2048 :: u64)" "of_nat 1 = (1 :: u64)" "of_nat 1081344 = (1081344 :: u64)"
    by simp_all
  have cl: "clusters_for (boot_fat 2048) (Suc 0) = Suc 0"
    by (simp add: clusters_for_def boot_fat_geometry)
  have "fatsz (boot_fat 2048) = 2" "sectors (boot_fat 2048) = 2048"
    using boot_fat_mib(1,2) [of 1] by simp_all
  then have mx: "maxc (boot_fat 2048) = 254"
    by (simp add: maxc_def boot_fat_geometry)
  have "fdsize (Inr (0x8000, 1081344)) (t_sysfs demo_target) ''disk.img'' = Size (of_nat 1081344)"
    by (simp add: fdsize_def S_IFREG_def)
  moreover have "t_maps demo_target (of_nat 1081344) = Some (blank 1081344)"
    by (simp add: demo_target_def)
  moreover have "\<forall>f\<in>set ?fs. ready_file (\<lambda>p. the (t_files demo_target p)) ?con f"
    "\<forall>f\<in>set ?fs. t_files demo_target (fst (snd f)) \<noteq> None"
    by (simp_all add: installer_files_def ready_file_def demo_target_def demo_delivers names_fit)
  moreover have "3 + clusters_of (boot_fat (of_nat (2048 * 1))) (file_sizes ?con ?fs) \<le> maxc (boot_fat (of_nat (2048 * 1)))"
    unfolding one by (simp add: installer_files_def cl mx)
  ultimately obtain ss m' where r: "installer_run Little demo_target ''bz'' ''bb'' ''disk.img'' (of_nat 1) = Inr (Inr (ss, m'))"
    "header_valid m' 1" "unat (hd ss) = 16 + 4 * 1"
    using installer_loader_sector [of 1 1081344 demo_target "Inr (0x8000, 1081344)" "''disk.img''" "blank 1081344" "''bz''" "''bb''" ?con "[0xfa]"]
    by (auto simp: demo_target_def blank_def)
  then show ?thesis
    unfolding one by (intro exI [of _ ss] exI [of _ m']) simp
qed

end
