(* ===== verification/Stdio.thy ===== *)
theory Stdio
  imports Prelude
begin

text \<open>
  The string routines and the formatted output of tlibc: \<open>string.c\<close>, \<open>atoi.c\<close> and the printing half
  of \<open>stdio.c\<close>. A string that is only read (a format, an argument) is the list of its bytes before
  the terminator; a string that is written lies in a checked buffer, so that running over the end of
  the destination or of a local digit buffer is a fault.
\<close>

unbundle bit_operations_syntax

text \<open>A continuation runs only on success: the recursive definitions below need it to see their progress.\<close>

lemma bindE_cong [fundef_cong]:
  "r = r' \<Longrightarrow> (\<And>x. r' = Inr x \<Longrightarrow> f x = g x) \<Longrightarrow> bindE r f = bindE r' g"
  by (cases r') simp_all

section \<open>string.c\<close>

definition load :: "nat \<Rightarrow> mem \<Rightarrow> u8 res" where
  "load p m = (if p < msize m then Inr (mbyte m p) else Inl WildAccess)"

function Strlen_from :: "nat \<Rightarrow> mem \<Rightarrow> nat \<Rightarrow> nat res" where
  "Strlen_from s m i = bindE (load (s + i) m) (\<lambda>c. if c \<noteq> 0 then Strlen_from s m (i + 1) else Inr i)"
  by pat_completeness auto
termination
  by (relation "measure (\<lambda>(s, m, i). msize m - (s + i))") (auto simp: load_def split: if_splits)

definition Strlen :: "nat \<Rightarrow> mem \<Rightarrow> nat res" where
  "Strlen s m = Strlen_from s m 0"

primrec Memset_from :: "nat \<Rightarrow> u32 \<Rightarrow> nat \<Rightarrow> mem \<Rightarrow> mem res" where
  "Memset_from addr val 0 m = Inr m"
| "Memset_from addr val (Suc n) m =
     bindE (wr addr [ucast (val AND 0xff)] m) (Memset_from (addr + 1) val n)"

definition Memset :: "nat \<Rightarrow> u32 \<Rightarrow> nat \<Rightarrow> mem \<Rightarrow> (nat \<times> mem) res" where
  "Memset addr val len m = bindE (Memset_from addr val len m) (\<lambda>m. Inr (addr, m))"

function Strcpy_from :: "nat \<Rightarrow> nat \<Rightarrow> mem \<Rightarrow> (nat \<times> mem) res" where
  "Strcpy_from dst src m =
     bindE (load src m) (\<lambda>c.
       if c \<noteq> 0 then bindE (wr dst [c] m) (\<lambda>m. Strcpy_from (dst + 1) (src + 1) m)
       else bindE (wr dst [0] m) (\<lambda>m. Inr (dst, m)))"
  by pat_completeness auto
termination
  by (relation "measure (\<lambda>(dst, src, m). msize m - src)")
    (auto simp: load_def dest: wr_size split: if_splits)

definition Strcpy :: "nat option \<Rightarrow> nat \<Rightarrow> mem \<Rightarrow> (nat option \<times> mem) res" where
  "Strcpy dst src m =
     (case dst of None \<Rightarrow> Inr (None, m)
      | Some d \<Rightarrow> bindE (Strcpy_from d src m) (\<lambda>(e, m). Inr (Some e, m)))"

section \<open>atoi.c\<close>

definition isdigit :: "u8 \<Rightarrow> bool" where
  "isdigit c \<longleftrightarrow> 0x30 \<le> c \<and> c \<le> 0x39"

definition atoi_step :: "u32 \<Rightarrow> u8 \<Rightarrow> u32" where
  "atoi_step ret c = (if isdigit c then ret * 10 + (ucast c - 0x30) else ret)"

definition atoi :: "u8 list \<Rightarrow> u32" where
  "atoi nptr = foldl atoi_step 0 nptr"

section \<open>Printing numbers\<close>

definition digits :: "u8 list" where
  "digits = bytes ''0123456789abcdef''"

text \<open>
  The first loop of every number printer: \<open>while (v > 0) { buf[i++] = digits[dig v]; v = nxt v; }\<close>. It
  stops when \<open>v\<close> reaches 0, or faults at the end of \<open>buf\<close>.
\<close>

function emit :: "('a::len word \<Rightarrow> 'a word) \<Rightarrow> ('a word \<Rightarrow> 'a word) \<Rightarrow> 'a word \<Rightarrow> nat \<Rightarrow> mem \<Rightarrow> (nat \<times> mem) res" where
  "emit dig nxt v i buf =
     (if v = 0 then Inr (i, buf)
      else bindE (wr i [digits ! unat (dig v)] buf) (\<lambda>buf. emit dig nxt (nxt v) (i + 1) buf))"
  by pat_completeness auto
termination
  by (relation "measure (\<lambda>(dig, nxt, v, i, buf). msize buf - i)") (auto simp: wr_def split: if_splits)

text \<open>The second loop: \<open>while (i > 0) { i--; dst[ret++] = buf[i]; }\<close>.\<close>

primrec unwind :: "nat \<Rightarrow> mem \<Rightarrow> nat \<Rightarrow> mem \<Rightarrow> (nat \<times> mem) res" where
  "unwind 0 buf p m = Inr (p, m)"
| "unwind (Suc i) buf p m =
     bindE (load i buf) (\<lambda>c. bindE (wr p [c] m) (\<lambda>m. unwind i buf (p + 1) m))"

definition dec_digit :: "'a::len word \<Rightarrow> 'a word" where "dec_digit v = v mod 0xa"
definition dec_next :: "'a::len word \<Rightarrow> 'a word" where "dec_next v = v div 0xa"
definition hex_digit :: "'a::len word \<Rightarrow> 'a word" where "hex_digit v = v AND 0xf"
definition hex_next :: "'a::len word \<Rightarrow> 'a word" where "hex_next v = drop_bit 4 v"

text \<open>
  The printers get the position of \<open>dst\<close> in the destination buffer and return the number of bytes
  with the buffer. The local digit buffers start with arbitrary contents that are never read.
\<close>

definition putint :: "nat \<Rightarrow> u32 \<Rightarrow> mem \<Rightarrow> (nat \<times> mem) res" where
  "putint dst val m =
     bindE (if val <s 0 then bindE (wr dst [0x2d] m) (\<lambda>m. Inr (- val, 1, m)) else Inr (val, 0, m))
       (\<lambda>(v :: u32, ret :: nat, m).
        if v = 0 then bindE (wr dst [0x30] m) (\<lambda>m. Inr (1, m))
        else
          bindE (emit dec_digit dec_next v 0 (blank 16)) (\<lambda>(i, buf).
          bindE (unwind i buf (dst + ret) m) (\<lambda>(p, m). Inr (p - dst, m))))"

definition putuint :: "nat \<Rightarrow> u32 \<Rightarrow> mem \<Rightarrow> (nat \<times> mem) res" where
  "putuint dst val m =
     (if val = 0 then bindE (wr dst [0x30] m) (\<lambda>m. Inr (1, m))
      else
        bindE (emit dec_digit dec_next val 0 (blank 16)) (\<lambda>(i, buf).
        bindE (unwind i buf dst m) (\<lambda>(p, m). Inr (p - dst, m))))"

definition puthex :: "nat \<Rightarrow> u32 \<Rightarrow> mem \<Rightarrow> (nat \<times> mem) res" where
  "puthex dst val m =
     bindE (wr dst [0x30] m) (\<lambda>m. bindE (wr (dst + 1) [0x78] m) (\<lambda>m.
     bindE (emit hex_digit hex_next val 0 (blank 8)) (\<lambda>(i, buf).
     bindE (unwind i buf (dst + 2) m) (\<lambda>(p, m). Inr (p - dst, m)))))"

text \<open>For 0 the digit goes to the local buffer, not to \<open>dst\<close>; it is counted all the same.\<close>

definition putptr :: "nat \<Rightarrow> u64 \<Rightarrow> mem \<Rightarrow> (nat \<times> mem) res" where
  "putptr dst val m =
     bindE (wr dst [0x30] m) (\<lambda>m. bindE (wr (dst + 1) [0x78] m) (\<lambda>m.
     if val = 0 then bindE (wr 2 [0x30] (blank 16)) (\<lambda>buf. Inr (3, m))
     else
       bindE (emit hex_digit hex_next val 0 (blank 16)) (\<lambda>(i, buf).
       bindE (unwind i buf (dst + 2) m) (\<lambda>(p, m). Inr (p - dst, m)))))"

definition putl :: "nat \<Rightarrow> u64 \<Rightarrow> mem \<Rightarrow> (nat \<times> mem) res" where
  "putl dst val m =
     bindE (if val <s 0 then bindE (wr dst [0x2d] m) (\<lambda>m. Inr (- val, 1, m)) else Inr (val, 0, m))
       (\<lambda>(v :: u64, ret :: nat, m).
        bindE (emit dec_digit dec_next v 0 (blank 24)) (\<lambda>(i, buf).
        bindE (unwind i buf (dst + ret) m) (\<lambda>(p, m). Inr (p - dst, m))))"

primrec putchars :: "nat \<Rightarrow> u8 list \<Rightarrow> mem \<Rightarrow> (nat \<times> mem) res" where
  "putchars p [] m = Inr (p, m)"
| "putchars p (c # cs) m = bindE (wr p [c] m) (putchars (p + 1) cs)"

definition putstr :: "nat \<Rightarrow> u8 list option \<Rightarrow> mem \<Rightarrow> (nat \<times> mem) res" where
  "putstr dst src m =
     bindE (putchars dst (case src of None \<Rightarrow> bytes ''(null)'' | Some s \<Rightarrow> s) m) (\<lambda>(p, m). Inr (p - dst, m))"

text \<open>\<open>putul\<close> copies back by index: \<open>dst[i] = buf[ret - 1 - i]\<close> for \<open>i < ret\<close>.\<close>

definition putul :: "nat \<Rightarrow> u64 \<Rightarrow> mem \<Rightarrow> (nat \<times> mem) res" where
  "putul dst val m =
     (if val = 0 then bindE (wr dst [0x30] m) (\<lambda>m. Inr (1, m))
      else
        bindE (emit dec_digit dec_next val 0 (blank 24)) (\<lambda>(ret, buf).
        bindE (foldE (\<lambda>i m. bindE (load (ret - 1 - i) buf) (\<lambda>c. wr (dst + i) [c] m)) [0..<ret] m)
          (\<lambda>m. Inr (ret, m))))"

section \<open>Sprintf and Printf\<close>

text \<open>
  A variadic argument: an \<open>int\<close> or \<open>unsigned int\<close>, a \<open>long\<close> or \<open>unsigned long\<close>, or a string pointer,
  possibly null. Reading an argument of another kind, or one more than were passed, is a fault.
\<close>

datatype va = VInt u32 | VLong u64 | VStr "u8 list option"

fun va_int :: "va list \<Rightarrow> (u32 \<times> va list) res" where
  "va_int (VInt n # vs) = Inr (n, vs)"
| "va_int _ = Inl WildAccess"

fun va_long :: "va list \<Rightarrow> (u64 \<times> va list) res" where
  "va_long (VLong n # vs) = Inr (n, vs)"
| "va_long _ = Inl WildAccess"

fun va_str :: "va list \<Rightarrow> (u8 list option \<times> va list) res" where
  "va_str (VStr s # vs) = Inr (s, vs)"
| "va_str _ = Inl WildAccess"

text \<open>
  One conversion: \<open>None\<close> for a character that is no conversion, otherwise how the argument is taken and
  printed at \<open>dst + ret\<close>.
\<close>

definition conversion :: "u8 \<Rightarrow> (nat \<Rightarrow> va list \<Rightarrow> mem \<Rightarrow> (nat \<times> va list \<times> mem) res) option" where
  "conversion c =
     (if c = 0x64 then Some (\<lambda>p vs m. bindE (va_int vs) (\<lambda>(v, vs). bindE (putint p v m) (\<lambda>(n, m). Inr (n, vs, m))))
      else if c = 0x75 then Some (\<lambda>p vs m. bindE (va_int vs) (\<lambda>(v, vs). bindE (putuint p v m) (\<lambda>(n, m). Inr (n, vs, m))))
      else if c = 0x78 then Some (\<lambda>p vs m. bindE (va_int vs) (\<lambda>(v, vs). bindE (puthex p v m) (\<lambda>(n, m). Inr (n, vs, m))))
      else if c = 0x70 then Some (\<lambda>p vs m. bindE (va_long vs) (\<lambda>(v, vs). bindE (putptr p v m) (\<lambda>(n, m). Inr (n, vs, m))))
      else if c = 0x6c then Some (\<lambda>p vs m. bindE (va_long vs) (\<lambda>(v, vs). bindE (putl p v m) (\<lambda>(n, m). Inr (n, vs, m))))
      else if c = 0x73 then Some (\<lambda>p vs m. bindE (va_str vs) (\<lambda>(v, vs). bindE (putstr p v m) (\<lambda>(n, m). Inr (n, vs, m))))
      else if c = 0x4c then Some (\<lambda>p vs m. bindE (va_long vs) (\<lambda>(v, vs). bindE (putul p v m) (\<lambda>(n, m). Inr (n, vs, m))))
      else None)"

fun Sprintf_loop :: "nat \<Rightarrow> u8 list \<Rightarrow> va list \<Rightarrow> nat \<Rightarrow> mem \<Rightarrow> (nat \<times> mem) res" where
  "Sprintf_loop dst [] vs ret m = Inr (ret, m)"
| "Sprintf_loop dst [c] vs ret m = bindE (wr (dst + ret) [c] m) (\<lambda>m. Inr (ret + 1, m))"
| "Sprintf_loop dst (c # d # fmt) vs ret m =
     (if c = 0x25 then
        (case conversion d of
           Some put \<Rightarrow> bindE (put (dst + ret) vs m) (\<lambda>(n, vs, m). Sprintf_loop dst fmt vs (ret + n) m)
         | None \<Rightarrow> bindE (wr (dst + ret) [0x25] m) (\<lambda>m. Sprintf_loop dst (d # fmt) vs (ret + 1) m))
      else bindE (wr (dst + ret) [c] m) (\<lambda>m. Sprintf_loop dst (d # fmt) vs (ret + 1) m))"

definition Sprintf :: "nat \<Rightarrow> u8 list \<Rightarrow> va list \<Rightarrow> mem \<Rightarrow> (nat \<times> mem) res" where
  "Sprintf dst fmt vs m =
     bindE (Sprintf_loop dst fmt vs 0 m) (\<lambda>(ret, m). bindE (wr (dst + ret) [0] m) (\<lambda>m. Inr (ret, m)))"

text \<open>
  \<open>Printf\<close> formats into its static buffer, which outlives the call, and writes it to descriptor 1:
  the count, the bytes given to \<open>sys_write\<close> and the buffer.
\<close>

definition Printf :: "u8 list \<Rightarrow> va list \<Rightarrow> mem \<Rightarrow> (nat \<times> u8 list \<times> mem) res" where
  "Printf fmt vs buf =
     bindE (Sprintf_loop 0 fmt vs 0 buf) (\<lambda>(ret, buf).
     bindE (wr ret [0] buf) (\<lambda>buf.
     bindE (rd 0 ret buf) (\<lambda>out. Inr (ret, out, buf))))"

text \<open>\<open>Puts\<close> writes the string at \<open>s\<close> without a newline.\<close>

definition Puts :: "nat \<Rightarrow> mem \<Rightarrow> u8 list res" where
  "Puts s m = bindE (Strlen s m) (\<lambda>n. rd s n m)"

section \<open>Writing in pieces\<close>

lemma wr_Nil [simp]: "p \<le> msize m \<Longrightarrow> wr p [] m = Inr m"
  by simp

lemma wr_wr: "bindE (wr p xs m) (wr (p + length xs) ys) = wr p (xs @ ys) m"
  by (simp add: wr_def poke_append)

lemma wr_Cons: "bindE (wr p [x] m) (wr (p + 1) ys) = wr p (x # ys) m"
  using wr_wr [of p "[x]" m ys] by simp

lemma bindE_unit [simp]: "bindE r Inr = r"
  by (cases r) simp_all

lemma foldE_one [simp]: "foldE f [x] = f x"
  by (rule ext) (simp add: bindE_def split: sum.splits)

lemma bindE_assoc: "bindE (bindE r f) g = bindE r (\<lambda>x. bindE (f x) g)"
  by (cases r) simp_all

lemma wr_then: "bindE (wr p xs m) (\<lambda>m. bindE (wr (p + length xs) ys m) k) = bindE (wr p (xs @ ys) m) k"
  by (simp add: bindE_assoc [symmetric] wr_wr)

lemma wr_bound: "wr p xs m = Inr m' \<Longrightarrow> p + length xs \<le> msize m'"
  by (auto simp: wr_def split: if_splits)

lemma putchars_wr: "p \<le> msize m \<Longrightarrow> putchars p cs m = bindE (wr p cs m) (\<lambda>m. Inr (p + length cs, m))"
proof (induction cs arbitrary: p m)
  case Nil
  then show ?case by simp
next
  case (Cons c cs)
  have "putchars p (c # cs) m =
      bindE (wr p [c] m) (\<lambda>m. bindE (wr (p + length [c]) cs m) (\<lambda>m. Inr (p + length (c # cs), m)))"
    unfolding putchars.simps
  proof (rule bindE_cong [OF refl])
    fix x
    assume "wr p [c] m = Inr x"
    then have "p + 1 \<le> msize x" using wr_bound by fastforce
    then show "putchars (p + 1) cs x = bindE (wr (p + length [c]) cs x) (\<lambda>m. Inr (p + length (c # cs), m))"
      using Cons.IH by simp
  qed
  then show ?case unfolding wr_then by simp
qed

lemma load_ok [simp]: "p < msize m \<Longrightarrow> load p m = Inr (mbyte m p)"
  by (simp add: load_def)

lemma unwind_wr:
  "i \<le> msize buf \<Longrightarrow> p \<le> msize m \<Longrightarrow>
   unwind i buf p m = bindE (wr p (rev (peek buf 0 i)) m) (\<lambda>m. Inr (p + i, m))"
proof (induction i arbitrary: p m)
  case 0
  then show ?case by (simp add: peek_def)
next
  case (Suc i)
  have r: "rev (peek buf 0 (Suc i)) = [mbyte buf i] @ rev (peek buf 0 i)"
    by (simp add: peek_def)
  have "unwind (Suc i) buf p m =
      bindE (wr p [mbyte buf i] m) (\<lambda>m. bindE (wr (p + length [mbyte buf i]) (rev (peek buf 0 i)) m) (\<lambda>m. Inr (p + Suc i, m)))"
    using Suc.prems(1) unfolding unwind.simps
  proof (simp, intro bindE_cong [OF refl])
    fix x
    assume "wr p [mbyte buf i] m = Inr x"
    then have "Suc p \<le> msize x" using wr_bound by fastforce
    then show "unwind i buf (Suc p) x = bindE (wr (Suc p) (rev (peek buf 0 i)) x) (\<lambda>m. Inr (Suc (p + i), m))"
      using Suc by simp
  qed
  then show ?case unfolding r wr_then .
qed

section \<open>Positional notation\<close>

text \<open>
  The character of a digit, and the numeral of \<open>n\<close> in base \<open>b\<close>, most significant digit first, empty
  for 0; and its value.
\<close>

definition digit_char :: "nat \<Rightarrow> u8" where
  "digit_char d = of_nat (if d < 10 then 0x30 + d else 0x57 + d)"

fun radix :: "nat \<Rightarrow> nat \<Rightarrow> u8 list" where
  "radix b n = (if n = 0 \<or> b < 2 then [] else radix b (n div b) @ [digit_char (n mod b)])"

declare radix.simps [simp del] emit.simps [simp del]

definition digit_val :: "u8 \<Rightarrow> nat" where
  "digit_val c = (if isdigit c then unat c - 0x30 else unat c - 0x57)"

definition number :: "nat \<Rightarrow> u8 list \<Rightarrow> nat" where
  "number b s = foldl (\<lambda>a c. a * b + digit_val c) 0 s"

lemma radix_zero [simp]: "radix b 0 = []"
  by (simp add: radix.simps)

lemma all_below_16: "(\<forall>d<16. P d) \<longleftrightarrow> (\<forall>d\<in>{0,1,2,3,4,5,6,7,8,9,10,11,12,13,14,15::nat}. P d)"
proof -
  have "{..<16::nat} = {0,1,2,3,4,5,6,7,8,9,10,11,12,13,14,15}" by (simp add: lessThan_nat_numeral lessThan_Suc insert_commute)
  then show ?thesis by (metis lessThan_iff)
qed

lemma digits_char: "\<forall>d<16. digit_val (digit_char d) = d \<and> digit_char d \<noteq> 0 \<and> (d < 10 \<longrightarrow> isdigit (digit_char d))"
  unfolding all_below_16 by (simp add: digit_char_def digit_val_def isdigit_def)

lemma digits_table: "\<forall>d<16. digits ! d = digit_char d"
  unfolding all_below_16 by (simp add: digits_def bytes_def digit_char_def)

locale radix_base =
  fixes base :: nat
  assumes base_ge: "2 \<le> base" and base_le: "base \<le> 16"
begin

lemma radix_step: "0 < n \<Longrightarrow> radix base n = radix base (n div base) @ [digit_char (n mod base)]"
  using base_ge by (simp add: radix.simps [of base n])

lemma digit_below: "n mod base < 16"
  using base_ge base_le mod_less_divisor [of base n] by linarith

lemma number_radix: "number base (radix base n) = n"
proof (induction n rule: less_induct)
  case (less n)
  show ?case
  proof (cases "n = 0")
    case False
    then have "number base (radix base n) = number base (radix base (n div base)) * base + n mod base"
      using digits_char digit_below [of n] by (simp add: radix_step number_def)
    also have "\<dots> = n"
      using less False base_ge by simp
    finally show ?thesis .
  qed (simp add: number_def)
qed

lemma radix_length: "n < base ^ k \<Longrightarrow> length (radix base n) \<le> k"
proof (induction k arbitrary: n)
  case (Suc k)
  show ?case
  proof (cases "n = 0")
    case False
    have "n div base < base ^ k"
      using Suc.prems base_ge by (simp add: less_mult_imp_div_less mult.commute)
    then show ?thesis using Suc.IH False by (simp add: radix_step)
  qed simp
qed simp

lemma radix_nonzero: "0 \<notin> set (radix base n)"
proof (induction n rule: less_induct)
  case (less n)
  show ?case
    using less [of "n div base"] digits_char digit_below [of n] base_ge
    by (cases "n = 0") (auto simp: radix_step)
qed

lemma radix_not_Nil: "0 < n \<Longrightarrow> radix base n \<noteq> []"
  by (simp add: radix_step)

end

text \<open>What the digit loop needs of its two word operations, and what it then writes.\<close>

locale radix_loop = radix_base +
  fixes dig nxt :: "'a::len word \<Rightarrow> 'a word"
  assumes dig_mod: "unat (dig v) = unat v mod base" and nxt_div: "unat (nxt v) = unat v div base"
begin

lemma emit_radix:
  "i + length (radix base (unat v)) \<le> msize buf \<Longrightarrow>
   emit dig nxt v i buf = Inr (i + length (radix base (unat v)), poke buf i (rev (radix base (unat v))))"
proof (induction "unat v" arbitrary: v i buf rule: less_induct)
  case less
  show ?case
  proof (cases "v = 0")
    case True
    then show ?thesis by (simp add: emit.simps)
  next
    case False
    let ?d = "digit_char (unat v mod base)"
    have d: "digits ! (unat v mod base) = ?d" using digits_table digit_below by blast
    have pos: "0 < unat v" using False by (simp add: unat_gt_0)
    have s: "radix base (unat v) = radix base (unat (nxt v)) @ [?d]"
      using radix_step [OF pos] by (simp add: nxt_div)
    have lt: "unat (nxt v) < unat v"
      using pos base_ge by (simp add: nxt_div)
    have "emit dig nxt v i buf = emit dig nxt (nxt v) (i + 1) (poke buf i [?d])"
      using less.prems False by (simp add: emit.simps [of dig nxt v i buf] s dig_mod d)
    also have "\<dots> = Inr (i + 1 + length (radix base (unat (nxt v))),
        poke (poke buf i [?d]) (i + 1) (rev (radix base (unat (nxt v)))))"
      using less.prems by (intro less.hyps [OF lt]) (simp add: s)
    finally show ?thesis
      using poke_append [of buf i "[?d]" "rev (radix base (unat (nxt v)))"] by (simp add: s)
  qed
qed

lemma print_wr:
  assumes "unat v < base ^ k" and "p \<le> msize m"
  shows "bindE (emit dig nxt v 0 (blank k)) (\<lambda>(i, buf). bindE (unwind i buf p m) f) =
     bindE (wr p (radix base (unat v)) m) (\<lambda>m. f (p + length (radix base (unat v)), m))"
proof -
  let ?r = "radix base (unat v)"
  have len: "length ?r \<le> k" using radix_length [OF assms(1)] .
  then have "emit dig nxt v 0 (blank k) = Inr (length ?r, poke (blank k) 0 (rev ?r))"
    using emit_radix [of 0 v "blank k"] by (simp add: blank_def)
  then show ?thesis
    using len assms(2) unwind_wr [of "length ?r" "poke (blank k) 0 (rev ?r)" p m]
    by (simp add: blank_def bindE_assoc)
qed

end

lemma unat_and_15: "unat (v AND 0xf :: 'a::len word) = unat v mod 16"
proof -
  have "v AND 0xf = take_bit 4 v"
    by (simp add: take_bit_eq_mask mask_eq_exp_minus_1)
  then show ?thesis by (simp only: unsigned_take_bit_eq) (simp add: take_bit_eq_mod)
qed

lemma unat_drop_4: "unat (drop_bit 4 v :: 'a::len word) = unat v div 16"
  by (simp only: unat_drop_bit_eq) (simp add: drop_bit_eq_div)

lemmas radix_ops = dec_digit_def dec_next_def hex_digit_def hex_next_def unat_mod unat_div unat_and_15 unat_drop_4

interpretation decimal: radix_base 10
  by unfold_locales simp_all

interpretation hexadecimal: radix_base 16
  by unfold_locales simp_all

interpretation dec32: radix_loop 10 "dec_digit :: u32 \<Rightarrow> u32" dec_next
  by unfold_locales (simp_all add: radix_ops)

interpretation dec64: radix_loop 10 "dec_digit :: u64 \<Rightarrow> u64" dec_next
  by unfold_locales (simp_all add: radix_ops)

interpretation hex32: radix_loop 16 "hex_digit :: u32 \<Rightarrow> u32" hex_next
  by unfold_locales (simp_all add: radix_ops)

interpretation hex64: radix_loop 16 "hex_digit :: u64 \<Rightarrow> u64" hex_next
  by unfold_locales (simp_all add: radix_ops)

section \<open>What each printer writes\<close>

definition int_text :: "u32 \<Rightarrow> u8 list" where
  "int_text v = (if v = 0 then [0x30] else if v <s 0 then 0x2d # radix 10 (unat (- v)) else radix 10 (unat v))"

definition uint_text :: "u32 \<Rightarrow> u8 list" where
  "uint_text v = (if v = 0 then [0x30] else radix 10 (unat v))"

definition hex_text :: "u32 \<Rightarrow> u8 list" where
  "hex_text v = [0x30, 0x78] @ (if v = 0 then [0x30] else radix 16 (unat v))"

definition ptr_text :: "u64 \<Rightarrow> u8 list" where
  "ptr_text v = [0x30, 0x78] @ (if v = 0 then [0x30] else radix 16 (unat v))"

definition long_text :: "u64 \<Rightarrow> u8 list" where
  "long_text v = (if v = 0 then [0x30] else if v <s 0 then 0x2d # radix 10 (unat (- v)) else radix 10 (unat v))"

text \<open>The two texts as the program writes them: for 0 the digit is missing.\<close>

definition hex_out :: "u32 \<Rightarrow> u8 list" where
  "hex_out v = [0x30, 0x78] @ radix 16 (unat v)"

definition long_out :: "u64 \<Rightarrow> u8 list" where
  "long_out v = (if v = 0 then [] else long_text v)"

lemma out_texts: "hex_out v = (if v = 0 then [0x30, 0x78] else hex_text v)"
    "long_out w = (if w <s 0 then 0x2d # radix 10 (unat (- w)) else radix 10 (unat w))"
  by (simp_all add: hex_out_def hex_text_def long_out_def long_text_def)

definition ulong_text :: "u64 \<Rightarrow> u8 list" where
  "ulong_text v = (if v = 0 then [0x30] else radix 10 (unat v))"

definition str_text :: "u8 list option \<Rightarrow> u8 list" where
  "str_text s = (case s of None \<Rightarrow> bytes ''(null)'' | Some t \<Rightarrow> t)"

lemma unat32_bound: "unat (v :: u32) < 10 ^ 16" "unat (v :: u32) < 16 ^ 8"
proof -
  have "unat v < 2 ^ LENGTH(32)" by (rule unsigned_less)
  then show "unat v < 10 ^ 16" "unat v < 16 ^ 8" by simp_all
qed

lemma unat64_bound: "unat (v :: u64) < 10 ^ 24" "unat (v :: u64) < 16 ^ 16"
proof -
  have "unat v < 2 ^ LENGTH(64)" by (rule unsigned_less)
  then show "unat v < 10 ^ 24" "unat v < 16 ^ 16" by simp_all
qed

lemma bindE_wr_cong:
  "(\<And>m'. p + length xs \<le> msize m' \<Longrightarrow> msize m' = msize m \<Longrightarrow> f m' = g m') \<Longrightarrow> bindE (wr p xs m) f = bindE (wr p xs m) g"
  by (rule bindE_cong [OF refl]) (metis wr_bound wr_size)

lemma wr_then1: "bindE (wr p [x] m) (\<lambda>m. bindE (wr (Suc p) ys m) k) = bindE (wr p (x # ys) m) k"
  using wr_then [of p "[x]" m ys k] by simp

lemma signed_neg_nonzero: "v <s 0 \<Longrightarrow> - v \<noteq> (0 :: 'a::len word)"
  by (auto simp: word_sless_alt)

lemma putint_wr: "putint p v m = bindE (wr p (int_text v) m) (\<lambda>m. Inr (length (int_text v), m))" if "p \<le> msize m"
proof (cases "v <s 0")
  case True
  have "putint p v m =
      bindE (wr p [0x2d] m) (\<lambda>m. bindE (wr (Suc p) (radix 10 (unat (- v))) m) (\<lambda>m. Inr (length (int_text v), m)))"
    using True signed_neg_nonzero [OF True]
    by (auto simp: putint_def bindE_assoc int_text_def dec32.print_wr [OF unat32_bound(1)] intro!: bindE_wr_cong)
  then show ?thesis
    using True signed_neg_nonzero [OF True] unfolding wr_then1 by (auto simp: int_text_def)
next
  case False
  then show ?thesis
    using that by (auto simp: putint_def int_text_def dec32.print_wr [OF unat32_bound(1)])
qed

lemma putuint_wr: "putuint p v m = bindE (wr p (uint_text v) m) (\<lambda>m. Inr (length (uint_text v), m))" if "p \<le> msize m"
  using that by (auto simp: putuint_def uint_text_def dec32.print_wr [OF unat32_bound(1)])

lemma prefix_0x: "bindE (wr p [0x30] m) (\<lambda>m. bindE (wr (Suc p) [0x78] m) k) = bindE (wr p [0x30, 0x78] m) k"
  by (rule wr_then1)

lemma puthex_wr: "puthex p v m = bindE (wr p (hex_out v) m) (\<lambda>m. Inr (length (hex_out v), m))" if "p \<le> msize m"
proof -
  have "puthex p v m = bindE (wr p [0x30, 0x78] m)
      (\<lambda>m. bindE (wr (p + length [0x30, 0x78 :: u8]) (radix 16 (unat v)) m) (\<lambda>m. Inr (length (hex_out v), m)))"
    by (auto simp: puthex_def prefix_0x hex_out_def hex32.print_wr [OF unat32_bound(2)] intro!: bindE_wr_cong)
  then show ?thesis unfolding wr_then by (simp add: hex_out_def)
qed

lemma putptr_wr: "putptr p v m = bindE (wr p (ptr_text v) m) (\<lambda>m. Inr (length (ptr_text v), m))"
  if "p \<le> msize m" "v \<noteq> 0"
proof -
  have "putptr p v m = bindE (wr p [0x30, 0x78] m)
      (\<lambda>m. bindE (wr (p + length [0x30, 0x78 :: u8]) (radix 16 (unat v)) m) (\<lambda>m. Inr (length (ptr_text v), m)))"
    using that by (auto simp: putptr_def prefix_0x ptr_text_def hex64.print_wr [OF unat64_bound(2)] intro!: bindE_wr_cong)
  then show ?thesis using that(2) unfolding wr_then by (simp add: ptr_text_def)
qed

lemma putl_wr: "putl p v m = bindE (wr p (long_out v) m) (\<lambda>m. Inr (length (long_out v), m))" if "p \<le> msize m"
proof (cases "v <s 0")
  case True
  have "putl p v m =
      bindE (wr p [0x2d] m) (\<lambda>m. bindE (wr (Suc p) (radix 10 (unat (- v))) m) (\<lambda>m. Inr (length (long_out v), m)))"
    using True by (auto simp: putl_def bindE_assoc out_texts dec64.print_wr [OF unat64_bound(1)] intro!: bindE_wr_cong)
  then show ?thesis
    using True unfolding wr_then1 by (auto simp: out_texts)
next
  case False
  then show ?thesis
    using that by (auto simp: putl_def out_texts dec64.print_wr [OF unat64_bound(1)])
qed

lemma putstr_wr: "putstr p s m = bindE (wr p (str_text s) m) (\<lambda>m. Inr (length (str_text s), m))" if "p \<le> msize m"
  using that by (simp add: putstr_def str_text_def putchars_wr bindE_assoc)

text \<open>The index loop of \<open>putul\<close> reverses the buffer as the others do.\<close>

lemma copy_back_wr:
  assumes "p \<le> msize m" and "n \<le> msize buf"
  shows "k \<le> n \<Longrightarrow> foldE (\<lambda>i m. bindE (load (n - 1 - i) buf) (\<lambda>c. wr (p + i) [c] m)) [0..<k] m =
     wr p (take k (rev (peek buf 0 n))) m"
proof (induction k)
  case 0
  then show ?case using assms by simp
next
  case (Suc k)
  let ?xs = "take k (rev (peek buf 0 n))"
  have next_byte: "rev (peek buf 0 n) ! k = mbyte buf (n - 1 - k)"
    using Suc.prems by (simp add: rev_nth)
  have tk: "take (Suc k) (rev (peek buf 0 n)) = ?xs @ [mbyte buf (n - 1 - k)]"
    using Suc.prems next_byte by (simp add: take_Suc_conv_app_nth)
  have len: "length ?xs = k" using Suc.prems by simp
  have "bindE (wr p ?xs m) (wr (p + k) [mbyte buf (n - 1 - k)]) = wr p (?xs @ [mbyte buf (n - 1 - k)]) m"
    using wr_wr [of p ?xs m] unfolding len .
  then show ?case
    using Suc assms(2) by (simp add: foldE_append tk)
qed

lemma putul_wr: "putul p v m = bindE (wr p (ulong_text v) m) (\<lambda>m. Inr (length (ulong_text v), m))" if "p \<le> msize m"
proof (cases "v = 0")
  case True
  then show ?thesis by (simp add: putul_def ulong_text_def)
next
  case False
  let ?r = "radix 10 (unat v)" and ?b = "poke (blank 24) 0 (rev (radix 10 (unat v)))"
  have len: "length ?r \<le> 24" using decimal.radix_length [OF unat64_bound(1)] .
  then have "emit dec_digit dec_next v 0 (blank 24) = Inr (length ?r, ?b)"
    using dec64.emit_radix [of 0 v "blank 24"] by (simp add: blank_def)
  then show ?thesis
    using False that len copy_back_wr [of p m "length ?r" ?b "length ?r"]
    by (simp add: putul_def ulong_text_def blank_def)
qed

lemmas printers_wr = putint_wr putuint_wr puthex_wr putptr_wr putl_wr putstr_wr putul_wr

section \<open>The text of a format\<close>

text \<open>
  The conversions of a format and what each prints of its argument; \<open>None\<close> for an argument of another
  kind. A percent sign before any other character stands for itself, like that character.
\<close>

definition conversion_chars :: "u8 list" where
  "conversion_chars = bytes ''dluxpLs''"

fun conv_text :: "u8 \<Rightarrow> va \<Rightarrow> u8 list option" where
  "conv_text c (VInt v) =
     (if c = 0x64 then Some (int_text v) else if c = 0x75 then Some (uint_text v)
      else if c = 0x78 then Some (hex_text v) else None)"
| "conv_text c (VLong v) =
     (if c = 0x70 then Some (ptr_text v) else if c = 0x6c then Some (long_text v)
      else if c = 0x4c then Some (ulong_text v) else None)"
| "conv_text c (VStr s) = (if c = 0x73 then Some (str_text s) else None)"

text \<open>The text of a format, from the text of one conversion.\<close>

fun format_by :: "(u8 \<Rightarrow> va \<Rightarrow> u8 list option) \<Rightarrow> u8 list \<Rightarrow> va list \<Rightarrow> u8 list option" where
  "format_by f [] vs = Some []"
| "format_by f [c] vs = Some [c]"
| "format_by f (c # d # fmt) vs =
     (if c = 0x25 \<and> d \<in> set conversion_chars then
        (case vs of
           [] \<Rightarrow> None
         | v # vs \<Rightarrow> (case f d v of None \<Rightarrow> None | Some t \<Rightarrow> map_option ((@) t) (format_by f fmt vs)))
      else map_option ((#) c) (format_by f (d # fmt) vs))"

definition format_text :: "u8 list \<Rightarrow> va list \<Rightarrow> u8 list option" where
  "format_text = format_by conv_text"

text \<open>
  The arguments of the conversions in order, and the ones the program prints wrongly: 0 as \<open>%x\<close>, \<open>%l\<close> or \<open>%p\<close>.
\<close>

fun conversions :: "u8 list \<Rightarrow> u8 list" where
  "conversions (c # d # fmt) =
     (if c = 0x25 \<and> d \<in> set conversion_chars then d # conversions fmt else conversions (d # fmt))"
| "conversions fmt = []"

fun zero_misprint :: "u8 \<Rightarrow> va \<Rightarrow> bool" where
  "zero_misprint c (VInt v) \<longleftrightarrow> c = 0x78 \<and> v = 0"
| "zero_misprint c (VLong v) \<longleftrightarrow> (c = 0x6c \<or> c = 0x70) \<and> v = 0"
| "zero_misprint c (VStr s) \<longleftrightarrow> False"

text \<open>What the program writes; the null pointer under \<open>%p\<close> leaves a byte of the destination as it was and has no text.\<close>

fun conv_out :: "u8 \<Rightarrow> va \<Rightarrow> u8 list option" where
  "conv_out c (VInt v) = (if c = 0x78 then Some (hex_out v) else conv_text c (VInt v))"
| "conv_out c (VLong v) =
     (if c = 0x6c then Some (long_out v) else if c = 0x70 \<and> v = 0 then None else conv_text c (VLong v))"
| "conv_out c (VStr s) = conv_text c (VStr s)"

definition format_out :: "u8 list \<Rightarrow> va list \<Rightarrow> u8 list option" where
  "format_out = format_by conv_out"

lemma conv_out_text: "\<not> zero_misprint c v \<Longrightarrow> conv_out c v = conv_text c v"
  by (cases v) (auto simp: out_texts(1) long_out_def)

lemma format_out_text:
  "\<forall>(c, v)\<in>set (zip (conversions fmt) vs). \<not> zero_misprint c v \<Longrightarrow> format_out fmt vs = format_text fmt vs"
  unfolding format_out_def format_text_def
  by (induction conv_text fmt vs rule: format_by.induct)
    (auto simp: conv_out_text split: list.splits option.splits)

lemmas format_simps = format_out_def format_text_def conversion_chars_def bytes_def

lemma conversion_char: "conversion d \<noteq> None \<longleftrightarrow> d \<in> set conversion_chars"
  by (auto simp: conversion_def conversion_chars_def bytes_def)

lemma conversion_text:
  assumes "conversion d = Some put" and "conv_out d v = Some t" and "p \<le> msize m"
  shows "put p (v # vs) m = bindE (wr p t m) (\<lambda>m. Inr (length t, vs, m))"
proof (cases v)
  case (VInt n)
  then consider "d = 0x64" "t = int_text n" | "d = 0x75" "t = uint_text n" | "d = 0x78" "t = hex_out n"
    using assms(2) by (auto split: if_splits)
  then show ?thesis
    using assms VInt by cases (auto simp: conversion_def printers_wr bindE_assoc)
next
  case (VLong n)
  then consider "d = 0x70" "n \<noteq> 0" "t = ptr_text n" | "d = 0x6c" "t = long_out n" | "d = 0x4c" "t = ulong_text n"
    using assms(2) by (auto split: if_splits)
  then show ?thesis
    using assms VLong by cases (auto simp: conversion_def printers_wr bindE_assoc)
next
  case (VStr s)
  then have "d = 0x73" "t = str_text s"
    using assms(2) by (auto split: if_splits)
  then show ?thesis
    using assms VStr by (auto simp: conversion_def printers_wr bindE_assoc)
qed

lemma Sprintf_loop_wr:
  "format_out fmt vs = Some s \<Longrightarrow> dst + ret \<le> msize m \<Longrightarrow>
   Sprintf_loop dst fmt vs ret m = bindE (wr (dst + ret) s m) (\<lambda>m. Inr (ret + length s, m))"
proof (induction dst fmt vs ret m arbitrary: s rule: Sprintf_loop.induct)
  case (1 dst vs ret m)
  then show ?case by (simp add: format_out_def)
next
  case (2 dst c vs ret m)
  then show ?case by (auto simp: format_out_def)
next
  case (3 dst c d fmt vs ret m)
  show ?case
  proof (cases "c = 0x25 \<and> conversion d \<noteq> None")
    case True
    then obtain put where put: "conversion d = Some put" and c: "c = 0x25" by auto
    have dc: "d \<in> set conversion_chars" using put conversion_char by auto
    obtain v vs' t where vs: "vs = v # vs'" and ct: "conv_out d v = Some t"
      using 3(4) dc c by (auto simp: format_out_def split: list.splits option.splits)
    obtain s' where fs: "format_out fmt vs' = Some s'" and s: "s = t @ s'"
      using 3(4) dc c vs ct by (auto simp: format_out_def)
    have "Sprintf_loop dst (c # d # fmt) vs ret m =
        bindE (wr (dst + ret) t m) (\<lambda>m. Sprintf_loop dst fmt vs' (ret + length t) m)"
      using put c ct 3(5) vs by (simp add: conversion_text bindE_assoc)
    also have "\<dots> = bindE (wr (dst + ret) t m)
        (\<lambda>m. bindE (wr (dst + ret + length t) s' m) (\<lambda>m. Inr (ret + length s, m)))"
    proof (rule bindE_cong [OF refl])
      fix x
      assume x: "wr (dst + ret) t m = Inr x"
      have "put (dst + ret) vs m = Inr (length t, vs', x)"
        using conversion_text [OF put ct 3(5)] x vs by simp
      then show "Sprintf_loop dst fmt vs' (ret + length t) x =
          bindE (wr (dst + ret + length t) s' x) (\<lambda>m. Inr (ret + length s, m))"
        using 3(2) [OF c put _ _ _ fs] wr_bound [OF x] s by (simp add: add.assoc)
    qed
    finally show ?thesis unfolding wr_then s .
  next
    case False
    then obtain s' where fs: "format_out (d # fmt) vs = Some s'" and s: "s = c # s'"
      using 3(4) False conversion_char [of d] by (auto simp: format_out_def)
    have "Sprintf_loop dst (c # d # fmt) vs ret m =
        bindE (wr (dst + ret) [c] m) (\<lambda>m. Sprintf_loop dst (d # fmt) vs (ret + 1) m)"
      using False by auto
    also have "\<dots> = bindE (wr (dst + ret) [c] m)
        (\<lambda>m. bindE (wr (Suc (dst + ret)) s' m) (\<lambda>m. Inr (ret + length s, m)))"
    proof (rule bindE_cong [OF refl])
      fix x
      assume x: "wr (dst + ret) [c] m = Inr x"
      have "dst + (ret + 1) \<le> msize x" using wr_bound [OF x] by simp
      then show "Sprintf_loop dst (d # fmt) vs (ret + 1) x =
          bindE (wr (Suc (dst + ret)) s' x) (\<lambda>m. Inr (ret + length s, m))"
        using 3(1) [OF _ _ _ fs] 3(3) [OF _ x fs] x False s by (cases "c = 0x25") auto
    qed
    finally show ?thesis unfolding wr_then1 s .
  qed
qed

section \<open>Strings in memory\<close>

text \<open>A terminated string of the buffer.\<close>

definition cstring :: "mem \<Rightarrow> nat \<Rightarrow> u8 list \<Rightarrow> bool" where
  "cstring m p s \<longleftrightarrow> 0 \<notin> set s \<and> p + length s < msize m \<and> peek m p (length s + 1) = s @ [0]"

declare Strlen_from.simps [simp del] Strcpy_from.simps [simp del]

lemma cstring_size: "cstring m p s \<Longrightarrow> p + length s < msize m"
  by (simp add: cstring_def)

lemma cstring_byte:
  assumes "cstring m p s" and "i \<le> length s"
  shows "mbyte m (p + i) = (if i < length s then s ! i else 0)"
proof -
  have "peek m p (length s + 1) ! i = (s @ [0]) ! i"
    using assms by (simp add: cstring_def)
  then show ?thesis using assms(2) by (simp add: nth_append)
qed

lemma cstring_nonzero: "cstring m p s \<Longrightarrow> i < length s \<Longrightarrow> mbyte m (p + i) \<noteq> 0"
  using cstring_byte [of m p s i] by (auto simp: cstring_def dest: nth_mem)

lemma cstring_poke [simp]: "0 \<notin> set s \<Longrightarrow> p + length s < msize m \<Longrightarrow> cstring (poke m p (s @ [0])) p s"
  by (simp add: cstring_def)

lemma cstring_frame:
  "p + length s < off \<or> off + length bs \<le> p \<Longrightarrow> cstring (poke m off bs) p s = cstring m p s"
  by (auto simp: cstring_def)

lemma cstring_Cons:
  "cstring m p (c # s) \<longleftrightarrow> c \<noteq> 0 \<and> p < msize m \<and> mbyte m p = c \<and> cstring m (p + 1) s"
proof -
  have "peek m p (length (c # s) + 1) = peek m p 1 @ peek m (p + 1) (length s + 1)"
    using peek_append [of m p 1 "length s + 1"] by simp
  then show ?thesis by (auto simp: cstring_def peek_def)
qed

lemma cstring_Nil: "cstring m p [] \<longleftrightarrow> p < msize m \<and> mbyte m p = 0"
  by (simp add: cstring_def peek_def)

lemma cstring_append: "cstring m p (s @ t) \<Longrightarrow> cstring m (p + length s) t"
  by (induction s arbitrary: p) (force simp: cstring_Cons)+

lemma Strlen_cstring: "cstring m p s \<Longrightarrow> Strlen p m = Inr (length s)"
proof -
  assume s: "cstring m p s"
  have "Strlen_from p m i = Inr (length s)" if "i \<le> length s" for i
    using that
  proof (induction "length s - i" arbitrary: i)
    case 0
    then show ?case
      using cstring_size [OF s] cstring_byte [OF s, of i] by (simp add: Strlen_from.simps [of p m i])
  next
    case (Suc k)
    then show ?case
      using cstring_size [OF s] cstring_nonzero [OF s, of i] by (simp add: Strlen_from.simps [of p m i])
  qed
  then show ?thesis by (simp add: Strlen_def)
qed

lemma Puts_cstring: "cstring m p s \<Longrightarrow> Puts p m = Inr s"
proof -
  assume s: "cstring m p s"
  then have "take (length s) (peek m p (length s + 1)) = s" by (simp add: cstring_def)
  then have "peek m p (length s) = s" by (simp add: take_peek)
  then show ?thesis using Strlen_cstring [OF s] cstring_size [OF s] by (simp add: Puts_def)
qed

lemma Memset_wr:
  "addr \<le> msize m \<Longrightarrow> Memset addr v n m = bindE (wr addr (replicate n (ucast v)) m) (\<lambda>m. Inr (addr, m))"
proof -
  have byte: "(ucast (v AND 0xff) :: u8) = ucast v"
    by (rule bit_word_eqI) (auto simp: bit_simps bit_numeral_rec less_Suc_eq numeral_eq_Suc)
  have "addr \<le> msize m \<Longrightarrow> Memset_from addr v n m = wr addr (replicate n (ucast v)) m"
  proof (induction n arbitrary: addr m)
    case (Suc n)
    have "Memset_from addr v (Suc n) m = bindE (wr addr [ucast v] m) (wr (addr + 1) (replicate n (ucast v)))"
      using Suc.IH by (auto simp: byte intro!: bindE_wr_cong)
    then show ?case unfolding wr_Cons by simp
  qed simp
  then show "addr \<le> msize m \<Longrightarrow> ?thesis" by (simp add: Memset_def)
qed

lemma Strcpy_from_cstring:
  assumes "cstring m src s" and "dst + length s < msize m"
    and "src + length s < dst \<or> dst + length s < src"
  shows "Strcpy_from dst src m = Inr (dst + length s, poke m dst (s @ [0]))"
  using assms
proof (induction s arbitrary: dst src m)
  case Nil
  then show ?case
    using cstring_byte [of m src "[]" 0] cstring_size [of m src "[]"] by (simp add: Strcpy_from.simps [of dst src m])
next
  case (Cons c s)
  let ?m = "poke m dst [c]"
  have c: "mbyte m src = c" "c \<noteq> 0"
    using cstring_byte [OF Cons.prems(1), of 0] Cons.prems(1) by (auto simp: cstring_def)
  have "peek m src (1 + (length s + 1)) = [c] @ (s @ [0])"
    using Cons.prems(1) by (simp add: cstring_def)
  then have rest: "cstring m (Suc src) s"
    using Cons.prems(1) unfolding peek_append by (simp add: cstring_def peek_def)
  have "cstring ?m (Suc src) s"
    using rest Cons.prems(3) by (subst cstring_frame) auto
  then have "Strcpy_from (dst + 1) (src + 1) ?m = Inr (dst + 1 + length s, poke ?m (dst + 1) (s @ [0]))"
    using Cons.prems(2,3) Cons.IH [of ?m "src + 1" "dst + 1"] by auto
  then show ?case
    using c Cons.prems(2) cstring_size [OF Cons.prems(1)] poke_append [of m dst "[c]" "s @ [0]"]
    by (simp add: Strcpy_from.simps [of dst src m])
qed

lemma Strcpy_cstring:
  assumes "cstring m src s" and "dst + length s < msize m"
    and "src + length s < dst \<or> dst + length s < src"
  shows "Strcpy (Some dst) src m = Inr (Some (dst + length s), poke m dst (s @ [0]))"
  using Strcpy_from_cstring [OF assms] by (simp add: Strcpy_def)

section \<open>Reading numbers back\<close>

lemma radix_10_digits: "\<forall>c\<in>set (radix 10 n). isdigit c"
proof (induction n rule: less_induct)
  case (less n)
  show ?case
    using less [of "n div 10"] digits_char by (cases "n = 0") (auto simp: decimal.radix_step)
qed

lemma atoi_step_digit: "isdigit c \<Longrightarrow> atoi_step (of_nat a) c = of_nat (a * 10 + digit_val c)"
proof -
  assume d: "isdigit c"
  then have ge: "48 \<le> unat c"
    by (simp add: isdigit_def word_le_nat_alt)
  have "(ucast c :: u32) = of_nat (unat c)" by simp
  then have "(ucast c - 0x30 :: u32) = of_nat (unat c - 48)"
    using ge by (simp add: of_nat_diff)
  then show ?thesis using d by (simp add: atoi_step_def digit_val_def)
qed

lemma atoi_digits: "\<forall>c\<in>set s. isdigit c \<Longrightarrow> atoi s = of_nat (number 10 s)"
proof -
  have "\<forall>c\<in>set s. isdigit c \<Longrightarrow>
      foldl atoi_step (of_nat a) s = of_nat (foldl (\<lambda>a c. a * 10 + digit_val c) a s)" for a
    by (induction s arbitrary: a) (simp_all add: atoi_step_digit del: of_nat_add of_nat_mult)
  from this [of 0] show "\<forall>c\<in>set s. isdigit c \<Longrightarrow> ?thesis" by (simp add: atoi_def number_def)
qed

lemma atoi_radix: "atoi (radix 10 (unat v)) = v"
  by (simp add: atoi_digits [OF radix_10_digits] decimal.number_radix)

lemma atoi_zero: "atoi [0x30] = 0"
  by (simp add: atoi_def atoi_step_def isdigit_def)

lemma atoi_uint: "atoi (uint_text v) = v"
  by (simp add: uint_text_def atoi_zero atoi_radix)

lemma atoi_int: "atoi (int_text v) = (if v <s 0 then - v else v)"
proof -
  have "atoi (0x2d # s) = atoi s" for s
    by (simp add: atoi_def atoi_step_def isdigit_def)
  then show ?thesis by (simp add: int_text_def atoi_zero atoi_radix)
qed

lemma number_ulong: "number 10 (ulong_text v) = unat v"
  by (simp add: ulong_text_def decimal.number_radix) (simp add: number_def digit_val_def isdigit_def)

lemma text_lengths:
  "length (int_text v) \<le> 11" "length (uint_text v) \<le> 10" "length (hex_out v) \<le> 10"
  "length (long_out w) \<le> 21" "length (ulong_text w) \<le> 20" "length (ptr_text w) \<le> 18"
proof -
  have u: "unat (x :: u32) < 2 ^ 32" for x using unsigned_less [of x, where 'a = nat] by simp
  have uw: "unat (x :: u64) < 2 ^ 64" for x using unsigned_less [of x, where 'a = nat] by simp
  have d: "length (radix 10 (unat (x :: u32))) \<le> 10" for x
    using u [of x] by (intro decimal.radix_length) simp
  have dw: "length (radix 10 (unat (x :: u64))) \<le> 20" for x
    using uw [of x] by (intro decimal.radix_length) simp
  show "length (int_text v) \<le> 11" "length (uint_text v) \<le> 10" "length (hex_out v) \<le> 10"
    using d [of v] d [of "- v"] hexadecimal.radix_length [OF unat32_bound(2), of v]
    by (simp_all add: int_text_def uint_text_def hex_out_def)
  show "length (long_out w) \<le> 21" "length (ulong_text w) \<le> 20" "length (ptr_text w) \<le> 18"
    using dw [of w] dw [of "- w"] hexadecimal.radix_length [OF unat64_bound(2), of w]
    by (simp_all add: out_texts ulong_text_def ptr_text_def)
qed

lemma Sprintf_text:
  assumes "format_out fmt vs = Some s" and "dst \<le> msize m"
  shows "Sprintf dst fmt vs m =
     (if dst + length s < msize m then Inr (length s, poke m dst (s @ [0])) else Inl WildAccess)"
proof -
  have "Sprintf dst fmt vs m = bindE (wr dst s m) (\<lambda>m. bindE (wr (dst + length s) [0] m) (\<lambda>m. Inr (length s, m)))"
    using Sprintf_loop_wr [OF assms(1), of dst 0 m] assms(2) by (simp add: Sprintf_def bindE_assoc)
  then show ?thesis unfolding wr_then by (simp add: wr_def Suc_le_eq)
qed

lemma Printf_text:
  assumes "format_out fmt vs = Some s" and "msize buf = 2048"
  shows "Printf fmt vs buf =
     (if length s < 2048 then Inr (length s, s, poke buf 0 (s @ [0])) else Inl WildAccess)"
proof -
  have "Printf fmt vs buf = bindE (wr 0 s buf) (\<lambda>m. bindE (wr (0 + length s) [0] m)
      (\<lambda>m. bindE (rd 0 (length s) m) (\<lambda>out. Inr (length s, out, m))))"
    using Sprintf_loop_wr [OF assms(1), of 0 0 buf] by (simp add: Printf_def bindE_assoc)
  then show ?thesis
    unfolding wr_then using assms(2) by (simp add: wr_def peek_poke_inside)
qed

section \<open>Properties\<close>

text \<open>
  C15: Sprintf on a format whose arguments match writes exactly the text of the format, then the
  terminator, and returns the length of the text; nothing else of the buffer changes. If the text
  does not fit, the call runs past the end of the buffer. The text is that of the usual meaning of the
  seven conversions; excluded are the arguments for which the program differs from it, 0 under \<open>%l\<close>,
  \<open>%x\<close> and \<open>%p\<close>.
\<close>

theorem Sprintf_writes_text:
  assumes "format_text fmt vs = Some s" and "dst \<le> msize m"
    and "\<forall>(c, v)\<in>set (zip (conversions fmt) vs). \<not> zero_misprint c v"
  shows "Sprintf dst fmt vs m =
     (if dst + length s < msize m then Inr (length s, poke m dst (s @ [0])) else Inl WildAccess)"
  using assms(1) Sprintf_text [OF _ assms(2)] format_out_text [OF assms(3)] by simp

theorem Sprintf_writes_text_witness:
  "Sprintf 3 (bytes ''%d:%s%l%x%%'') [VInt (- 7), VStr (Some (bytes ''ab'')), VLong (- 8), VInt 5] (blank 30) =
     Inr (12, poke (blank 30) 3 (bytes ''-7:ab-80x5%%'' @ [0]))"
proof -
  let ?f = "bytes ''%d:%s%l%x%%''" and ?vs = "[VInt (- 7), VStr (Some (bytes ''ab'')), VLong (- 8), VInt 5]"
  have "int_text (- 7) = [0x2d, 0x37]" "long_text (- 8) = [0x2d, 0x38]" "hex_text 5 = [0x30, 0x78, 0x35]"
    by (simp_all add: int_text_def long_text_def hex_text_def word_sless_alt radix.simps digit_char_def)
  then have "format_text ?f ?vs = Some (bytes ''-7:ab-80x5%%'')"
    by (simp add: format_simps str_text_def)
  moreover have "\<forall>(c, v)\<in>set (zip (conversions ?f) ?vs). \<not> zero_misprint c v"
    by (simp add: format_simps)
  ultimately show ?thesis
    using Sprintf_writes_text [of ?f ?vs "bytes ''-7:ab-80x5%%''" 3 "blank 30"] by (simp add: blank_def bytes_def)
qed

text \<open>
  C16: numbers printed by Sprintf read back: atoi returns the value of \<open>%u\<close> and the absolute value of
  \<open>%d\<close> (it skips the sign), and the digits of \<open>%L\<close> and, after the prefix, of \<open>%x\<close> denote the argument.
  A destination of 24 bytes is always enough.
\<close>

theorem Sprintf_number_roundtrip:
  assumes "dst + 24 \<le> msize m"
  shows "(\<exists>n m'. Sprintf dst (bytes ''%u'') [VInt v] m = Inr (n, m') \<and> atoi (peek m' dst n) = v) \<and>
     (\<exists>n m'. Sprintf dst (bytes ''%d'') [VInt v] m = Inr (n, m') \<and>
        atoi (peek m' dst n) = (if v <s 0 then - v else v)) \<and>
     (\<exists>n m'. Sprintf dst (bytes ''%L'') [VLong w] m = Inr (n, m') \<and> number 10 (peek m' dst n) = unat w) \<and>
     (\<exists>n m'. Sprintf dst (bytes ''%x'') [VInt v] m = Inr (n, m') \<and>
        number 16 (drop 2 (peek m' dst n)) = unat v)"
proof (intro conjI)
  have put: "Sprintf dst fmt vs m = Inr (length s, poke m dst (s @ [0])) \<and> peek (poke m dst (s @ [0])) dst (length s) = s"
    if "format_out fmt vs = Some s" "length s \<le> 20" for fmt vs s
    using Sprintf_text [OF that(1), of dst m] that(2) assms by (simp add: peek_poke_inside)
  have t: "format_out (bytes ''%u'') [VInt v] = Some (uint_text v)"
    "format_out (bytes ''%d'') [VInt v] = Some (int_text v)"
    "format_out (bytes ''%L'') [VLong w] = Some (ulong_text w)"
    "format_out (bytes ''%x'') [VInt v] = Some (hex_out v)"
    by (simp_all add: format_simps)
  have l: "length (uint_text v) \<le> 20" "length (int_text v) \<le> 20" "length (hex_out v) \<le> 20"
    using text_lengths(1-3) [of v] by simp_all
  show "\<exists>n m'. Sprintf dst (bytes ''%u'') [VInt v] m = Inr (n, m') \<and> atoi (peek m' dst n) = v"
    using put [OF t(1) l(1)] atoi_uint by auto
  show "\<exists>n m'. Sprintf dst (bytes ''%d'') [VInt v] m = Inr (n, m') \<and>
      atoi (peek m' dst n) = (if v <s 0 then - v else v)"
    using put [OF t(2) l(2)] atoi_int by auto
  show "\<exists>n m'. Sprintf dst (bytes ''%L'') [VLong w] m = Inr (n, m') \<and> number 10 (peek m' dst n) = unat w"
    using put [OF t(3) text_lengths(5)] number_ulong by auto
  show "\<exists>n m'. Sprintf dst (bytes ''%x'') [VInt v] m = Inr (n, m') \<and>
      number 16 (drop 2 (peek m' dst n)) = unat v"
    using put [OF t(4) l(3)] hexadecimal.number_radix [of "unat v"] by (auto simp: hex_out_def)
qed

theorem Sprintf_number_roundtrip_witness:
  "\<exists>n m'. Sprintf 0 (bytes ''%u'') [VInt 4294967295] (blank 24) = Inr (n, m') \<and> atoi (peek m' 0 n) = 4294967295"
  using Sprintf_number_roundtrip [of 0 "blank 24" 4294967295 0] by (simp add: blank_def)

text \<open>
  Printf sends the text of the format to the standard output as long as it is shorter than the
  static buffer of 2048 bytes; a longer text overruns that buffer.
\<close>

theorem Printf_output:
  assumes "format_out fmt vs = Some s" and "msize buf = 2048"
  shows "Printf fmt vs buf =
     (if length s < 2048 then Inr (length s, s, poke buf 0 (s @ [0])) else Inl WildAccess)"
  by (rule Printf_text [OF assms])

theorem Printf_output_witness:
  "Printf (bytes ''%s'') [VStr (Some (replicate 2048 0x61))] (blank 2048) = Inl WildAccess"
proof -
  have "format_out (bytes ''%s'') [VStr (Some (replicate 2048 0x61))] = Some (replicate 2048 0x61)"
    by (simp add: format_simps str_text_def)
  from Printf_output [OF this, of "blank 2048"] show ?thesis by (simp add: blank_def)
qed

text \<open>
  zero under the \<open>long\<close>, hexadecimal and pointer conversions: \<open>%l\<close> prints nothing, \<open>%x\<close> only its
  prefix, and \<open>%p\<close> counts three bytes but leaves the third byte of the destination as it was.
\<close>

theorem zero_conversions:
  assumes "dst + 3 \<le> msize m"
  shows "putl dst 0 m = Inr (0, m) \<and>
     puthex dst 0 m = Inr (2, poke m dst [0x30, 0x78]) \<and>
     putptr dst 0 m = Inr (3, poke m dst [0x30, 0x78])"
proof (intro conjI)
  show "putl dst 0 m = Inr (0, m)"
    using assms by (simp add: putl_wr long_out_def)
  show "puthex dst 0 m = Inr (2, poke m dst [0x30, 0x78])"
    using assms by (simp add: puthex_wr hex_out_def)
  show "putptr dst 0 m = Inr (3, poke m dst [0x30, 0x78])"
    using assms poke_append [of m dst "[0x30]" "[0x78]"] by (simp add: putptr_def blank_def)
qed

theorem zero_conversions_witness:
  "putptr 0 0 (blank 3) = Inr (3, poke (blank 3) 0 [0x30, 0x78])"
  using zero_conversions [of 0 "blank 3"] by (simp add: blank_def)

text \<open>
  Strcpy returns the address of the terminator it wrote, so two calls in a row build the
  concatenation of two strings; everything outside the result keeps its contents.
\<close>

theorem Strcpy_concat:
  assumes "cstring m a s" and "cstring m b t" and "dst + length s + length t < msize m"
    and "a + length s < dst \<or> dst + length s + length t < a"
    and "b + length t < dst \<or> dst + length s + length t < b"
  shows "\<exists>e m1 m2. Strcpy (Some dst) a m = Inr (Some e, m1) \<and>
     Strcpy (Some e) b m1 = Inr (Some (dst + length (s @ t)), m2) \<and>
     m2 = poke m dst (s @ t @ [0]) \<and> cstring m2 dst (s @ t)"
proof -
  let ?m1 = "poke m dst (s @ [0])"
  have 1: "Strcpy (Some dst) a m = Inr (Some (dst + length s), ?m1)"
    using assms by (intro Strcpy_cstring) auto
  have "cstring ?m1 b t"
    using assms by (subst cstring_frame) auto
  then have 2: "Strcpy (Some (dst + length s)) b ?m1 =
      Inr (Some (dst + length s + length t), poke ?m1 (dst + length s) (t @ [0]))"
    using assms by (intro Strcpy_cstring) auto
  have eq: "poke ?m1 (dst + length s) (t @ [0]) = poke m dst (s @ t @ [0])"
    by (rule mem.equality) (auto simp: mbyte_poke nth_append fun_eq_iff)
  have "0 \<notin> set (s @ t)" using assms by (auto simp: cstring_def)
  then have "cstring (poke m dst (s @ t @ [0])) dst (s @ t)"
    using assms(3) cstring_poke [of "s @ t" dst m] by simp
  then show ?thesis using 1 2 eq by (simp add: add.assoc)
qed

theorem Strcpy_concat_witness:
  "\<exists>e m1 m2. Strcpy (Some 0) 10 (poke (poke (blank 20) 10 [0x2f, 0]) 15 [0x73, 0x68, 0]) = Inr (Some e, m1) \<and>
     Strcpy (Some e) 15 m1 = Inr (Some (0 + length ([0x2f] @ [0x73, 0x68 :: u8])), m2) \<and>
     m2 = poke (poke (poke (blank 20) 10 [0x2f, 0]) 15 [0x73, 0x68, 0]) 0 ([0x2f] @ [0x73, 0x68] @ [0]) \<and>
     cstring m2 0 ([0x2f] @ [0x73, 0x68])"
  by (rule Strcpy_concat)
    (simp_all add: cstring_def blank_def peek_def mbyte_poke upt_rec)

end
