(* ===== verification/Reader.thy ===== *)
theory Reader
  imports Stdio
begin

text \<open>
  The reading half of \<open>tlibc/stdio.c\<close>: the buffered reader and \<open>fdgets\<close>, and the loop over lines that
  the two interactive programs run.
\<close>

unbundle bit_operations_syntax

section \<open>The reader\<close>

text \<open>
  What \<open>sys_read\<close> delivers: the input is the sequence of chunks that become available (lines typed at
  a terminal, writes to a pipe); a call gets at most \<open>n\<close> bytes of the first one, the rest stays, and no
  bytes mean end of file or an error.
\<close>

type_synonym input = "u8 list list"

fun sys_read :: "nat \<Rightarrow> input \<Rightarrow> u8 list \<times> input" where
  "sys_read n [] = ([], [])"
| "sys_read n (c # cs) = (take n c, if length c \<le> n then cs else drop n c # cs)"

record buffered_reader =
  br_buf :: mem
  br_start :: nat
  br_end :: nat

definition BUFSIZE :: nat where
  "BUFSIZE = 2048"

definition fresh_reader :: buffered_reader where
  "fresh_reader = \<lparr>br_buf = blank BUFSIZE, br_start = 0, br_end = 0\<rparr>"

definition fill_buf :: "buffered_reader \<Rightarrow> input \<Rightarrow> (bool \<times> buffered_reader \<times> input) res" where
  "fill_buf br inp =
     (if br_start br = br_end br then
        let br = br\<lparr>br_start := 0, br_end := 0\<rparr>; (bs, inp) = sys_read BUFSIZE inp in
          if bs = [] then Inr (False, br, inp)
          else bindE (wr 0 bs (br_buf br)) (\<lambda>b.
            Inr (True, br\<lparr>br_buf := b, br_end := length bs mod BUFSIZE\<rparr>, inp))
      else Inr (True, br, inp))"

text \<open>
  \<open>copy_buf\<close> moves bytes to \<open>dst\<close> until the buffer is empty or a newline was copied, which is then
  terminated. The index runs modulo the size of the buffer, so \<open>BUFSIZE\<close> rounds visit every slot; a
  loop that has not met \<open>end\<close> by then never does.
\<close>

fun copy_from :: "nat \<Rightarrow> buffered_reader \<Rightarrow> nat \<Rightarrow> mem \<Rightarrow> (nat \<times> buffered_reader \<times> mem) res" where
  "copy_from fuel br dst m =
     (if br_start br = br_end br then Inr (dst, br, m)
      else case fuel of 0 \<Rightarrow> Inl Diverge
      | Suc fuel \<Rightarrow>
        bindE (load (br_start br) (br_buf br)) (\<lambda>c.
        bindE (if c \<noteq> 0 then wr dst [c] m else Inr m) (\<lambda>m.
        let dst = (if c \<noteq> 0 then dst + 1 else dst); br = br\<lparr>br_start := (br_start br + 1) mod BUFSIZE\<rparr> in
          if c = 10 then bindE (wr dst [0] m) (\<lambda>m. Inr (dst, br, m))
          else copy_from fuel br dst m)))"

declare copy_from.simps [simp del]

definition copy_buf :: "buffered_reader \<Rightarrow> nat \<Rightarrow> mem \<Rightarrow> (nat \<times> buffered_reader \<times> mem) res" where
  "copy_buf br dst m = copy_from BUFSIZE br dst m"

lemma copy_from_steps:
  "br_start br = br_end br \<Longrightarrow> copy_from fuel br dst m = Inr (dst, br, m)"
  "br_start br \<noteq> br_end br \<Longrightarrow> copy_from 0 br dst m = Inl Diverge"
  "br_start br \<noteq> br_end br \<Longrightarrow> copy_from (Suc fuel) br dst m =
     bindE (load (br_start br) (br_buf br)) (\<lambda>c.
     bindE (if c \<noteq> 0 then wr dst [c] m else Inr m) (\<lambda>m.
     let dst = (if c \<noteq> 0 then dst + 1 else dst); br = br\<lparr>br_start := (br_start br + 1) mod BUFSIZE\<rparr> in
       if c = 10 then bindE (wr dst [0] m) (\<lambda>m. Inr (dst, br, m)) else copy_from fuel br dst m))"
  by (subst copy_from.simps, simp)+

lemma copy_from_exit:
  "copy_from fuel br dst m = Inr (d, br', m') \<Longrightarrow> br_start br' = br_end br' \<or> d < msize m' \<and> mbyte m' d = 0"
proof (induction fuel br dst m rule: copy_from.induct)
  case (1 fuel br dst m)
  show ?case
  proof (cases "br_start br = br_end br \<or> fuel = 0")
    case True
    then show ?thesis using 1(2) by (cases "br_start br = br_end br") (auto simp: copy_from_steps)
  next
    case False
    then obtain f c m1 where f: "br_start br \<noteq> br_end br" "fuel = Suc f" "load (br_start br) (br_buf br) = Inr c"
      "(if c \<noteq> 0 then wr dst [c] m else Inr m) = Inr m1"
      using 1(2) by (cases fuel) (auto simp: copy_from_steps bindE_eq_Inr)
    show ?thesis
    proof (cases "c = 10")
      case True
      then show ?thesis
        using 1(2) f by (auto simp: copy_from_steps bindE_eq_Inr wr_def mbyte_poke split: if_splits)
    next
      case c: False
      then show ?thesis
        using 1(1) [OF f(1) f(2) f(3) f(4) refl refl c] 1(2) f by (simp add: copy_from_steps Let_def)
    qed
  qed
qed

lemma sys_read_shrinks: "sys_read n inp = (bs, inp') \<Longrightarrow> bs \<noteq> [] \<Longrightarrow> length (concat inp') < length (concat inp)"
  by (cases inp) (auto split: if_splits)

lemma fill_buf_shrinks:
  "fill_buf br inp = Inr (True, br', inp') \<Longrightarrow>
   length (concat inp') < length (concat inp) \<or> inp' = inp \<and> br' = br \<and> br_start br \<noteq> br_end br"
  by (auto simp: fill_buf_def Let_def bindE_eq_Inr dest: sys_read_shrinks split: if_splits prod.splits)

text \<open>\<open>fdgets\<close>: whether a line was read, with the reader, the destination and the input that remain.\<close>

function fdgets :: "buffered_reader \<Rightarrow> nat \<Rightarrow> mem \<Rightarrow> input \<Rightarrow> (bool \<times> buffered_reader \<times> mem \<times> input) res" where
  "fdgets br dst m inp =
     bindE (fill_buf br inp) (\<lambda>(ok, br, inp).
       if \<not> ok then Inr (False, br, m, inp)
       else
         bindE (copy_buf br dst m) (\<lambda>(dst, br, m).
         bindE (load dst m) (\<lambda>c. if c = 0 then Inr (True, br, m, inp) else fdgets br dst m inp)))"
  by pat_completeness auto
termination
proof (relation "measures [\<lambda>(br, dst, m, inp). length (concat inp), \<lambda>(br, dst, m, inp). if br_start br = br_end br then 0 else 1]")
  show "wf (measures [\<lambda>(br, dst, m, inp). length (concat inp), \<lambda>(br, dst, m, inp). if br_start br = br_end br then 0 else (1 :: nat)])"
    by simp
next
  fix br :: buffered_reader and dst m inp r ok rest br1 inp1 r2 dst2 rest2 br2 m2 c
  assume fill: "fill_buf br inp = Inr r" and r: "(ok, rest) = r" and rest: "(br1, inp1) = rest" and ok: "\<not> \<not> ok"
    and copy: "copy_buf br1 dst m = Inr r2" and r2: "(dst2, rest2) = r2" and rest2: "(br2, m2) = rest2"
    and ld: "load dst2 m2 = Inr c" and c: "c \<noteq> (0 :: u8)"
  have "br_start br2 = br_end br2"
    using copy_from_exit [of BUFSIZE br1 dst m dst2 br2 m2] copy r2 rest2 ld c
    by (auto simp: copy_buf_def load_def)
  then show "((br2, dst2, m2, inp1), br, dst, m, inp)
      \<in> measures [\<lambda>(br, dst, m, inp). length (concat inp), \<lambda>(br, dst, m, inp). if br_start br = br_end br then 0 else 1]"
    using fill_buf_shrinks [of br inp br1 inp1] fill r rest ok by auto
qed

declare fdgets.simps [simp del]

text \<open>
  The loop of \<open>main\<close> in \<open>sh.c\<close> and \<open>eval.c\<close>: read a line into the static buffer, run the body on it,
  which may ask to stop. The fuel bounds the number of lines.
\<close>

primrec line_loop ::
  "nat \<Rightarrow> ('s \<Rightarrow> mem \<Rightarrow> (bool \<times> 's \<times> mem) res) \<Rightarrow> (mem \<Rightarrow> 'w \<Rightarrow> (bool \<times> 'w) res) \<Rightarrow> 's \<Rightarrow> mem \<Rightarrow> 'w \<Rightarrow> 'w res" where
  "line_loop 0 gets body s m w = Inl Diverge"
| "line_loop (Suc n) gets body s m w =
     bindE (gets s m) (\<lambda>(ok, s, m).
       if \<not> ok then Inr w
       else bindE (body m w) (\<lambda>(stop, w). if stop then Inr w else line_loop n gets body s m w))"

definition reader_gets :: "buffered_reader \<times> input \<Rightarrow> mem \<Rightarrow> (bool \<times> (buffered_reader \<times> input) \<times> mem) res" where
  "reader_gets s m = bindE (fdgets (fst s) 0 m (snd s)) (\<lambda>(ok, br, m, inp). Inr (ok, (br, inp), m))"

section \<open>What a call of \<open>fdgets\<close> does\<close>

definition rd_inv :: "buffered_reader \<Rightarrow> bool" where
  "rd_inv br \<longleftrightarrow> msize (br_buf br) = BUFSIZE \<and> br_start br \<le> br_end br \<and> br_end br < BUFSIZE"

definition queue :: "buffered_reader \<Rightarrow> u8 list" where
  "queue br = peek (br_buf br) (br_start br) (br_end br - br_start br)"

definition clean :: "u8 list \<Rightarrow> u8 list" where
  "clean s = filter (\<lambda>c. c \<noteq> 0) s"

lemma clean_simps [simp]:
  "clean [] = []" "clean (c # s) = (if c = 0 then clean s else c # clean s)" "clean (s @ t) = clean s @ clean t"
  by (simp_all add: clean_def)

lemma queue_Cons:
  assumes "rd_inv br" and "queue br = c # q"
  shows "br_start br < br_end br" "load (br_start br) (br_buf br) = Inr c"
    "rd_inv (br\<lparr>br_start := br_start br + 1\<rparr>)" "queue (br\<lparr>br_start := br_start br + 1\<rparr>) = q"
    "(br_start br + 1) mod BUFSIZE = br_start br + 1"
proof -
  show lt: "br_start br < br_end br"
    using assms by (metis diff_is_0_eq' length_0_conv length_peek list.distinct(1) not_le queue_def)
  then have n: "br_end br - br_start br = 1 + (br_end br - (br_start br + 1))" by simp
  have "peek (br_buf br) (br_start br) 1 = [mbyte (br_buf br) (br_start br)]" by (simp add: peek_def)
  then have "mbyte (br_buf br) (br_start br) = c \<and> queue (br\<lparr>br_start := br_start br + 1\<rparr>) = q"
    using assms(2) unfolding queue_def n peek_append by simp
  then show "load (br_start br) (br_buf br) = Inr c" "queue (br\<lparr>br_start := br_start br + 1\<rparr>) = q"
    using lt assms(1) by (simp_all add: rd_inv_def)
  show "rd_inv (br\<lparr>br_start := br_start br + 1\<rparr>)" "(br_start br + 1) mod BUFSIZE = br_start br + 1"
    using lt assms(1) by (simp_all add: rd_inv_def)
qed

lemma queue_Nil: "rd_inv br \<Longrightarrow> queue br = [] \<longleftrightarrow> br_start br = br_end br"
  by (auto simp: rd_inv_def queue_def peek_def)

lemma copy_from_line:
  "rd_inv br \<Longrightarrow> queue br = pre @ 10 # post \<Longrightarrow> 10 \<notin> set pre \<Longrightarrow> length pre < fuel \<Longrightarrow>
   dst + length (clean pre) + 1 < msize m \<Longrightarrow>
   \<exists>br'. copy_from fuel br dst m = Inr (dst + length (clean pre) + 1, br', poke m dst (clean pre @ [10, 0])) \<and>
     rd_inv br' \<and> queue br' = post"
proof (induction pre arbitrary: br fuel dst m)
  case Nil
  note q = queue_Cons [OF Nil.prems(1), of 10 post]
  obtain f where "fuel = Suc f" using Nil.prems(4) by (cases fuel) auto
  then show ?case
    using q Nil.prems poke_append [of m dst "[10]" "[0]"]
    by (simp add: copy_from_steps Let_def)
next
  case (Cons c pre)
  note q = queue_Cons [OF Cons.prems(1), of c "pre @ 10 # post"]
  let ?br = "br\<lparr>br_start := br_start br + 1\<rparr>"
  obtain f where f: "fuel = Suc f" "length pre < f" using Cons.prems(4) by (cases fuel) auto
  show ?case
  proof (cases "c = 0")
    case True
    then have "copy_from fuel br dst m = copy_from f ?br dst m"
      using q Cons.prems f by (simp add: copy_from_steps Let_def)
    then show ?thesis
      using Cons.IH [of ?br f dst m] q Cons.prems f True by simp
  next
    case False
    then have "copy_from fuel br dst m = copy_from f ?br (dst + 1) (poke m dst [c])"
      using q Cons.prems f by (simp add: copy_from_steps Let_def)
    then show ?thesis
      using Cons.IH [of ?br f "dst + 1" "poke m dst [c]"] q Cons.prems f False
        poke_append [of m dst "[c]" "clean pre @ [10, 0]"] by simp
  qed
qed

lemma copy_from_all:
  "rd_inv br \<Longrightarrow> 10 \<notin> set (queue br) \<Longrightarrow> length (queue br) \<le> fuel \<Longrightarrow> dst + length (clean (queue br)) \<le> msize m \<Longrightarrow>
   \<exists>br'. copy_from fuel br dst m = Inr (dst + length (clean (queue br)), br', poke m dst (clean (queue br))) \<and>
     rd_inv br' \<and> queue br' = []"
proof (induction "queue br" arbitrary: br fuel dst m)
  case Nil
  then show ?case using queue_Nil [of br] by (simp add: copy_from_steps)
next
  case (Cons c qs)
  note q = queue_Cons [OF Cons.prems(1) Cons.hyps(2) [symmetric]]
  let ?br = "br\<lparr>br_start := br_start br + 1\<rparr>"
  obtain f where f: "fuel = Suc f" "length qs \<le> f"
    using Cons.prems(3) Cons.hyps(2) [symmetric] by (cases fuel) auto
  have c: "c \<noteq> 10" using Cons.prems(2) Cons.hyps(2) [symmetric] by auto
  show ?case
  proof (cases "c = 0")
    case True
    then have "copy_from fuel br dst m = copy_from f ?br dst m"
      using q f by (simp add: copy_from_steps Let_def)
    then show ?thesis
      using Cons.hyps(1) [of ?br f dst m] q Cons.prems f True Cons.hyps(2) [symmetric] by simp
  next
    case False
    then have "copy_from fuel br dst m = copy_from f ?br (dst + 1) (poke m dst [c])"
      using q Cons.prems f c Cons.hyps(2) [symmetric] by (simp add: copy_from_steps Let_def)
    then show ?thesis
      using Cons.hyps(1) [of ?br f "dst + 1" "poke m dst [c]"] q Cons.prems f False Cons.hyps(2) [symmetric]
        poke_append [of m dst "[c]" "clean qs"] by simp
  qed
qed

lemma fill_buf_queue: "queue br \<noteq> [] \<Longrightarrow> rd_inv br \<Longrightarrow> fill_buf br inp = Inr (True, br, inp)"
  by (simp add: fill_buf_def queue_Nil)

lemma fill_buf_chunk:
  assumes "rd_inv br" and "queue br = []" and "c \<noteq> []" and "length c < BUFSIZE"
  shows "\<exists>br'. fill_buf br (c # cs) = Inr (True, br', cs) \<and> rd_inv br' \<and> queue br' = c"
proof -
  have "br_start br = br_end br" using assms(1,2) by (simp add: queue_Nil)
  then show ?thesis using assms by (simp add: fill_buf_def rd_inv_def queue_def)
qed

lemma fill_buf_full:
  assumes "rd_inv br" and "queue br = []" and "length c = BUFSIZE"
  shows "\<exists>br'. fill_buf br (c # cs) = Inr (True, br', cs) \<and> rd_inv br' \<and> queue br' = []"
proof -
  have "c \<noteq> []" using assms(3) by (auto simp: BUFSIZE_def)
  moreover have "br_start br = br_end br" using assms(1,2) by (simp add: queue_Nil)
  ultimately show ?thesis
    using assms by (simp add: fill_buf_def rd_inv_def queue_def peek_def)
qed

lemma fill_buf_eof:
  assumes "rd_inv br" and "queue br = []"
  shows "\<exists>br'. fill_buf br [] = Inr (False, br', []) \<and> rd_inv br' \<and> queue br' = []"
proof -
  have "br_start br = br_end br" using assms(1,2) by (simp add: queue_Nil)
  then show ?thesis using assms(1) by (simp add: fill_buf_def rd_inv_def queue_def peek_def)
qed

lemma queue_length: "rd_inv br \<Longrightarrow> length (queue br) < BUFSIZE"
  by (simp add: rd_inv_def queue_def) linarith

lemma fdgets_after_fill:
  assumes "fill_buf br inp = Inr (True, br1, inp')" and "rd_inv br1" and "queue br1 = pre @ 10 # post"
    and "10 \<notin> set pre" and "dst + length (clean pre) + 1 < msize m"
  shows "\<exists>br'. fdgets br dst m inp = Inr (True, br', poke m dst (clean pre @ [10, 0]), inp') \<and>
     rd_inv br' \<and> queue br' = post"
proof -
  have "length pre < BUFSIZE" using queue_length [OF assms(2)] assms(3) by simp
  then obtain br' where "copy_from BUFSIZE br1 dst m =
      Inr (dst + length (clean pre) + 1, br', poke m dst (clean pre @ [10, 0]))" "rd_inv br'" "queue br' = post"
    using copy_from_line [OF assms(2-4) _ assms(5)] by blast
  then show ?thesis
    using assms(1,5) by (simp add: fdgets.simps [of br dst m inp] copy_buf_def mbyte_poke nth_append)
qed

section \<open>Lines\<close>

text \<open>
  Input as a terminal or a line-wise writer delivers it: every chunk is shorter than the buffer and
  ends with a newline. The contract below is what the interactive programs rely on: the source holds a
  stream of complete lines and each call takes the first one off.
\<close>

definition line_wise :: "buffered_reader \<times> input \<Rightarrow> bool" where
  "line_wise s \<longleftrightarrow> rd_inv (fst s) \<and> (queue (fst s) \<noteq> [] \<longrightarrow> last (queue (fst s)) = 10) \<and>
     (\<forall>c\<in>set (snd s). c \<noteq> [] \<and> last c = 10 \<and> length c < BUFSIZE)"

definition stream :: "buffered_reader \<times> input \<Rightarrow> u8 list" where
  "stream s = queue (fst s) @ concat (snd s)"

fun run_lines :: "(u8 list \<Rightarrow> 'w \<Rightarrow> (bool \<times> 'w) res) \<Rightarrow> u8 list list \<Rightarrow> 'w \<Rightarrow> 'w res" where
  "run_lines f [] w = Inr w"
| "run_lines f (l # ls) w = bindE (f (clean l @ [10]) w) (\<lambda>(stop, w). if stop then Inr w else run_lines f ls w)"

definition unlines :: "u8 list list \<Rightarrow> u8 list" where
  "unlines ls = concat (map (\<lambda>l. l @ [10]) ls)"

locale line_source =
  fixes gets :: "'s \<Rightarrow> mem \<Rightarrow> (bool \<times> 's \<times> mem) res"
    and content :: "'s \<Rightarrow> u8 list"
    and valid :: "'s \<Rightarrow> bool"
  assumes gets_line:
    "valid s \<Longrightarrow> content s = pre @ 10 # post \<Longrightarrow> 10 \<notin> set pre \<Longrightarrow> length pre + 1 < msize m \<Longrightarrow>
     \<exists>s'. gets s m = Inr (True, s', poke m 0 (clean pre @ [10, 0])) \<and> valid s' \<and> content s' = post"
    and gets_eof: "valid s \<Longrightarrow> content s = [] \<Longrightarrow> \<exists>s'. gets s m = Inr (False, s', m)"
begin

lemma line_loop_lines:
  assumes body: "\<And>m l w. cstring m 0 (l @ [10]) \<Longrightarrow> P l \<Longrightarrow> msize m = k \<Longrightarrow> I w \<Longrightarrow> body m w = f (l @ [10]) w"
    and keeps: "\<And>l w stop w'. P l \<Longrightarrow> I w \<Longrightarrow> f (l @ [10]) w = Inr (stop, w') \<Longrightarrow> I w'"
  shows "valid s \<Longrightarrow> content s = unlines ls \<Longrightarrow> \<forall>l\<in>set ls. 10 \<notin> set l \<and> length l + 1 < k \<and> P (clean l) \<Longrightarrow>
     msize m = k \<Longrightarrow> I w \<Longrightarrow> length ls < n \<Longrightarrow> line_loop n gets body s m w = run_lines f ls w"
proof (induction ls arbitrary: s m n w)
  case Nil
  then obtain n' where "n = Suc n'" by (cases n) auto
  then show ?case using gets_eof [of s m] Nil by (auto simp: unlines_def)
next
  case (Cons l ls)
  obtain n' where n: "n = Suc n'" "length ls < n'" using Cons.prems(6) by (cases n) auto
  let ?m = "poke m 0 (clean l @ [10, 0])"
  obtain s' where s': "gets s m = Inr (True, s', ?m)" "valid s'" "content s' = unlines ls"
    using gets_line [of s l "unlines ls" m] Cons.prems by (auto simp: unlines_def)
  have "length (clean l) \<le> length l" by (simp add: clean_def)
  then have "0 + length (clean l @ [10]) < msize m"
    using Cons.prems(3,4) by auto
  moreover have "0 \<notin> set (clean l @ [10])"
    by (simp add: clean_def)
  ultimately have "cstring ?m 0 (clean l @ [10])"
    using cstring_poke [of "clean l @ [10]" 0 m] by simp
  then have "body ?m w = f (clean l @ [10]) w"
    using Cons.prems(3,4,5) by (intro body) auto
  then show ?case
    using s' n Cons.IH [of s' ?m _ n'] Cons.prems(3,4,5) keeps [of "clean l" w]
    by (auto intro!: bindE_cong)
qed

end

lemma fdgets_line_wise:
  assumes "line_wise (br, inp)" and "stream (br, inp) = pre @ 10 # post" and "10 \<notin> set pre"
    and "dst + length pre + 1 < msize m"
  shows "\<exists>br' inp'. fdgets br dst m inp = Inr (True, br', poke m dst (clean pre @ [10, 0]), inp') \<and>
     line_wise (br', inp') \<and> stream (br', inp') = post"
proof -
  have fits: "dst + length (clean pre) + 1 < msize m"
    using assms(4) length_filter_le [of "\<lambda>c. c \<noteq> 0" pre] unfolding clean_def by linarith
  have split: "\<exists>post1. q = pre @ 10 # post1 \<and> post = post1 @ r \<and> (post1 \<noteq> [] \<longrightarrow> last post1 = 10)"
    if "q @ r = pre @ 10 # post" "q \<noteq> []" "last q = 10" for q r
  proof -
    have "\<not> length q \<le> length pre"
    proof
      assume le: "length q \<le> length pre"
      then have "q = take (length q) pre"
        using arg_cong [OF that(1), of "take (length q)"] by simp
      then have "last q \<in> set pre" using that(2) by (metis in_set_takeD last_in_set)
      then show False using that(3) assms(3) by simp
    qed
    then have lt: "length pre < length q" by simp
    then have "take (length q) (pre @ 10 # post) = q" "drop (length q) (pre @ 10 # post) = r"
      using that(1) by (metis append_eq_conv_conj)+
    moreover obtain k where "length q = length pre + Suc k"
      using lt less_iff_Suc_add by auto
    ultimately have "q = pre @ 10 # take k post" "r = drop k post" by auto
    then show ?thesis using that(3) by auto
  qed
  show ?thesis
  proof (cases "queue br = []")
    case False
    then obtain post1 where q: "queue br = pre @ 10 # post1" "post = post1 @ concat inp" "post1 \<noteq> [] \<longrightarrow> last post1 = 10"
      using split [of "queue br" "concat inp"] assms(1,2) by (auto simp: stream_def line_wise_def)
    have "rd_inv br" using assms(1) by (simp add: line_wise_def)
    then obtain br' where "fdgets br dst m inp = Inr (True, br', poke m dst (clean pre @ [10, 0]), inp)"
        "rd_inv br'" "queue br' = post1"
      using fdgets_after_fill [OF fill_buf_queue [OF False] _ q(1) assms(3) fits] by blast
    then show ?thesis using assms(1) q by (auto simp: line_wise_def stream_def)
  next
    case True
    then obtain c cs where inp: "inp = c # cs" using assms(2) by (cases inp) (auto simp: stream_def)
    then have c: "c \<noteq> []" "last c = 10" "length c < BUFSIZE" using assms(1) by (auto simp: line_wise_def)
    obtain post1 where q: "c = pre @ 10 # post1" "post = post1 @ concat cs" "post1 \<noteq> [] \<longrightarrow> last post1 = 10"
      using split [of c "concat cs"] assms(2) True c inp by (auto simp: stream_def)
    have "rd_inv br" using assms(1) by (simp add: line_wise_def)
    then obtain br1 where "fill_buf br inp = Inr (True, br1, cs)" "rd_inv br1" "queue br1 = c"
      using fill_buf_chunk [OF _ True c(1,3)] inp by blast
    then obtain br' where "fdgets br dst m inp = Inr (True, br', poke m dst (clean pre @ [10, 0]), cs)"
        "rd_inv br'" "queue br' = post1"
      using fdgets_after_fill [of br inp br1 cs pre post1 dst m] q(1) assms(3) fits by blast
    then show ?thesis using assms(1) q inp by (auto simp: line_wise_def stream_def)
  qed
qed

lemma fdgets_eof:
  assumes "line_wise (br, inp)" and "stream (br, inp) = []"
  shows "\<exists>br'. fdgets br dst m inp = Inr (False, br', m, []) \<and> rd_inv br' \<and> queue br' = []"
proof -
  have "queue br = []" "rd_inv br" using assms by (auto simp: stream_def line_wise_def)
  moreover have "inp = []"
  proof (cases inp)
    case (Cons c cs)
    then show ?thesis using assms by (auto simp: stream_def line_wise_def)
  qed
  ultimately show ?thesis using fill_buf_eof [of br] by (auto simp: fdgets.simps [of br dst m "[]"])
qed

interpretation tty: line_source reader_gets stream line_wise
proof
  fix s pre post and m :: mem
  assume *: "line_wise s" "stream s = pre @ 10 # post" "10 \<notin> set pre" "length pre + 1 < msize m"
  obtain br inp where s: "s = (br, inp)" by force
  show "\<exists>s'. reader_gets s m = Inr (True, s', poke m 0 (clean pre @ [10, 0])) \<and> line_wise s' \<and> stream s' = post"
    using fdgets_line_wise [of br inp pre post 0 m] * unfolding s by (auto simp: reader_gets_def)
next
  fix s and m :: mem
  assume "line_wise s" "stream s = []"
  then show "\<exists>s'. reader_gets s m = Inr (False, s', m)"
    using fdgets_eof [of "fst s" "snd s" 0 m] by (auto simp: reader_gets_def)
qed

lemma fresh_reader_inv: "rd_inv fresh_reader" "queue fresh_reader = []"
  by (simp_all add: fresh_reader_def rd_inv_def queue_def peek_def blank_def BUFSIZE_def)

lemma fdgets_no_newline:
  assumes "fill_buf br inp = Inr (True, br1, inp')" and "rd_inv br1" and "10 \<notin> set (queue br1)"
    and "dst + length (clean (queue br1)) < msize m" and "mbyte m (dst + length (clean (queue br1))) = 0"
  shows "\<exists>br'. fdgets br dst m inp = Inr (True, br', poke m dst (clean (queue br1)), inp') \<and> queue br' = []"
proof -
  have "length (queue br1) \<le> BUFSIZE" using queue_length [OF assms(2)] by simp
  then obtain br' where "copy_from BUFSIZE br1 dst m =
      Inr (dst + length (clean (queue br1)), br', poke m dst (clean (queue br1)))" "queue br' = []"
    using copy_from_all [OF assms(2,3), of BUFSIZE dst m] assms(4) by auto
  then show ?thesis
    using assms(1,4,5) by (simp add: fdgets.simps [of br dst m inp] copy_buf_def mbyte_poke)
qed

lemma copy_from_keeps:
  "rd_inv br \<Longrightarrow> copy_from fuel br dst m = Inr (d, br', m') \<Longrightarrow> rd_inv br' \<and> msize m' = msize m"
proof (induction fuel arbitrary: br dst m)
  case 0
  then show ?case by (cases "br_start br = br_end br") (auto simp: copy_from_steps)
next
  case (Suc fuel)
  show ?case
  proof (cases "br_start br = br_end br")
    case True
    then show ?thesis using Suc.prems by (auto simp: copy_from_steps)
  next
    case False
    let ?br = "br\<lparr>br_start := (br_start br + 1) mod BUFSIZE\<rparr>"
    have "br_start br + 1 \<le> br_end br" using False Suc.prems(1) by (simp add: rd_inv_def)
    then have inv: "rd_inv ?br" using Suc.prems(1) by (simp add: rd_inv_def)
    obtain c m1 where c: "load (br_start br) (br_buf br) = Inr c" "(if c \<noteq> 0 then wr dst [c] m else Inr m) = Inr m1"
      using Suc.prems(2) False by (auto simp: copy_from_steps bindE_eq_Inr)
    have size: "msize m1 = msize m" using c(2) by (auto dest: wr_size split: if_splits)
    show ?thesis
      using Suc.prems(2) Suc.IH [OF inv] False c inv size
      by (auto simp: copy_from_steps Let_def bindE_eq_Inr dest!: wr_size split: if_splits)
  qed
qed

lemma fill_buf_keeps: "rd_inv br \<Longrightarrow> fill_buf br inp = Inr (ok, br', inp') \<Longrightarrow> rd_inv br'"
  by (auto simp: fill_buf_def rd_inv_def BUFSIZE_def Let_def bindE_eq_Inr dest: wr_size split: if_splits prod.splits)

section \<open>Properties\<close>

text \<open>
  C17: on line-wise input fdgets delivers the lines in order: it stores the first line without its zero
  bytes, with the newline and a terminator, returns true, and the rest of the stream is still to be
  read; after the last line it returns false and leaves the destination alone.
\<close>

theorem fdgets_next_line:
  assumes "line_wise (br, inp)" and "stream (br, inp) = unlines ls"
    and "\<forall>l\<in>set ls. 10 \<notin> set l \<and> dst + length l + 1 < msize m"
  shows "case ls of
      [] \<Rightarrow> \<exists>br'. fdgets br dst m inp = Inr (False, br', m, [])
    | l # ls' \<Rightarrow> \<exists>br' inp'. fdgets br dst m inp = Inr (True, br', poke m dst (clean l @ [10, 0]), inp') \<and>
        line_wise (br', inp') \<and> stream (br', inp') = unlines ls'"
proof (cases ls)
  case Nil
  then show ?thesis using fdgets_eof [OF assms(1)] assms(2) by (auto simp: unlines_def)
next
  case (Cons l ls')
  then show ?thesis using fdgets_line_wise [OF assms(1), of l "unlines ls'"] assms(2,3) by (simp add: unlines_def)
qed

theorem fdgets_next_line_witness:
  "\<exists>br' inp'. fdgets fresh_reader 0 (blank 10) [bytes ''ab'' @ [10], [10]] =
     Inr (True, br', poke (blank 10) 0 (bytes ''ab'' @ [10, 0]), inp') \<and>
     line_wise (br', inp') \<and> stream (br', inp') = unlines [[]]"
  using fdgets_next_line [of fresh_reader "[bytes ''ab'' @ [10], [10]]" "[bytes ''ab'', []]" 0 "blank 10"]
  by (simp add: line_wise_def fresh_reader_inv stream_def unlines_def bytes_def BUFSIZE_def blank_def)

text \<open>
  a call of fdgets that has to look at the old contents of the destination. A chunk without a
  newline is returned as if it were a line whenever the byte after it happens to be zero, and a chunk of
  exactly 2048 bytes is dropped: the reader takes it for an empty buffer, and with a zero at the
  destination the call reports a line without having stored anything.
\<close>

theorem fdgets_short_and_full_chunks:
  assumes "rd_inv br" and "queue br = []" and "c \<noteq> []" and "length c < BUFSIZE" and "10 \<notin> set c"
    and "dst + length (clean c) < msize m" and "mbyte m (dst + length (clean c)) = 0"
    and "length full = BUFSIZE" and "mbyte m dst = 0"
  shows "(\<exists>br'. fdgets br dst m (c # cs) = Inr (True, br', poke m dst (clean c), cs) \<and> queue br' = []) \<and>
    (\<exists>br'. fdgets br dst m (full # cs) = Inr (True, br', m, cs) \<and> queue br' = [])"
proof (rule conjI)
  show "\<exists>br'. fdgets br dst m (c # cs) = Inr (True, br', poke m dst (clean c), cs) \<and> queue br' = []"
    using fill_buf_chunk [OF assms(1-4), of cs] fdgets_no_newline [of br "c # cs" _ cs dst m] assms(5-7) by auto
  show "\<exists>br'. fdgets br dst m (full # cs) = Inr (True, br', m, cs) \<and> queue br' = []"
    using fill_buf_full [OF assms(1,2,8), of cs] fdgets_no_newline [of br "full # cs" _ cs dst m] assms(6,9) by auto
qed

theorem fdgets_short_and_full_chunks_witness:
  "\<exists>br'. fdgets fresh_reader 0 (blank 10) (replicate BUFSIZE 0x61 # [[10]]) = Inr (True, br', blank 10, [[10]]) \<and> queue br' = []"
  using fdgets_short_and_full_chunks [of fresh_reader "[0x61]" 0 "blank 10" "replicate BUFSIZE 0x61" "[[10]]"]
  by (simp add: fresh_reader_inv blank_def BUFSIZE_def)

text \<open>
  C18: the reader's invariant. Whatever the input and the destination hold, a call of fdgets that returns
  leaves the indices ordered and inside the buffer, and neither buffer changes its size; so every later
  call starts from a legal state.
\<close>

theorem fdgets_keeps_invariant:
  "rd_inv br \<Longrightarrow> fdgets br dst m inp = Inr (ok, br', m', inp') \<Longrightarrow> rd_inv br' \<and> msize m' = msize m"
proof (induction br dst m inp rule: fdgets.induct)
  case (1 br dst m inp)
  obtain ok1 br1 inp1 where fill: "fill_buf br inp = Inr (ok1, br1, inp1)"
    using 1(3) by (auto simp: fdgets.simps [of br dst m inp] bindE_eq_Inr)
  have inv1: "rd_inv br1" using fill_buf_keeps [OF 1(2) fill] .
  show ?case
  proof (cases ok1)
    case False
    then show ?thesis using 1(3) fill inv1 by (auto simp: fdgets.simps [of br dst m inp])
  next
    case True
    obtain d2 br2 m2 c where copy: "copy_buf br1 dst m = Inr (d2, br2, m2)" and c: "load d2 m2 = Inr c"
      using 1(3) fill True by (auto simp: fdgets.simps [of br dst m inp] bindE_eq_Inr)
    have inv2: "rd_inv br2 \<and> msize m2 = msize m"
      using copy_from_keeps [OF inv1 copy [unfolded copy_buf_def]] .
    show ?thesis
    proof (cases "c = 0")
      case True
      then show ?thesis using 1(3) fill \<open>ok1\<close> copy c inv2 by (auto simp: fdgets.simps [of br dst m inp])
    next
      case False
      then have "fdgets br2 d2 m2 inp1 = Inr (ok, br', m', inp')"
        using 1(3) fill \<open>ok1\<close> copy c by (simp add: fdgets.simps [of br dst m inp])
      then show ?thesis
        using 1(1) [OF fill refl refl _ copy refl refl c False] \<open>ok1\<close> inv2 by auto
    qed
  qed
qed

theorem fdgets_keeps_invariant_witness:
  "\<exists>br' m' inp'. fdgets fresh_reader 0 (blank 10) [[0x61, 10]] = Inr (True, br', m', inp') \<and>
     rd_inv br' \<and> msize m' = msize (blank 10)"
proof -
  have "line_wise (fresh_reader, [[0x61, 10]])"
    by (simp add: line_wise_def fresh_reader_inv BUFSIZE_def)
  then obtain br' inp' where r: "fdgets fresh_reader 0 (blank 10) [[0x61, 10]] =
      Inr (True, br', poke (blank 10) 0 (clean [0x61] @ [10, 0]), inp')"
    using fdgets_line_wise [of fresh_reader "[[0x61, 10]]" "[0x61]" "[]" 0 "blank 10"]
    by (auto simp: stream_def fresh_reader_inv blank_def)
  show ?thesis
    using fdgets_keeps_invariant [OF fresh_reader_inv(1) r] r by blast
qed

end
