(* ===== verification/Eval.thy ===== *)
theory Eval
  imports Reader "HOL-Library.Signed_Division"
begin

text \<open>
  The calculator \<open>tlibc/eval.c\<close>. An expression is a pointer into the line buffer; \<open>long\<close> arithmetic is
  on 64-bit words, and a division that the processor refuses is a fault.
\<close>

unbundle bit_operations_syntax

section \<open>The evaluator\<close>

definition contains :: "u8 list \<Rightarrow> u8 \<Rightarrow> bool" where
  "contains fmt tar \<longleftrightarrow> tar = 0 \<or> tar \<in> set fmt"

datatype oper = OP_NULL | OP_PLUS | OP_SUB | OP_MULT | OP_DIV

definition quotient :: "u64 \<Rightarrow> u64 \<Rightarrow> u64 res" where
  "quotient a b =
     (if b = 0 \<or> sint a = - (2 ^ 63) \<and> sint b = - 1 then Inl DivideTrap
      else Inr (word_of_int (sint a sdiv sint b)))"

text \<open>\<open>eval_simple\<close> returns the new values of \<open>*left\<close> and \<open>*right\<close>.\<close>

fun eval_simple :: "u64 \<Rightarrow> u64 \<Rightarrow> oper \<Rightarrow> (u64 \<times> u64) res" where
  "eval_simple left right OP_NULL = Inr (right, 0)"
| "eval_simple left right OP_PLUS = Inr (left + right, 0)"
| "eval_simple left right OP_SUB = Inr (left - right, 0)"
| "eval_simple left right OP_MULT = Inr (left * right, 0)"
| "eval_simple left right OP_DIV = bindE (quotient left right) (\<lambda>q. Inr (q, 0))"

definition operator_of :: "oper \<Rightarrow> u8 \<Rightarrow> oper" where
  "operator_of op c =
     (if c = 0x2b then OP_PLUS else if c = 0x2d then OP_SUB else if c = 0x2a then OP_MULT
      else if c = 0x2f then OP_DIV else op)"

text \<open>
  The loop of \<open>eval_recur\<close> with its locals: the value, and the pointer the function returns. An
  opening bracket calls the function again and continues after the pointer it got back.
\<close>

function eval_loop :: "mem \<Rightarrow> nat \<Rightarrow> u64 \<Rightarrow> u64 \<Rightarrow> oper \<Rightarrow> (u64 \<times> nat) res" where
  "eval_loop m expr ret cur op =
     bindE (load expr m) (\<lambda>c.
       if c = 0 then Inr (ret, expr)
       else if isdigit c then eval_loop m (expr + 1) ret (cur * 10 + (ucast c - 0x30)) op
       else if c = 0x29 then bindE (eval_simple ret cur op) (\<lambda>(ret, cur). Inr (ret, expr + 1))
       else if c = 0x28 then
         bindE (eval_loop m (expr + 1) 0 0 OP_NULL) (\<lambda>(cur, expr).
         bindE (eval_simple ret cur op) (\<lambda>(ret, cur). eval_loop m (expr + 1) ret cur op))
       else
         bindE (eval_simple ret cur op) (\<lambda>(ret, cur). eval_loop m (expr + 1) ret cur (operator_of op c)))"
  by pat_completeness auto

termination
proof (relation "measure (\<lambda>(m, expr, ret, cur, op). msize m - expr)")
  txt \<open>The pointer that comes back is never before the one passed in, so the nested call makes progress.\<close>
  have progress: "expr \<le> q"
    if "eval_loop_dom (m, expr, ret, cur, op)" and "eval_loop m expr ret cur op = Inr (v, q)" for m expr ret cur op v q
    using that
  proof (induction m expr ret cur op arbitrary: v q rule: eval_loop.pinduct)
    case (1 m expr ret cur op)
    obtain c where c: "load expr m = Inr c"
      using "1.prems" eval_loop.psimps [OF "1.hyps"] by (auto simp: bindE_eq_Inr)
    note eq = "1.prems" [unfolded eval_loop.psimps [OF "1.hyps"] c bindE_Inr]
    consider "c = 0" | "c \<noteq> 0" "isdigit c" | "c \<noteq> 0" "\<not> isdigit c" "c = 0x29"
      | "c \<noteq> 0" "\<not> isdigit c" "c \<noteq> 0x29" "c = 0x28" | "c \<noteq> 0" "\<not> isdigit c" "c \<noteq> 0x29" "c \<noteq> 0x28"
      by blast
    then show ?case
    proof cases
      case 2
      then show ?thesis using eq "1.IH"(1) [OF c 2] by fastforce
    next
      case 4
      then obtain w p ret' cur' where w: "eval_loop m (expr + 1) 0 0 OP_NULL = Inr (w, p)"
          "eval_simple ret w op = Inr (ret', cur')" "eval_loop m (p + 1) ret' cur' op = Inr (v, q)"
        using eq by (auto simp: bindE_eq_Inr)
      have "expr + 1 \<le> p" using "1.IH"(2) [OF c 4] w(1) .
      moreover have "p + 1 \<le> q" using "1.IH"(3) [OF c 4 w(1) refl w(2) refl] w(3) .
      ultimately show ?thesis by simp
    next
      case 5
      then obtain ret' cur' where w: "eval_simple ret cur op = Inr (ret', cur')"
          "eval_loop m (expr + 1) ret' cur' (operator_of op c) = Inr (v, q)"
        using eq by (auto simp: bindE_eq_Inr)
      have "expr + 1 \<le> q" using "1.IH"(4) [OF c 5 w(1) refl] w(2) .
      then show ?thesis by simp
    qed (use eq in \<open>auto simp: bindE_eq_Inr\<close>)
  qed
  show "((m, q + 1, ret', cur', op), m, expr, ret, cur, op) \<in> measure (\<lambda>(m, expr, ret, cur, op). msize m - expr)"
    if "load expr m = Inr c" "eval_loop_dom (m, expr + 1, 0, 0, OP_NULL)" "eval_loop m (expr + 1) 0 0 OP_NULL = Inr x"
      "(w, q) = x" for m expr ret cur op c x w q ret' cur'
    using that progress [of m "expr + 1" 0 0 OP_NULL w q] by (auto simp: load_def split: if_splits)
qed (auto simp: load_def split: if_splits)

declare eval_loop.simps [simp del]

definition eval_recur :: "nat \<Rightarrow> mem \<Rightarrow> (u64 \<times> nat) res" where
  "eval_recur expr m = eval_loop m expr 0 0 OP_NULL"

definition eval :: "nat \<Rightarrow> mem \<Rightarrow> u64 res" where
  "eval expr m = bindE (eval_recur expr m) (\<lambda>(ret, _). Inr ret)"



section \<open>Left to right\<close>

text \<open>
  The reference: digits denote a number modulo $2^{64}$, and a chain of operations is applied from left to right,
  all operators with the same priority.
\<close>

definition numeral_of :: "u8 list \<Rightarrow> u64" where
  "numeral_of ds = foldl (\<lambda>a c. a * 10 + (ucast c - 0x30)) 0 ds"

fun binop :: "oper \<Rightarrow> u64 \<Rightarrow> u64 \<Rightarrow> u64 res" where
  "binop OP_NULL a b = Inr b"
| "binop OP_PLUS a b = Inr (a + b)"
| "binop OP_SUB a b = Inr (a - b)"
| "binop OP_MULT a b = Inr (a * b)"
| "binop OP_DIV a b = quotient a b"

fun left_to_right :: "u64 \<Rightarrow> (oper \<times> u8 list) list \<Rightarrow> u64 res" where
  "left_to_right v [] = Inr v"
| "left_to_right v ((op, ds) # xs) = bindE (binop op v (numeral_of ds)) (\<lambda>v. left_to_right v xs)"

fun op_char :: "oper \<Rightarrow> u8" where
  "op_char OP_PLUS = 0x2b" | "op_char OP_SUB = 0x2d" | "op_char OP_MULT = 0x2a" | "op_char OP_DIV = 0x2f"
| "op_char OP_NULL = 0x20"

definition chain_text :: "u8 list \<Rightarrow> (oper \<times> u8 list) list \<Rightarrow> u8 list" where
  "chain_text ds xs = ds @ concat (map (\<lambda>(op, ds). op_char op # ds) xs)"

definition chain :: "u8 list \<Rightarrow> (oper \<times> u8 list) list \<Rightarrow> bool" where
  "chain ds xs \<longleftrightarrow> (\<forall>c\<in>set ds. isdigit c) \<and> (\<forall>(op, ds)\<in>set xs. op \<noteq> OP_NULL \<and> (\<forall>c\<in>set ds. isdigit c))"

lemma eval_simple_binop: "eval_simple a b op = bindE (binop op a b) (\<lambda>v. Inr (v, 0))"
  by (cases op) simp_all

lemma loop_end: "cstring m p [] \<Longrightarrow> eval_loop m p ret cur op = Inr (ret, p)"
  by (simp add: cstring_Nil eval_loop.simps [of m p])

lemma loop_digits:
  "cstring m p (ds @ s) \<Longrightarrow> \<forall>c\<in>set ds. isdigit c \<Longrightarrow>
   eval_loop m p ret cur op = eval_loop m (p + length ds) ret (foldl (\<lambda>a c. a * 10 + (ucast c - 0x30)) cur ds) op"
proof (induction ds arbitrary: p cur)
  case (Cons c ds)
  then have "eval_loop m p ret cur op = eval_loop m (p + 1) ret (cur * 10 + (ucast c - 0x30)) op"
    by (simp add: cstring_Cons eval_loop.simps [of m p])
  also have "\<dots> = eval_loop m (p + 1 + length ds) ret
      (foldl (\<lambda>a c. a * 10 + (ucast c - 0x30)) (cur * 10 + (ucast c - 0x30)) ds) op"
    using Cons.prems by (intro Cons.IH) (auto simp: cstring_Cons)
  finally show ?case by simp
qed simp

lemma loop_operator:
  assumes "cstring m p (c # s)" and "c \<noteq> 0x28" and "c \<noteq> 0x29" and "\<not> isdigit c"
  shows "eval_loop m p ret cur op =
    bindE (binop op ret cur) (\<lambda>v. eval_loop m (p + 1) v 0 (operator_of op c))"
  using assms by (simp add: cstring_Cons eval_loop.simps [of m p] eval_simple_binop bindE_assoc)

lemma op_chars:
  "op \<noteq> OP_NULL \<Longrightarrow> op_char op \<noteq> 0x28 \<and> op_char op \<noteq> 0x29 \<and> \<not> isdigit (op_char op) \<and> operator_of op' (op_char op) = op"
  by (cases op) (simp_all add: isdigit_def operator_of_def)

text \<open>
  A chain is read up to its last number, which waits in \<open>cur\<close> for the operator before it. Whatever
  closes the chain and is not a digit then completes the value.
\<close>

fun pending :: "u64 \<Rightarrow> u64 \<Rightarrow> oper \<Rightarrow> (oper \<times> u8 list) list \<Rightarrow> (u64 \<times> u64 \<times> oper) res" where
  "pending ret cur op [] = Inr (ret, cur, op)"
| "pending ret cur op ((op', ds) # xs) = bindE (binop op ret cur) (\<lambda>v. pending v (numeral_of ds) op' xs)"

lemma pending_final:
  "bindE (pending ret cur op xs) (\<lambda>(r, c, op). bindE (binop op r c) k) =
   bindE (binop op ret cur) (\<lambda>v. bindE (left_to_right v xs) k)"
  by (induction ret cur op xs rule: pending.induct) (auto simp: bindE_assoc intro!: bindE_cong)

lemma loop_chain:
  "chain ds xs \<Longrightarrow> cstring m p (chain_text ds xs @ s) \<Longrightarrow>
   eval_loop m p ret 0 op =
     bindE (pending ret (numeral_of ds) op xs) (\<lambda>(r, c, op). eval_loop m (p + length (chain_text ds xs)) r c op)"
proof (induction xs arbitrary: ds p ret op)
  case Nil
  then show ?case using loop_digits [of m p ds s ret 0 op] by (simp add: chain_text_def chain_def numeral_of_def)
next
  case (Cons x xs)
  obtain op' ds' where x: "x = (op', ds')" by force
  let ?q = "p + length ds"
  have dig: "\<forall>c\<in>set ds. isdigit c" and op': "op' \<noteq> OP_NULL" and rest: "chain ds' xs"
    using Cons.prems(1) by (auto simp: chain_def x)
  have str: "cstring m p (ds @ (op_char op' # chain_text ds' xs @ s))"
    using Cons.prems(2) by (simp add: chain_text_def x)
  have q: "cstring m ?q (op_char op' # chain_text ds' xs @ s)"
    using cstring_append [OF str] .
  then have q1: "cstring m (?q + 1) (chain_text ds' xs @ s)"
    by (simp add: cstring_Cons)
  have "eval_loop m p ret 0 op = eval_loop m ?q ret (numeral_of ds) op"
    using loop_digits [OF str dig] by (simp add: numeral_of_def)
  also have "\<dots> = bindE (binop op ret (numeral_of ds)) (\<lambda>v. eval_loop m (?q + 1) v 0 op')"
    using loop_operator [OF q] op_chars [OF op'] by simp
  also have "\<dots> = bindE (binop op ret (numeral_of ds)) (\<lambda>v.
      bindE (pending v (numeral_of ds') op' xs) (\<lambda>(r, c, op). eval_loop m (?q + 1 + length (chain_text ds' xs)) r c op))"
    using Cons.IH [OF rest q1] by simp
  finally show ?case by (simp add: x chain_text_def bindE_assoc add.assoc)
qed

lemma eval_chain:
  assumes "chain ds xs" and "cstring m p (chain_text ds xs @ [10])"
  shows "eval p m = left_to_right (numeral_of ds) xs"
proof -
  let ?q = "p + length (chain_text ds xs)"
  have q: "cstring m ?q [10]" using cstring_append [OF assms(2)] .
  then have "eval_loop m ?q r c op = bindE (binop op r c) (\<lambda>v. Inr (v, ?q + 1))" for r c op
    using loop_operator [OF q] loop_end [of m "?q + 1"] by (simp add: cstring_Cons isdigit_def)
  then have "eval_loop m p 0 0 OP_NULL = bindE (left_to_right (numeral_of ds) xs) (\<lambda>v. Inr (v, ?q + 1))"
    using loop_chain [OF assms, of 0 OP_NULL] pending_final [of 0 "numeral_of ds" OP_NULL xs "\<lambda>v. Inr (v, ?q + 1)"]
    by simp
  then show ?thesis by (simp add: eval_def eval_recur_def bindE_assoc)
qed

section \<open>Sessions\<close>


lemma op_char_simps [simp]: "op_char op \<noteq> 0" "op_char op \<noteq> 10" "op_char op \<noteq> 0x71"
  by (cases op, simp_all)+





section \<open>Properties\<close>

text \<open>
  C19: a chain of unsigned numbers and operators without blanks, followed by the newline, evaluates from
  left to right in 64-bit arithmetic; a bracket is right as the last operand, with exactly one character
  (the newline) behind it. A refused division is the only failure.
\<close>

theorem eval_left_to_right:
  assumes "chain ds xs" and "chain ds' ys" and "op \<noteq> OP_NULL" and "x \<noteq> 0"
    and "cstring m p (chain_text ds xs @ [10])"
    and "cstring m q (chain_text ds xs @ [op_char op, 0x28] @ chain_text ds' ys @ [0x29, x])"
  shows "eval p m = left_to_right (numeral_of ds) xs \<and>
    eval q m = bindE (left_to_right (numeral_of ds) xs) (\<lambda>a.
      bindE (left_to_right (numeral_of ds') ys) (\<lambda>b. binop op a b))"
proof (rule conjI)
  show "eval p m = left_to_right (numeral_of ds) xs"
    by (rule eval_chain [OF assms(1,5)])
next
  define r where "r = q + length (chain_text ds xs)"
  define t where "t = r + 2 + length (chain_text ds' ys)"
  have str: "cstring m r (op_char op # 0x28 # chain_text ds' ys @ [0x29, x])"
    using cstring_append [OF assms(6)] by (simp add: r_def)
  then have str2: "cstring m (r + 2) (chain_text ds' ys @ [0x29, x])" and open_br: "cstring m (r + 1) (0x28 # chain_text ds' ys @ [0x29, x])"
    by (simp_all add: cstring_Cons)
  have close: "cstring m t [0x29, x]"
    using cstring_append [OF str2] by (simp add: t_def)
  have "eval_loop m t v c o' = bindE (binop o' v c) (\<lambda>v. Inr (v, t + 1))" for v c o'
    using close by (simp add: cstring_Cons eval_loop.simps [of m t] isdigit_def eval_simple_binop bindE_assoc)
  then have inner: "eval_loop m (r + 2) 0 0 OP_NULL =
      bindE (left_to_right (numeral_of ds') ys) (\<lambda>b. Inr (b, t + 1))"
    using loop_chain [OF assms(2) str2, of 0 OP_NULL]
      pending_final [of 0 "numeral_of ds'" OP_NULL ys "\<lambda>v. Inr (v, t + 1)"]
    by (simp add: t_def)
  have "cstring m (t + 2) []" using close by (simp add: cstring_Cons)
  then have bracket: "eval_loop m (r + 1) v 0 op =
      bindE (left_to_right (numeral_of ds') ys) (\<lambda>b. bindE (binop op v b) (\<lambda>w. Inr (w, t + 2)))" for v
    using open_br inner loop_end [of m "t + 2"]
    by (simp add: cstring_Cons eval_loop.simps [of m "Suc r"] isdigit_def eval_simple_binop bindE_assoc)
  have "eval_loop m r v c o' = bindE (binop o' v c) (\<lambda>v. eval_loop m (r + 1) v 0 op)" for v c o'
    using loop_operator [OF str] op_chars [OF assms(3)] by simp
  then have "eval_loop m q 0 0 OP_NULL = bindE (left_to_right (numeral_of ds) xs) (\<lambda>v. eval_loop m (r + 1) v 0 op)"
    using loop_chain [OF assms(1,6), of 0 OP_NULL]
      pending_final [of 0 "numeral_of ds" OP_NULL xs "\<lambda>v. eval_loop m (r + 1) v 0 op"]
    by (simp add: r_def)
  then show "eval q m = bindE (left_to_right (numeral_of ds) xs) (\<lambda>a.
      bindE (left_to_right (numeral_of ds') ys) (\<lambda>b. binop op a b))"
    unfolding eval_def eval_recur_def bracket by (simp add: bindE_assoc)
qed

theorem eval_left_to_right_witness:
  "let m = poke (poke (blank 40) 0 (bytes ''7-2*3'' @ [10, 0])) 20 (bytes ''7-2*3-(8/2)'' @ [10, 0]) in
     eval 0 m = Inr 15 \<and> eval 20 m = Inr 11"
proof -
  let ?m = "poke (poke (blank 40) 0 (bytes ''7-2*3'' @ [10, 0])) 20 (bytes ''7-2*3-(8/2)'' @ [10, 0])"
  let ?xs = "[(OP_SUB, bytes ''2''), (OP_MULT, bytes ''3'')]" and ?ys = "[(OP_DIV, bytes ''2'')]"
  have ch: "chain (bytes ''7'') ?xs" "chain (bytes ''8'') ?ys"
    by (simp_all add: chain_def bytes_def isdigit_def)
  have s1: "cstring ?m 0 (chain_text (bytes ''7'') ?xs @ [10])"
    by (simp add: chain_text_def bytes_def cstring_Cons cstring_Nil mbyte_poke blank_def)
  have s2: "cstring ?m 20 (chain_text (bytes ''7'') ?xs @ [op_char OP_SUB, 0x28] @ chain_text (bytes ''8'') ?ys @ [0x29, 10])"
    by (simp add: chain_text_def bytes_def cstring_Cons cstring_Nil mbyte_poke blank_def)
  show ?thesis
    using eval_left_to_right [OF ch _ _ s1 s2]
    by (simp add: Let_def numeral_of_def bytes_def quotient_def)
qed

definition typed :: "string \<Rightarrow> mem" where
  "typed s = poke (blank 16) 0 (bytes s @ [10, 0])"

text \<open>
  What the evaluator does outside that form. A blank applies the pending operator to an empty
  operand, so blanks around an operator lose the left operand and a blank after a product or quotient
  gives 0 or traps; the character after a closing bracket is skipped, so an operator there is lost; and
  a bracket at the very end of the string makes it read past the terminator.
\<close>

theorem eval_outside_the_form:
  "eval 0 (typed ''5 + 3'') = Inr 3 \<and>
   eval 0 (typed ''2*3 '') = Inr 0 \<and>
   eval 0 (typed ''8/2 '') = Inl DivideTrap \<and>
   eval 0 (typed ''(1+2)*3'') = Inr 3 \<and>
   eval 0 (typed ''2*(3) +1'') = Inr 1 \<and>
   eval 0 (poke (blank 4) 0 (bytes ''(1)'')) = Inl WildAccess"
  by code_simp



end
