(* ===== verification/Shell.thy ===== *)
theory Shell
  imports Reader
begin

text \<open>
  The shell \<open>tlibc/sh.c\<close> and the process launcher \<open>tlibc/system.c\<close>. The token texts that the shell copies
  into the buffer of the first job are never overwritten, so a pointer to one is its text; the buffer
  itself is its fill level. Processes are the sequences of system calls they make and how they end.
  What the kernel answers is a parameter.
\<close>

unbundle bit_operations_syntax

section \<open>system.c\<close>

record job =
  stdin_fo :: "u8 list option"
  stdout_fo :: "u8 list option"
  stderr_fo :: "u8 list option"
  exe :: "u8 list option"
  argv :: "u8 list list"
  pipe :: bool

text \<open>
  The calls of a launched process that matter for what it runs with, and the ways it ends: replaced by
  a program, by \<open>sys_exit\<close>, by a fault, or by running off the end of a function declared \<open>noreturn\<close>.
\<close>

datatype call =
    Open "u8 list" u64 int
  | Dup2 int int
  | Close int
  | Pipe nat int int

datatype ending = Runs "u8 list" "u8 list list" | Exits int | Faults fault | FallsThrough

type_synonym process = "call list \<times> ending"

text \<open>
  The kernel: the descriptor that opening a path gives, whether a path can be executed, the two
  descriptors of the pipe made for a job (or failure), whether the fork for a job succeeds, the result
  of the fork in \<open>exec_job\<close>, and the results of \<open>waitid\<close>, \<open>chdir\<close> and \<open>getpid\<close>.
\<close>

record kern =
  k_open :: "u8 list \<Rightarrow> u64 \<Rightarrow> int"
  k_exec :: "u8 list \<Rightarrow> bool"
  k_pipe :: "nat \<Rightarrow> (int \<times> int) option"
  k_fork :: "nat \<Rightarrow> bool"
  k_fork0 :: bool
  k_wait :: u32
  k_chdir :: "u8 list option \<Rightarrow> u32"
  k_pid :: u32

definition O_RDONLY :: u64 where "O_RDONLY = 0"
definition O_WRONLY :: u64 where "O_WRONLY = 1"
definition O_RDWR :: u64 where "O_RDWR = 2"
definition O_CREAT :: u64 where "O_CREAT = 64"
definition O_TRUNC :: u64 where "O_TRUNC = 512"

definition P_ALL :: u32 where "P_ALL = 0"
definition WEXITED :: u32 where "WEXITED = 4"

definition exec_dirs :: "u8 list list" where
  "exec_dirs = [bytes ''/'', bytes ''/bin/'', bytes ''/usr/bin/'', bytes ''/usr/local/bin/'']"

definition path_buf :: nat where
  "path_buf = 128"

text \<open>
  \<open>Execve\<close>: a \<open>sys_execve\<close> that succeeds does not return. The two \<open>Strcpy\<close> calls build the candidate in
  a static buffer of 128 bytes; a null name faults there.
\<close>

fun try_dirs :: "kern \<Rightarrow> u8 list option \<Rightarrow> u8 list list \<Rightarrow> u8 list list \<Rightarrow> ending" where
  "try_dirs k e av [] = FallsThrough"
| "try_dirs k e av (d # ds) =
     (case e of None \<Rightarrow> Faults NullDeref
      | Some p \<Rightarrow>
        if path_buf < length d + length p + 1 then Faults WildAccess
        else if k_exec k (d @ p) then Runs (d @ p) av
        else try_dirs k e av ds)"

definition Execve :: "kern \<Rightarrow> u8 list option \<Rightarrow> u8 list list \<Rightarrow> ending" where
  "Execve k e av =
     (case e of Some p \<Rightarrow> if k_exec k p then Runs p av else try_dirs k e av exec_dirs
      | None \<Rightarrow> try_dirs k e av exec_dirs)"

definition redirect :: "kern \<Rightarrow> u8 list option \<Rightarrow> u64 \<Rightarrow> int \<Rightarrow> call list" where
  "redirect k target flags fd =
     (case target of None \<Rightarrow> []
      | Some p \<Rightarrow> [Open p flags (k_open k p flags), Dup2 (k_open k p flags) fd])"

text \<open>The vector ends with a null pointer only if fewer than 64 slots of it are filled.\<close>

definition argv_end :: "u8 list list \<Rightarrow> bool" where
  "argv_end av \<longleftrightarrow> length av < 64"

definition exec_single :: "kern \<Rightarrow> job \<Rightarrow> process" where
  "exec_single k j =
     (redirect k (stdin_fo j) O_RDONLY 0 @
      redirect k (stdout_fo j) (O_CREAT OR O_RDWR) 1 @
      redirect k (stderr_fo j) (O_CREAT OR O_RDWR) 2,
      if argv_end (argv j) then Execve k (exe j) (argv j) else Faults WildAccess)"

definition after_calls :: "call list \<Rightarrow> process \<Rightarrow> process" where
  "after_calls cs p = (cs @ fst p, snd p)"

text \<open>
  \<open>exec_recur_noret\<close>: the processes of the jobs up to \<open>cur\<close>, last job first, each with the calls it and
  its forbears made before.
\<close>

definition exec_nth :: "kern \<Rightarrow> job list \<Rightarrow> nat \<Rightarrow> process" where
  "exec_nth k js i = (if i < length js then exec_single k (js ! i) else ([], Faults WildAccess))"

fun exec_recur :: "kern \<Rightarrow> job list \<Rightarrow> call list \<Rightarrow> nat \<Rightarrow> process list" where
  "exec_recur k js pre 0 = [after_calls pre (exec_nth k js 0)]"
| "exec_recur k js pre (Suc cur) =
     (case k_pipe k (Suc cur) of
        None \<Rightarrow> [(pre, Exits 1)]
      | Some (r, w) \<Rightarrow>
        let pre = pre @ [Pipe (Suc cur) r w] in
          if \<not> k_fork k (Suc cur) then [(pre, Exits 1)]
          else
            after_calls (pre @ [Dup2 r 0, Close r, Close w]) (exec_nth k js (Suc cur))
            # exec_recur k js (pre @ [Dup2 w 1, Close r, Close w]) cur)"

text \<open>The result for the shell, and the processes started. It waits once, for its own child.\<close>

definition exec_job :: "kern \<Rightarrow> job list \<Rightarrow> nat \<Rightarrow> u32 \<times> process list" where
  "exec_job k js cnt =
     (if \<not> k_fork0 k then (- 1, []) else (k_wait k, exec_recur k js [] (cnt - 1)))"

section \<open>sh.c\<close>

definition sh_contains :: "u8 list \<Rightarrow> u8 \<Rightarrow> bool" where
  "sh_contains s ch \<longleftrightarrow> ch = 0 \<or> ch \<in> set s"

fun Strcmp :: "u8 list \<Rightarrow> u8 list \<Rightarrow> int" where
  "Strcmp (a # s) (b # t) = (if a \<noteq> b then sint a - sint b else Strcmp s t)"
| "Strcmp (a # s) [] = sint a"
| "Strcmp [] (b # t) = - sint b"
| "Strcmp [] [] = 0"

definition whitespace :: "u8 list" where
  "whitespace = [0x20, 0x09, 0x0d, 0x0a]"

definition no_job :: job where
  "no_job = \<lparr>stdin_fo = None, stdout_fo = None, stderr_fo = None, exe = None, argv = [], pipe = False\<rparr>"

text \<open>
  The locals of \<open>system_single\<close>: the four jobs, the current one, the fill level of the first job's buffer,
  and which redirection the next token is the target of. The number of arguments is the length of the
  current \<open>argv\<close>, since a new job starts empty.
\<close>

record parser =
  jobs :: "job list"
  cur_job :: nat
  cp :: nat
  prein :: bool
  preout :: bool
  preerr :: bool

definition job_buf :: nat where
  "job_buf = 3545"

definition start_parser :: parser where
  "start_parser = \<lparr>jobs = replicate 4 no_job, cur_job = 0, cp = 0, prein = False, preout = False, preerr = False\<rparr>"

definition upd_job :: "(job \<Rightarrow> job) \<Rightarrow> parser \<Rightarrow> parser res" where
  "upd_job f st =
     (if cur_job st < length (jobs st)
      then Inr (st\<lparr>jobs := (jobs st)[cur_job st := f (jobs st ! cur_job st)]\<rparr>)
      else Inl WildAccess)"

definition push_arg :: "u8 list \<Rightarrow> job \<Rightarrow> job" where
  "push_arg old j = j\<lparr>exe := (if argv j = [] then Some old else exe j), argv := argv j @ [old]\<rparr>"

definition token_step :: "u8 list \<Rightarrow> parser \<Rightarrow> parser res" where
  "token_step old st =
     (if job_buf < cp st + length old + 1 then Inl WildAccess
      else
        let st = st\<lparr>cp := cp st + length old + 1\<rparr> in
        bindE (if Strcmp old (bytes ''|'') = 0
               then bindE (upd_job (pipe_update (\<lambda>_. False)) st) (\<lambda>st. Inr (False, st\<lparr>cur_job := cur_job st + 1\<rparr>))
               else Inr (True, st)) (\<lambda>(is_argv, st).
        bindE (if prein st
               then bindE (upd_job (stdin_fo_update (\<lambda>_. Some old)) st) (\<lambda>st. Inr (False, st\<lparr>prein := False\<rparr>))
               else Inr (is_argv, st)) (\<lambda>(is_argv, st).
        bindE (if preout st
               then bindE (upd_job (stdout_fo_update (\<lambda>_. Some old)) st) (\<lambda>st. Inr (False, st\<lparr>preout := False\<rparr>))
               else Inr (is_argv, st)) (\<lambda>(is_argv, st).
        bindE (if preerr st
               then bindE (upd_job (stderr_fo_update (\<lambda>_. Some old)) st) (\<lambda>st. Inr (False, st\<lparr>preerr := False\<rparr>))
               else Inr (is_argv, st)) (\<lambda>(is_argv, st).
        let (is_argv, st) = (if Strcmp old (bytes ''<'') = 0 then (False, st\<lparr>prein := True\<rparr>) else (is_argv, st));
            (is_argv, st) = (if Strcmp old (bytes ''>'') = 0 then (False, st\<lparr>preout := True\<rparr>) else (is_argv, st));
            (is_argv, st) = (if Strcmp old (bytes ''2>'') = 0 then (False, st\<lparr>preerr := True\<rparr>) else (is_argv, st))
        in if \<not> is_argv then Inr st
           else if cur_job st < length (jobs st) \<and> 64 \<le> length (argv (jobs st ! cur_job st)) then Inl WildAccess
           else upd_job (push_arg old) st)))))"

lemma scan_shrinks:
  assumes "s \<noteq> []"
  shows "length (drop (length (takeWhile (\<lambda>c. \<not> P c) (dropWhile P s))) (dropWhile P s)) < length s"
proof (cases "dropWhile P s")
  case Nil
  show ?thesis unfolding Nil using assms by simp
next
  case (Cons a t)
  then have "\<not> P a" by (metis hd_dropWhile list.distinct(1) list.sel(1))
  then have "0 < length (takeWhile (\<lambda>c. \<not> P c) (dropWhile P s))" using Cons by simp
  moreover have "length (dropWhile P s) \<le> length s" by (rule length_dropWhile_le)
  moreover have "0 < length (dropWhile P s)" using Cons by simp
  ultimately show ?thesis unfolding length_drop by linarith
qed

text \<open>The scanner: skip blanks, take the characters up to the next blank, record them if there are any.\<close>

function scan :: "u8 list \<Rightarrow> parser \<Rightarrow> parser res" where
  "scan s st =
     (if s = [] then Inr st
      else
        let t = dropWhile (sh_contains whitespace) s; tok = takeWhile (\<lambda>c. \<not> sh_contains whitespace c) t;
            rest = drop (length tok) t
        in bindE (if tok \<noteq> [] then token_step tok st else Inr st) (\<lambda>st. scan rest st))"
  by pat_completeness auto

termination
  by (relation "measure (\<lambda>(s, st). length s)") (use scan_shrinks in auto)

declare scan.simps [simp del]

text \<open>
  What the shell has done: the writes to its descriptors, the process groups it started, the exit code
  once it has called \<open>sys_exit\<close>, and the buffer of Printf.
\<close>

record shell =
  writes :: "(int \<times> u8 list) list"
  started :: "process list list"
  exited :: "int option"
  pbuf :: mem

definition say :: "int \<Rightarrow> u8 list \<Rightarrow> shell \<Rightarrow> shell" where
  "say fd bs sh = sh\<lparr>writes := writes sh @ [(fd, bs)]\<rparr>"

definition run_command :: "kern \<Rightarrow> job list \<Rightarrow> nat \<Rightarrow> shell \<Rightarrow> (u32 \<times> shell) res" where
  "run_command k js jobcnt sh =
     (case exe (js ! 0) of None \<Rightarrow> Inl NullDeref
      | Some e \<Rightarrow>
        if Strcmp (bytes ''cd'') e = 0 then
          Inr (0, if k_chdir k (if 1 < length (argv (js ! 0)) then Some (argv (js ! 0) ! 1) else None) \<noteq> 0
                  then say 2 (bytes ''cd failure'' @ [10]) sh else sh)
        else if Strcmp (bytes ''exit'') e = 0 \<or> Strcmp (bytes ''q'') e = 0 then
          Inr (0, (say 1 (bytes ''Bye.'' @ [10]) sh)\<lparr>exited := Some 0\<rparr>)
        else if Strcmp (bytes ''pid'') e = 0 then
          bindE (Printf (bytes ''%d'' @ [10]) [VInt (k_pid k)] (pbuf sh)) (\<lambda>(_, out, b).
            Inr (0, (say 1 out sh)\<lparr>pbuf := b\<rparr>))
        else
          let (r, ps) = exec_job k js jobcnt in Inr (r, sh\<lparr>started := started sh @ [ps]\<rparr>))"

definition system_single :: "kern \<Rightarrow> u8 list \<Rightarrow> nat \<Rightarrow> shell \<Rightarrow> (u32 \<times> shell) res" where
  "system_single k cmd n sh =
     (if cmd = [] then Inr (0, sh)
      else bindE (scan (take n cmd) start_parser) (\<lambda>st. run_command k (jobs st) (cur_job st + 1) sh))"

definition eoc :: "u8 list" where
  "eoc = [0x0a, 0x3b, 0x26]"

function system :: "kern \<Rightarrow> u8 list \<Rightarrow> shell \<Rightarrow> (u32 \<times> shell) res" where
  "system k cmd sh =
     (if cmd = [] then Inr (0, sh)
      else
        let n = length (takeWhile (\<lambda>c. \<not> sh_contains eoc c) cmd) in
        bindE (system_single k cmd n sh) (\<lambda>(r, sh).
          if exited sh \<noteq> None then Inr (r, sh)
          else bindE (system k (drop (n + 1) cmd) sh) (\<lambda>(r', sh). Inr (r OR r', sh))))"
  by pat_completeness auto
termination
  by (relation "measure (\<lambda>(k, cmd, sh). length cmd)") auto

declare system.simps [simp del]

text \<open>
  \<open>main\<close>: the line in the buffer is read as the string it holds; the shell stops when it exited. Its
  result is the shell at the end.
\<close>

function cstr_at :: "mem \<Rightarrow> nat \<Rightarrow> u8 list res" where
  "cstr_at m p = bindE (load p m) (\<lambda>c. if c = 0 then Inr [] else bindE (cstr_at m (p + 1)) (\<lambda>s. Inr (c # s)))"
  by pat_completeness auto
termination
  by (relation "measure (\<lambda>(m, p). msize m - p)") (auto simp: load_def split: if_splits)

declare cstr_at.simps [simp del]

definition sh_round :: "kern \<Rightarrow> u8 list \<Rightarrow> shell \<Rightarrow> (bool \<times> shell) res" where
  "sh_round k cmd sh =
     bindE (system k cmd sh) (\<lambda>(_, sh).
       if exited sh \<noteq> None then Inr (True, sh) else Inr (False, say 1 (bytes ''(yrd) '') sh))"

definition sh_line :: "kern \<Rightarrow> mem \<Rightarrow> shell \<Rightarrow> (bool \<times> shell) res" where
  "sh_line k buf sh = bindE (cstr_at buf 0) (\<lambda>cmd. sh_round k cmd sh)"

definition sh_main :: "kern \<Rightarrow> nat \<Rightarrow> input \<Rightarrow> shell res" where
  "sh_main k fuel inp =
     line_loop fuel reader_gets (sh_line k) (fresh_reader, inp) (blank 2048)
       \<lparr>writes = [(1, bytes ''(yrd) '')], started = [], exited = None, pbuf = blank 2048\<rparr>"

section \<open>Parsing\<close>

lemma Strcmp_eq [simp]: "0 \<notin> set s \<Longrightarrow> 0 \<notin> set t \<Longrightarrow> Strcmp s t = 0 \<longleftrightarrow> s = t"
  by (induction s t rule: Strcmp.induct) (auto simp: signed_eq_0_iff dest: signed_word_eqI)

lemma bytes_ops:
  "bytes ''|'' = [0x7c]" "bytes ''<'' = [0x3c]" "bytes ''>'' = [0x3e]" "bytes ''2>'' = [0x32, 0x3e]"
  by (simp_all add: bytes_def)

text \<open>
  How a command line is read, apart from the scanner: its words are the longest runs of characters between
  blanks (space, tab, carriage return, newline). An ordinary word is none of the four signs and has no
  character that ends a command.
\<close>

definition blank_char :: "u8 \<Rightarrow> bool" where
  "blank_char c \<longleftrightarrow> c \<in> {of_char CHR '' '', 9, 10, 13}"

fun words :: "u8 list \<Rightarrow> u8 list list" where
  "words [] = []"
| "words (c # s) =
     (if blank_char c then words s
      else if s = [] \<or> blank_char (hd s) then [c] # words s
      else (c # hd (words s)) # tl (words s))"

definition plain :: "u8 list \<Rightarrow> bool" where
  "plain t \<longleftrightarrow> t \<noteq> [] \<and> 0 \<notin> set t \<and> (\<forall>c\<in>set t. \<not> blank_char c \<and> c \<notin> {of_char CHR '';'', of_char CHR ''&''}) \<and>
     t \<notin> {bytes ''|'', bytes ''<'', bytes ''>'', bytes ''2>''}"

definition at_job :: "job list \<Rightarrow> job \<Rightarrow> nat \<Rightarrow> nat \<Rightarrow> parser" where
  "at_job ds j n c =
     \<lparr>jobs = ds @ j # replicate n no_job, cur_job = length ds, cp = c, prein = False, preout = False, preerr = False\<rparr>"

lemma upd_at_job [simp]: "upd_job f (at_job ds j n c) = Inr (at_job ds (f j) n c)"
  by (simp add: upd_job_def at_job_def)

lemma upd_flagged [simp]:
  "upd_job f (at_job ds j n c\<lparr>prein := b\<rparr>) = Inr (at_job ds (f j) n c\<lparr>prein := b\<rparr>)"
  "upd_job f (at_job ds j n c\<lparr>preout := b\<rparr>) = Inr (at_job ds (f j) n c\<lparr>preout := b\<rparr>)"
  "upd_job f (at_job ds j n c\<lparr>preerr := b\<rparr>) = Inr (at_job ds (f j) n c\<lparr>preerr := b\<rparr>)"
  by (simp_all add: upd_job_def at_job_def)

lemma at_job_fields [simp]:
  "prein (at_job ds j n c) = False" "preout (at_job ds j n c) = False" "preerr (at_job ds j n c) = False"
  "cp (at_job ds j n c) = c" "at_job ds j n c\<lparr>cp := c'\<rparr> = at_job ds j n c'"
  "at_job ds j n c\<lparr>prein := False\<rparr> = at_job ds j n c" "at_job ds j n c\<lparr>preout := False\<rparr> = at_job ds j n c"
  "at_job ds j n c\<lparr>preerr := False\<rparr> = at_job ds j n c"
  "at_job ds j n c\<lparr>prein := b, cp := c'\<rparr> = at_job ds j n c'\<lparr>prein := b\<rparr>"
  "at_job ds j n c\<lparr>preout := b, cp := c'\<rparr> = at_job ds j n c'\<lparr>preout := b\<rparr>"
  "at_job ds j n c\<lparr>preerr := b, cp := c'\<rparr> = at_job ds j n c'\<lparr>preerr := b\<rparr>"
  "cur_job (at_job ds j n c) = length ds" "jobs (at_job ds j n c) = ds @ j # replicate n no_job"
  by (simp_all add: at_job_def)

lemma plain_nonzero: "plain t \<Longrightarrow> 0 \<notin> set t"
  by (auto simp: plain_def)

lemma plain_ops [simp]:
  "plain t \<Longrightarrow> t \<noteq> [0x7c] \<and> t \<noteq> [0x3c] \<and> t \<noteq> [0x3e] \<and> t \<noteq> [0x32, 0x3e]"
  by (simp add: plain_def bytes_ops)

lemma step_arg:
  assumes "plain t" and "length (argv j) < 64" and "c + length t + 1 \<le> job_buf"
  shows "token_step t (at_job ds j n c) = Inr (at_job ds (push_arg t j) n (c + length t + 1))"
  using assms plain_nonzero [OF assms(1)] plain_ops [OF assms(1)]
  by (simp add: token_step_def bytes_ops Let_def)

definition redir :: "u8 list \<Rightarrow> u8 list option \<Rightarrow> u8 list list" where
  "redir op target = (case target of None \<Rightarrow> [] | Some t \<Rightarrow> [op, t])"

lemma step_pipe:
  assumes "c + 2 \<le> job_buf" and "\<not> pipe j"
  shows "token_step (bytes ''|'') (at_job ds j (Suc n) c) = Inr (at_job (ds @ [j]) no_job n (c + 2))"
  using assms by (simp add: token_step_def bytes_ops Let_def upd_job_def at_job_def)

lemma scan_Nil [simp]: "scan [] st = Inr st"
  by (simp add: scan.simps)

lemma scan_blank: "sh_contains whitespace c \<Longrightarrow> scan (c # s) st = scan s st"
  by (cases "s = []") (simp_all add: scan.simps [of "[c]"] scan.simps [of "c # s"] scan.simps [of s])

lemma contains_blank: "c \<noteq> 0 \<Longrightarrow> sh_contains whitespace c = blank_char c"
  by (auto simp: sh_contains_def whitespace_def blank_char_def)

lemma words_blanks: "words (dropWhile blank_char s) = words s"
  by (induction s) simp_all

lemma words_word:
  "t \<noteq> [] \<Longrightarrow> \<forall>c\<in>set t. \<not> blank_char c \<Longrightarrow> r = [] \<or> blank_char (hd r) \<Longrightarrow> words (t @ r) = t # words r"
proof (induction t rule: list_nonempty_induct)
  case (single c)
  then show ?case by simp
next
  case (cons c t)
  then have "\<not> blank_char (hd (t @ r))" "t @ r \<noteq> []" "words (t @ r) = t # words r" by auto
  then show ?case using cons.prems by simp
qed

text \<open>The scanner takes the words of any line in order, the last one included.\<close>

lemma scan_words: "0 \<notin> set s \<Longrightarrow> scan s st = foldE token_step (words s) st"
proof (induction s st rule: scan.induct)
  case (1 s st)
  let ?t = "dropWhile blank_char s"
  let ?tok = "takeWhile (\<lambda>c. \<not> blank_char c) ?t"
  let ?rest = "drop (length ?tok) ?t"
  have z: "0 \<notin> set ?t" "0 \<notin> set ?rest" using 1(2) by (auto dest: set_dropWhileD in_set_dropD)
  have b: "sh_contains whitespace c = blank_char c" if "c \<in> set s" for c
    using 1(2) that by (metis contains_blank)
  have t: "dropWhile (sh_contains whitespace) s = ?t"
    using b by (intro dropWhile_cong) auto
  have tok: "takeWhile (\<lambda>c. \<not> sh_contains whitespace c) ?t = ?tok"
    using b by (intro takeWhile_cong) (auto dest: set_dropWhileD)
  have rest: "?rest = dropWhile (\<lambda>c. \<not> blank_char c) ?t"
    by (simp add: dropWhile_eq_drop)
  have w: "words s = (if ?tok = [] then words ?rest else ?tok # words ?rest)"
  proof (cases "?tok = []")
    case True
    then show ?thesis by (simp add: words_blanks)
  next
    case False
    have "?rest = [] \<or> blank_char (hd ?rest)"
      unfolding rest using hd_dropWhile [of "\<lambda>c. \<not> blank_char c" ?t] by blast
    then have "words (?tok @ ?rest) = ?tok # words ?rest"
      using False by (intro words_word) (auto dest: set_takeWhileD)
    moreover have "?tok @ ?rest = ?t" unfolding rest by simp
    ultimately show ?thesis using False by (simp add: words_blanks)
  qed
  have IH: "scan ?rest st' = foldE token_step (words ?rest) st'" 
    if "s \<noteq> []" "(if ?tok \<noteq> [] then token_step ?tok st else Inr st) = Inr st'" for st'
    using 1(1) [OF that(1) refl refl refl, unfolded t tok, OF that(2) z(2)] .
  show ?case
  proof (cases "s = []")
    case False
    then have "scan s st = bindE (if ?tok \<noteq> [] then token_step ?tok st else Inr st) (scan ?rest)"
      unfolding scan.simps [of s st] Let_def t tok by simp
    also have "\<dots> = bindE (if ?tok \<noteq> [] then token_step ?tok st else Inr st) (foldE token_step (words ?rest))"
      using IH [OF False] by (rule bindE_cong [OF refl])
    finally show ?thesis unfolding w by (cases "?tok = []") simp_all
  qed simp
qed

text \<open>The room the tokens of a line take in the buffer, each with its terminator.\<close>

definition room :: "u8 list list \<Rightarrow> nat" where
  "room ts = sum_list (map (\<lambda>t. length t + 1) ts)"

lemma room_simps [simp]:
  "room [] = 0" "room (t # ts) = length t + 1 + room ts" "room (ts @ us) = room ts + room us"
  by (simp_all add: room_def)

lemma step_redirect:
  assumes "\<forall>t. target = Some t \<longrightarrow> plain t" and "c + room (redir op target) \<le> job_buf"
  shows "op = bytes ''<'' \<Longrightarrow> \<forall>t. target = None \<longrightarrow> stdin_fo j = None \<Longrightarrow>
      foldE token_step (redir op target) (at_job ds j n c) =
      Inr (at_job ds (j\<lparr>stdin_fo := target\<rparr>) n (c + room (redir op target)))"
    and "op = bytes ''>'' \<Longrightarrow> \<forall>t. target = None \<longrightarrow> stdout_fo j = None \<Longrightarrow>
      foldE token_step (redir op target) (at_job ds j n c) =
      Inr (at_job ds (j\<lparr>stdout_fo := target\<rparr>) n (c + room (redir op target)))"
    and "op = bytes ''2>'' \<Longrightarrow> \<forall>t. target = None \<longrightarrow> stderr_fo j = None \<Longrightarrow>
      foldE token_step (redir op target) (at_job ds j n c) =
      Inr (at_job ds (j\<lparr>stderr_fo := target\<rparr>) n (c + room (redir op target)))"
  using assms by (cases target; simp add: redir_def token_step_def bytes_ops Let_def plain_nonzero)+

lemma fold_args:
  "\<forall>t\<in>set ts. plain t \<Longrightarrow> length (argv j) + length ts \<le> 64 \<Longrightarrow> c + room ts \<le> job_buf \<Longrightarrow>
   foldE token_step ts (at_job ds j n c) = Inr (at_job ds (fold push_arg ts j) n (c + room ts))"
proof (induction ts arbitrary: j c)
  case (Cons t ts)
  have "token_step t (at_job ds j n c) = Inr (at_job ds (push_arg t j) n (c + length t + 1))"
    using Cons.prems by (intro step_arg) auto
  then show ?case
    using Cons.IH [of "push_arg t j" "c + length t + 1"] Cons.prems by (simp add: push_arg_def add.assoc)
qed simp

lemma push_args: "argv j \<noteq> [] \<Longrightarrow> fold push_arg ts j = j\<lparr>argv := argv j @ ts\<rparr>"
  by (induction ts arbitrary: j) (simp_all add: push_arg_def)

lemma push_args_new: "ts \<noteq> [] \<Longrightarrow> fold push_arg ts no_job = no_job\<lparr>exe := Some (hd ts), argv := ts\<rparr>"
  by (cases ts) (simp_all add: push_args push_arg_def no_job_def)

text \<open>The tokens a job is typed as, and a pipeline of jobs.\<close>

definition job_tokens :: "job \<Rightarrow> u8 list list" where
  "job_tokens j = argv j @ redir (bytes ''<'') (stdin_fo j) @ redir (bytes ''>'') (stdout_fo j) @
     redir (bytes ''2>'') (stderr_fo j)"

fun line_tokens :: "job list \<Rightarrow> u8 list list" where
  "line_tokens [] = []"
| "line_tokens [j] = job_tokens j"
| "line_tokens (j # js) = job_tokens j @ bytes ''|'' # line_tokens js"

definition valid_job :: "job \<Rightarrow> bool" where
  "valid_job j \<longleftrightarrow> argv j \<noteq> [] \<and> length (argv j) < 64 \<and> exe j = Some (hd (argv j)) \<and> \<not> pipe j \<and>
     (\<forall>t\<in>set (argv j) \<union> set_option (stdin_fo j) \<union> set_option (stdout_fo j) \<union> set_option (stderr_fo j). plain t)"

lemma fold_job:
  assumes "valid_job j" and "c + room (job_tokens j) \<le> job_buf"
  shows "foldE token_step (job_tokens j) (at_job ds no_job n c) = Inr (at_job ds j n (c + room (job_tokens j)))"
proof -
  let ?i = "redir (bytes ''<'') (stdin_fo j)" and ?o = "redir (bytes ''>'') (stdout_fo j)"
    and ?e = "redir (bytes ''2>'') (stderr_fo j)"
  let ?j1 = "no_job\<lparr>exe := exe j, argv := argv j\<rparr>"
  let ?c1 = "c + room (argv j)"
  have 1: "foldE token_step (argv j) (at_job ds no_job n c) = Inr (at_job ds ?j1 n ?c1)"
  proof -
    have "argv no_job = []" by (simp add: no_job_def)
    then show ?thesis
      using assms fold_args [of "argv j" no_job c ds n]
      by (auto simp: valid_job_def job_tokens_def push_args_new)
  qed
  have 2: "foldE token_step ?i (at_job ds ?j1 n ?c1) =
      Inr (at_job ds (?j1\<lparr>stdin_fo := stdin_fo j\<rparr>) n (?c1 + room ?i))"
    using assms by (intro step_redirect(1)) (auto simp: valid_job_def job_tokens_def no_job_def)
  have 3: "foldE token_step ?o (at_job ds (?j1\<lparr>stdin_fo := stdin_fo j\<rparr>) n (?c1 + room ?i)) =
      Inr (at_job ds (?j1\<lparr>stdin_fo := stdin_fo j, stdout_fo := stdout_fo j\<rparr>) n (?c1 + room ?i + room ?o))"
    using assms by (intro step_redirect(2)) (auto simp: valid_job_def job_tokens_def no_job_def)
  have 4: "foldE token_step ?e (at_job ds (?j1\<lparr>stdin_fo := stdin_fo j, stdout_fo := stdout_fo j\<rparr>) n
        (?c1 + room ?i + room ?o)) =
      Inr (at_job ds (?j1\<lparr>stdin_fo := stdin_fo j, stdout_fo := stdout_fo j, stderr_fo := stderr_fo j\<rparr>) n
        (?c1 + room ?i + room ?o + room ?e))"
    using assms by (intro step_redirect(3)) (auto simp: valid_job_def job_tokens_def no_job_def)
  have "?j1\<lparr>stdin_fo := stdin_fo j, stdout_fo := stdout_fo j, stderr_fo := stderr_fo j\<rparr> = j"
    using assms(1) by (simp add: valid_job_def no_job_def)
  then show ?thesis using 1 2 3 4 by (simp add: job_tokens_def foldE_append add.assoc)
qed

lemma fold_line:
  "js \<noteq> [] \<Longrightarrow> \<forall>j\<in>set js. valid_job j \<Longrightarrow> c + room (line_tokens js) \<le> job_buf \<Longrightarrow>
   length js \<le> Suc n \<Longrightarrow>
   \<exists>c'. foldE token_step (line_tokens js) (at_job ds no_job n c) =
     Inr (at_job (ds @ butlast js) (last js) (Suc n - length js) c')"
proof (induction js arbitrary: ds n c rule: line_tokens.induct)
  case (2 j)
  then show ?case using fold_job [of j c ds n] by auto
next
  case (3 j j' js)
  obtain n' where n: "n = Suc n'" using 3(5) by (cases n) auto
  let ?c = "c + room (job_tokens j)"
  have "foldE token_step (job_tokens j) (at_job ds no_job n c) = Inr (at_job ds j n ?c)"
    using 3(3,4) by (intro fold_job) auto
  moreover have "token_step (bytes ''|'') (at_job ds j n ?c) = Inr (at_job (ds @ [j]) no_job n' (?c + 2))"
    unfolding n using 3(3,4) by (intro step_pipe) (auto simp: valid_job_def bytes_ops)
  ultimately have "foldE token_step (line_tokens (j # j' # js)) (at_job ds no_job n c) =
      foldE token_step (line_tokens (j' # js)) (at_job (ds @ [j]) no_job n' (?c + 2))"
    by (simp add: foldE_append)
  then show ?case
    using 3(1) [of "?c + 2" n' "ds @ [j]"] 3(3-5) n by (auto simp: bytes_ops)
qed simp

definition pad :: "job list \<Rightarrow> job list" where
  "pad js = js @ replicate (4 - length js) no_job"

definition word_ok :: "u8 list \<Rightarrow> bool" where
  "word_ok t \<longleftrightarrow> 0 \<notin> set t \<and> (\<forall>c\<in>set t. \<not> sh_contains eoc c)"

lemma plain_word_ok: "plain t \<Longrightarrow> word_ok t"
  by (auto simp: plain_def word_ok_def sh_contains_def eoc_def blank_char_def)

lemma signs_word_ok: "word_ok (bytes ''|'')" "word_ok (bytes ''<'')" "word_ok (bytes ''>'')" "word_ok (bytes ''2>'')"
  by (simp_all add: word_ok_def bytes_ops sh_contains_def eoc_def)

lemma job_token_ok: "valid_job j \<Longrightarrow> t \<in> set (job_tokens j) \<Longrightarrow> word_ok t"
  by (auto simp: valid_job_def job_tokens_def redir_def signs_word_ok plain_word_ok split: option.splits)

lemma line_token_ok: "\<forall>j\<in>set js. valid_job j \<Longrightarrow> t \<in> set (line_tokens js) \<Longrightarrow> word_ok t"
  by (induction js rule: line_tokens.induct) (auto simp: signs_word_ok dest: job_token_ok)

lemma words_chars: "c \<in> set s \<Longrightarrow> blank_char c \<or> (\<exists>t\<in>set (words s). c \<in> set t)"
proof (induction s)
  case (Cons a s)
  have "words s \<noteq> []" if "s \<noteq> []" "\<not> blank_char (hd s)" using that by (cases s) auto
  then show ?case using Cons by (cases "words s") (auto split: if_splits)
qed simp

lemma line_chars:
  assumes "\<forall>j\<in>set js. valid_job j" and "words s = line_tokens js" and "c \<in> set s"
  shows "c \<noteq> 0" and "c \<noteq> 10 \<Longrightarrow> \<not> sh_contains eoc c"
proof -
  from words_chars [OF assms(3)] consider "blank_char c" | t where "t \<in> set (line_tokens js)" "c \<in> set t"
    unfolding assms(2) by blast
  then have "c \<noteq> 0 \<and> (c \<noteq> 10 \<longrightarrow> \<not> sh_contains eoc c)"
    using line_token_ok [OF assms(1)] by cases (auto simp: word_ok_def sh_contains_def eoc_def blank_char_def)
  then show "c \<noteq> 0" "c \<noteq> 10 \<Longrightarrow> \<not> sh_contains eoc c" by blast+
qed

lemma scan_jobs:
  assumes "js \<noteq> []" and "length js \<le> 4" and "\<forall>j\<in>set js. valid_job j" and "words s = line_tokens js"
    and "room (line_tokens js) \<le> job_buf"
  shows "\<exists>st. scan s start_parser = Inr st \<and> jobs st = pad js \<and> cur_job st = length js - 1"
proof -
  have start: "start_parser = at_job [] no_job 3 0"
    by (simp add: start_parser_def at_job_def numeral_eq_Suc)
  have "scan s start_parser = foldE token_step (line_tokens js) start_parser"
    using scan_words [of s start_parser] line_chars(1) [OF assms(3,4)] unfolding assms(4) by blast
  moreover obtain c' where "foldE token_step (line_tokens js) start_parser =
      Inr (at_job (butlast js) (last js) (4 - length js) c')"
    using fold_line [of js 0 3 "[]"] assms unfolding start by (auto simp: numeral_eq_Suc)
  moreover have "butlast js @ [last js] = js" using assms(1) by simp
  ultimately show ?thesis unfolding pad_def by (metis append.assoc append_Cons append_Nil at_job_fields(12,13) length_butlast)
qed

section \<open>Sessions\<close>

lemma cstr_at_cstring: "cstring m p s \<Longrightarrow> cstr_at m p = Inr s"
  by (induction s arbitrary: p) (simp_all add: cstring_Cons cstring_Nil cstr_at.simps [of m])

definition builtin :: "u8 list \<Rightarrow> bool" where
  "builtin e \<longleftrightarrow> e \<in> {bytes ''cd'', bytes ''exit'', bytes ''q'', bytes ''pid''}"

text \<open>A line that spells a pipeline of programs: at most four, fewer than 2047 characters, no built-in first.\<close>

definition typed_jobs :: "job list \<Rightarrow> bool" where
  "typed_jobs js \<longleftrightarrow> js \<noteq> [] \<and> length js \<le> 4 \<and> (\<forall>j\<in>set js. valid_job j) \<and> \<not> builtin (hd (argv (hd js)))"

definition typed_line :: "job list \<Rightarrow> u8 list \<Rightarrow> bool" where
  "typed_line js l \<longleftrightarrow> typed_jobs js \<and> words l = line_tokens js \<and> 10 \<notin> set l \<and> length l + 1 < 2048"

lemma room_words: "room (words s) \<le> length s + (if s = [] \<or> blank_char (hd s) then 0 else 1)"
proof (induction s)
  case (Cons c s)
  have "words s \<noteq> []" if "s \<noteq> []" "\<not> blank_char (hd s)" using that by (cases s) auto
  then show ?case using Cons by (cases "words s") (auto split: if_splits)
qed simp

lemma run_typed:
  assumes "typed_jobs js"
  shows "run_command k (pad js) n sh =
    Inr (fst (exec_job k (pad js) n), sh\<lparr>started := started sh @ [snd (exec_job k (pad js) n)]\<rparr>)"
proof -
  have v: "valid_job (hd js)" and b: "\<not> builtin (hd (argv (hd js)))" and ne: "js \<noteq> []"
    using assms by (auto simp: typed_jobs_def)
  have "pad js ! 0 = hd js" using ne by (cases js) (simp_all add: pad_def)
  then have e: "exe (pad js ! 0) = Some (hd (argv (hd js)))" using v by (simp add: valid_job_def)
  have "0 \<notin> set (hd (argv (hd js)))" using v plain_nonzero by (auto simp: valid_job_def)
  then show ?thesis
    using e b by (auto simp: run_command_def builtin_def bytes_def split: prod.splits)
qed

lemma system_typed:
  assumes "typed_line js l" and "exited sh = None"
  shows "system k (l @ [10]) sh =
    Inr (fst (exec_job k (pad js) (length js)), sh\<lparr>started := started sh @ [snd (exec_job k (pad js) (length js))]\<rparr>)"
proof -
  have v: "\<forall>j\<in>set js. valid_job j" and js: "js \<noteq> []" "length js \<le> 4" and w: "words l = line_tokens js" and tj: "typed_jobs js"
    using assms(1) by (auto simp: typed_line_def typed_jobs_def)
  have fits: "room (line_tokens js) \<le> job_buf"
    using assms(1) room_words [of l] unfolding w by (simp add: typed_line_def job_buf_def split: if_splits)
  have tw: "takeWhile (\<lambda>c. \<not> sh_contains eoc c) (l @ [10]) = l"
  proof -
    have "\<not> sh_contains eoc c" if "c \<in> set l" for c
      using assms(1) that by (intro line_chars(2) [OF v w that]) (auto simp: typed_line_def)
    then show ?thesis by (simp add: sh_contains_def eoc_def)
  qed
  obtain st where st: "scan l start_parser = Inr st" "jobs st = pad js" "cur_job st + 1 = length js"
    using scan_jobs [OF js v w fits] js(1) by fastforce
  have "system_single k (l @ [10]) (length l) sh =
      Inr (fst (exec_job k (pad js) (length js)), sh\<lparr>started := started sh @ [snd (exec_job k (pad js) (length js))]\<rparr>)"
    using st by (simp add: system_single_def run_typed [OF tj])
  then show ?thesis
    using assms(2) by (simp add: system.simps [of k "l @ [10]"] tw system.simps [of k "[]"] Let_def)
qed

definition sh_prompt :: "int \<times> u8 list" where
  "sh_prompt = (1, bytes ''(yrd) '')"

lemma sh_lines:
  assumes "list_all2 typed_line jss ls" and "exited sh = None"
  shows "run_lines (sh_round k) ls sh =
    Inr (sh\<lparr>writes := writes sh @ replicate (length jss) sh_prompt, started := started sh @ map (\<lambda>js. snd (exec_job k (pad js) (length js))) jss\<rparr>)"
  using assms(1,2)
proof (induction jss ls arbitrary: sh rule: list_all2_induct)
  case (Cons js jss l ls)
  have "\<forall>j\<in>set js. valid_job j" "words l = line_tokens js"
    using Cons.hyps(1) by (simp_all add: typed_line_def typed_jobs_def)
  then have "clean l = l" unfolding clean_def by (intro filter_True) (auto dest: line_chars(1))
  then show ?case
    using Cons.IH [of "say 1 (bytes ''(yrd) '') (sh\<lparr>started := started sh @ [snd (exec_job k (pad js) (length js))]\<rparr>)"]
      Cons.prems system_typed [OF Cons.hyps(1), of sh k]
    by (simp add: sh_round_def say_def sh_prompt_def)
qed simp

section \<open>Descriptors\<close>

text \<open>
  What the calls of a trace do to a table of descriptors, by the documented behaviour of \<open>open\<close>,
  \<open>dup2\<close>, \<open>close\<close> and \<open>pipe\<close>.
\<close>

datatype endpoint = Inherited nat | ReadEnd nat | WriteEnd nat | OpenFile "u8 list" u64

fun do_call :: "call \<Rightarrow> (int \<rightharpoonup> endpoint) \<Rightarrow> (int \<rightharpoonup> endpoint)" where
  "do_call (Open p flags fd) t = (if fd < 0 then t else t(fd \<mapsto> OpenFile p flags))"
| "do_call (Dup2 a b) t = (case t a of None \<Rightarrow> t | Some e \<Rightarrow> t(b \<mapsto> e))"
| "do_call (Close a) t = t(a := None)"
| "do_call (Pipe n r w) t = t(r \<mapsto> ReadEnd n, w \<mapsto> WriteEnd n)"

definition std_table :: "endpoint \<Rightarrow> endpoint \<Rightarrow> (int \<rightharpoonup> endpoint)" where
  "std_table i out = [0 \<mapsto> i, 1 \<mapsto> out, 2 \<mapsto> Inherited 2]"

definition pipes_ok :: "kern \<Rightarrow> nat \<Rightarrow> bool" where
  "pipes_ok k n \<longleftrightarrow> (\<forall>i. 0 < i \<longrightarrow> i < n \<longrightarrow> k_fork k i \<and> (\<exists>r w. k_pipe k i = Some (r, w) \<and> 2 < r \<and> 2 < w \<and> r \<noteq> w))"

lemma fold_do_call_wire:
  assumes "2 < r" and "2 < w" and "r \<noteq> w"
  shows "fold do_call [Pipe n r w, Dup2 r 0, Close r, Close w] (std_table i out) = std_table (ReadEnd n) out"
    and "fold do_call [Pipe n r w, Dup2 w 1, Close r, Close w] (std_table i out) = std_table i (WriteEnd n)"
  using assms by (auto simp: std_table_def fun_eq_iff)

lemma exec_recur_wired:
  assumes "pipes_ok k (Suc cur)"
    and "fold do_call pre t = std_table (Inherited 0) out"
  shows "length (exec_recur k js pre cur) = Suc cur \<and>
    (\<forall>i\<le>cur. let p = exec_recur k js pre cur ! (cur - i) in
       snd p = snd (exec_nth k js i) \<and>
       fold do_call (fst p) t = fold do_call (fst (exec_nth k js i))
         (std_table (if i = 0 then Inherited 0 else ReadEnd i) (if i = cur then out else WriteEnd (Suc i))))"
  using assms
proof (induction cur arbitrary: pre out)
  case 0
  then show ?case by (simp add: after_calls_def)
next
  case (Suc cur)
  obtain r w where rw: "k_pipe k (Suc cur) = Some (r, w)" "2 < r" "2 < w" "r \<noteq> w" and fk: "k_fork k (Suc cur)"
    using Suc.prems(1) unfolding pipes_ok_def by (metis lessI zero_less_Suc)
  let ?child = "pre @ [Pipe (Suc cur) r w, Dup2 w 1, Close r, Close w]"
  have eq: "exec_recur k js pre (Suc cur) =
      after_calls (pre @ [Pipe (Suc cur) r w, Dup2 r 0, Close r, Close w]) (exec_nth k js (Suc cur)) #
      exec_recur k js ?child cur"
    using rw fk by (simp add: Let_def)
  have "pipes_ok k (Suc cur)" using Suc.prems(1) by (auto simp: pipes_ok_def)
  moreover have "fold do_call ?child t = std_table (Inherited 0) (WriteEnd (Suc cur))"
    using Suc.prems(2) fold_do_call_wire(2) [OF rw(2-4), of "Suc cur" "Inherited 0" out] by simp
  ultimately have IH: "length (exec_recur k js ?child cur) = Suc cur \<and>
    (\<forall>i\<le>cur. let p = exec_recur k js ?child cur ! (cur - i) in
       snd p = snd (exec_nth k js i) \<and>
       fold do_call (fst p) t = fold do_call (fst (exec_nth k js i))
         (std_table (if i = 0 then Inherited 0 else ReadEnd i) (if i = cur then WriteEnd (Suc cur) else WriteEnd (Suc i))))"
    by (rule Suc.IH)
  show ?case
    unfolding eq
  proof (intro conjI allI impI)
    show "length (after_calls (pre @ [Pipe (Suc cur) r w, Dup2 r 0, Close r, Close w]) (exec_nth k js (Suc cur)) #
        exec_recur k js ?child cur) = Suc (Suc cur)"
      using IH by simp
    fix i
    assume "i \<le> Suc cur"
    then consider "i = Suc cur" | "i \<le> cur" by linarith
    then show "let p = (after_calls (pre @ [Pipe (Suc cur) r w, Dup2 r 0, Close r, Close w]) (exec_nth k js (Suc cur)) #
          exec_recur k js ?child cur) ! (Suc cur - i) in
        snd p = snd (exec_nth k js i) \<and>
        fold do_call (fst p) t = fold do_call (fst (exec_nth k js i))
          (std_table (if i = 0 then Inherited 0 else ReadEnd i) (if i = Suc cur then out else WriteEnd (Suc i)))"
    proof cases
      case 1
      then show ?thesis
        using Suc.prems(2) fold_do_call_wire(1) [OF rw(2-4), of "Suc cur" "Inherited 0" out]
        by (simp add: after_calls_def)
    next
      case 2
      then have "Suc cur - i = Suc (cur - i)" by simp
      then show ?thesis using IH 2 by (auto simp: Let_def)
    qed
  qed
qed

section \<open>Properties\<close>

text \<open>
  C22: parsing undoes typing. Take up to four well-formed jobs (fewer than 64 arguments each, redirections
  behind the arguments) and any line whose words, separated by any blanks and with or without blanks at its
  ends, are those of the jobs joined by \<open>|\<close>. When the words fit the buffer of 3545 bytes, the tokenizer
  returns exactly these jobs in order, the other entries empty.
\<close>

theorem scan_parses_line:
  assumes "js \<noteq> []" and "length js \<le> 4" and "\<forall>j\<in>set js. valid_job j"
    and "words s = line_tokens js" and "room (line_tokens js) \<le> job_buf"
  shows "\<exists>st. scan s start_parser = Inr st \<and>
    jobs st = js @ replicate (4 - length js) no_job \<and> cur_job st + 1 = length js"
  using scan_jobs [OF assms] assms(1) by (fastforce simp: pad_def)

theorem scan_parses_line_witness:
  "\<exists>st. scan (bytes '' cat < in  | wc > out'') start_parser = Inr st \<and>
     jobs st = [no_job\<lparr>exe := Some (bytes ''cat''), argv := [bytes ''cat''], stdin_fo := Some (bytes ''in'')\<rparr>,
       no_job\<lparr>exe := Some (bytes ''wc''), argv := [bytes ''wc''], stdout_fo := Some (bytes ''out'')\<rparr>, no_job, no_job] \<and>
     cur_job st + 1 = 2"
proof -
  let ?js = "[no_job\<lparr>exe := Some (bytes ''cat''), argv := [bytes ''cat''], stdin_fo := Some (bytes ''in'')\<rparr>,
    no_job\<lparr>exe := Some (bytes ''wc''), argv := [bytes ''wc''], stdout_fo := Some (bytes ''out'')\<rparr>]"
  have v: "\<forall>j\<in>set ?js. valid_job j"
    by code_simp
  have l: "words (bytes '' cat < in  | wc > out'') = line_tokens ?js"
    by code_simp
  have n: "room (line_tokens ?js) \<le> job_buf"
    by code_simp
  have r: "replicate (4 - length ?js) no_job = [no_job, no_job]"
    by code_simp
  from scan_parses_line [OF _ _ v l n] show ?thesis unfolding r by simp
qed

text \<open>
  C21: a pipeline is wired as it is written. When the pipes and forks succeed, the launcher starts one
  process per job; before its own redirections, job \<open>i\<close> reads the pipe from job \<open>i - 1\<close> (the first one the
  shell's input) and writes the pipe to job \<open>i + 1\<close> (the last one the shell's output), keeps the error
  output, and holds no other descriptor.
\<close>

theorem pipeline_wired:
  assumes "k_fork0 k" and "pipes_ok k n" and "0 < n" and "n \<le> length js" and "i < n"
  shows "\<exists>ps. exec_job k js n = (k_wait k, ps) \<and> length ps = n \<and>
    snd (ps ! (n - 1 - i)) = snd (exec_single k (js ! i)) \<and>
    fold do_call (fst (ps ! (n - 1 - i))) (std_table (Inherited 0) (Inherited 1)) =
      fold do_call (fst (exec_single k (js ! i)))
        (std_table (if i = 0 then Inherited 0 else ReadEnd i) (if i = n - 1 then Inherited 1 else WriteEnd (i + 1)))"
proof -
  obtain c where c: "n = Suc c" using assms(3) by (cases n) auto
  have "fold do_call [] (std_table (Inherited 0) (Inherited 1)) = std_table (Inherited 0) (Inherited 1)" by simp
  from exec_recur_wired [OF assms(2) [unfolded c] this, of js]
  have "length (exec_recur k js [] c) = n" "let p = exec_recur k js [] c ! (c - i) in
       snd p = snd (exec_nth k js i) \<and>
       fold do_call (fst p) (std_table (Inherited 0) (Inherited 1)) = fold do_call (fst (exec_nth k js i))
         (std_table (if i = 0 then Inherited 0 else ReadEnd i) (if i = c then Inherited 1 else WriteEnd (Suc i)))"
    using assms(5) by (simp_all add: c)
  then show ?thesis
    using assms(1,4,5) by (simp add: exec_job_def c Let_def exec_nth_def)
qed

definition demo_kern :: kern where
  "demo_kern = \<lparr>k_open = (\<lambda>_ _. 3), k_exec = (\<lambda>p. p = bytes ''/bin/wc'' \<or> p = bytes ''/bin/cat''),
     k_pipe = (\<lambda>_. Some (3, 4)), k_fork = (\<lambda>_. True), k_fork0 = True, k_wait = 0,
     k_chdir = (\<lambda>_. 0), k_pid = 7\<rparr>"

definition demo_job :: "string \<Rightarrow> job" where
  "demo_job s = no_job\<lparr>exe := Some (bytes s), argv := [bytes s]\<rparr>"

theorem pipeline_wired_witness:
  "\<exists>ps. exec_job demo_kern [demo_job ''cat'', demo_job ''wc''] 2 = (0, ps) \<and> length ps = 2 \<and>
     snd (ps ! 0) = Runs (bytes ''/bin/wc'') [bytes ''wc''] \<and>
     fold do_call (fst (ps ! 0)) (std_table (Inherited 0) (Inherited 1)) = std_table (ReadEnd 1) (Inherited 1)"
proof -
  have "pipes_ok demo_kern 2" by (simp add: pipes_ok_def demo_kern_def)
  moreover have "exec_single demo_kern (demo_job ''wc'') = ([], Runs (bytes ''/bin/wc'') [bytes ''wc''])"
    by (simp add: exec_single_def demo_kern_def demo_job_def no_job_def redirect_def argv_end_def Execve_def
        exec_dirs_def bytes_def path_buf_def)
  ultimately show ?thesis
    using pipeline_wired [of demo_kern 2 "[demo_job ''cat'', demo_job ''wc'']" 1]
    by (auto simp: demo_kern_def)
qed

text \<open>
  where a program is looked for. For a name of at most 112 bytes the launcher runs the first of the
  name itself, \<open>/name\<close>, \<open>/bin/name\<close>, \<open>/usr/bin/name\<close> and \<open>/usr/local/bin/name\<close> that can be executed, with the
  job's arguments; when there is none it runs off the end of a function declared to never return. A job
  without a command dereferences a null pointer.
\<close>

theorem Execve_search:
  assumes "length p \<le> 112"
  shows "Execve k (Some p) av =
      (case find (k_exec k) (p # map (\<lambda>d. d @ p) exec_dirs) of Some q \<Rightarrow> Runs q av | None \<Rightarrow> FallsThrough) \<and>
    Execve k None av = Faults NullDeref"
  using assms by (simp add: Execve_def exec_dirs_def path_buf_def bytes_def)

theorem Execve_search_witness:
  "Execve demo_kern (Some (bytes ''wc'')) [bytes ''wc''] = Runs (bytes ''/bin/wc'') [bytes ''wc''] \<and>
   Execve demo_kern (Some (bytes ''ls'')) [bytes ''ls''] = FallsThrough"
  using Execve_search [of "bytes ''wc''" demo_kern "[bytes ''wc'']"] Execve_search [of "bytes ''ls''" demo_kern "[bytes ''ls'']"]
  by (simp add: demo_kern_def exec_dirs_def bytes_def)

text \<open>
  An empty command crashes the shell. A line that is blank up to its end or to a separator makes the
  parser return no program name, and comparing it with the built-in names dereferences a null pointer;
  so does a line that ends with a separator, after its commands have run.
\<close>

theorem empty_command_crashes:
  assumes "cmd \<noteq> []" and "\<forall>c\<in>set (takeWhile (\<lambda>c. \<not> sh_contains eoc c) cmd). sh_contains whitespace c"
  shows "system k cmd sh = Inl NullDeref"
proof -
  let ?w = "takeWhile (\<lambda>c. \<not> sh_contains eoc c) cmd"
  have "scan s st = Inr st" if "\<forall>c\<in>set s. sh_contains whitespace c" for s st
    using that by (induction s) (simp_all add: scan_blank)
  then have "scan ?w start_parser = Inr start_parser" using assms(2) by blast
  moreover have "take (length ?w) cmd = ?w" by (metis takeWhile_eq_take)
  ultimately have "system_single k cmd (length ?w) sh = Inl NullDeref"
    using assms(1) by (simp add: system_single_def run_command_def start_parser_def no_job_def)
  then show ?thesis using assms(1) by (simp add: system.simps [of k cmd] Let_def)
qed

definition demo_shell :: shell where
  "demo_shell = \<lparr>writes = [], started = [], exited = None, pbuf = blank 2048\<rparr>"

theorem empty_command_crashes_witness:
  "system demo_kern [10] demo_shell = Inl NullDeref \<and> system demo_kern (bytes '' ;'' @ [10]) demo_shell = Inl NullDeref"
  using empty_command_crashes [of "[10]" demo_kern demo_shell]
    empty_command_crashes [of "bytes '' ;'' @ [10]" demo_kern demo_shell]
  by (simp add: sh_contains_def eoc_def whitespace_def bytes_def)

text \<open>
  C23: a session. On line-wise input whose lines are typed pipelines of one to four programs (words separated
  by any blanks, fewer than 2047 characters; so no empty line, no built-in first, no \<open>;\<close> or \<open>&\<close>), the shell
  starts the processes of every line in order, prompts before each line and once more at the end, and stops
  at the end of the input; a fuel above the number of lines is enough.
\<close>

theorem sh_session:
  assumes "list_all2 typed_line jss ls" and "line_wise (fresh_reader, inp)"
    and "concat inp = unlines ls" and "length ls < fuel"
  shows "\<exists>sh. sh_main k fuel inp = Inr sh \<and> exited sh = None \<and>
    started sh = map (\<lambda>js. snd (exec_job k (js @ replicate (4 - length js) no_job) (length js))) jss \<and>
    writes sh = replicate (Suc (length ls)) (1, bytes ''(yrd) '')"
proof -
  let ?sh = "\<lparr>writes = [(1, bytes ''(yrd) '')], started = [], exited = None, pbuf = blank 2048\<rparr> :: shell"
  have "sh_main k fuel inp = run_lines (sh_round k) ls ?sh"
    unfolding sh_main_def
  proof (rule tty.line_loop_lines [where P = "\<lambda>_. True" and I = "\<lambda>_. True" and k = 2048])
    show "sh_line k m w = sh_round k (l @ [10]) w" if "cstring m 0 (l @ [10])" for m l w
      using cstr_at_cstring [OF that] by (simp add: sh_line_def)
    show "stream (fresh_reader, inp) = unlines ls"
      using assms(3) by (simp add: stream_def fresh_reader_inv)
    show "\<forall>l\<in>set ls. 10 \<notin> set l \<and> length l + 1 < 2048 \<and> True"
      using assms(1) by (auto simp: list_all2_conv_all_nth in_set_conv_nth typed_line_def)
  qed (use assms in \<open>auto simp: blank_def\<close>)
  then show ?thesis
    using sh_lines [OF assms(1), of ?sh k] list_all2_lengthD [OF assms(1)] by (simp add: sh_prompt_def pad_def)
qed

theorem sh_session_witness:
  "\<exists>sh. sh_main demo_kern 3 [bytes ''cat | wc'' @ [10], bytes ''wc'' @ [10]] = Inr sh \<and> length (started sh) = 2 \<and>
     started sh ! 1 = [([], Runs (bytes ''/bin/wc'') [bytes ''wc''])]"
proof -
  let ?jss = "[[demo_job ''cat'', demo_job ''wc''], [demo_job ''wc'']]" and ?ls = "[bytes ''cat | wc'', bytes ''wc'']"
  have l: "list_all2 typed_line ?jss ?ls"
    by code_simp
  have i: "line_wise (fresh_reader, [bytes ''cat | wc'' @ [10], bytes ''wc'' @ [10]])"
    by (simp add: line_wise_def fresh_reader_inv bytes_def BUFSIZE_def)
  have u: "concat [bytes ''cat | wc'' @ [10], bytes ''wc'' @ [10]] = unlines ?ls"
    by (simp add: unlines_def)
  have "snd (exec_job demo_kern [demo_job ''wc'', no_job, no_job, no_job] 1) = [([], Runs (bytes ''/bin/wc'') [bytes ''wc''])]"
    by (simp add: exec_job_def demo_kern_def demo_job_def no_job_def exec_nth_def exec_single_def redirect_def argv_end_def
        Execve_def exec_dirs_def bytes_def path_buf_def after_calls_def)
  then show ?thesis
    using sh_session [OF l i u, of 3 demo_kern] by (auto simp: numeral_3_eq_3)
qed

end
