(* ===== verification/Wc.thy ===== *)
theory Wc
  imports Reader
begin

text \<open>
  The word counter \<open>tlibc/wc.c\<close>. The results of the successive reads are a parameter: \<open>None\<close> is a
  failed read, an empty list end of file. Characters are signed, so a byte above 0x7f indexes the
  table below its start, which is a fault.
\<close>

section \<open>The program\<close>

definition wc_BUFSZ :: nat where
  "wc_BUFSZ = 4096"

definition wc_misc :: "u8 list" where
  "wc_misc = bytes ''~`!@#$%^&*()-_[]{}'' @ [0x22, 0x27, 0x27] @ bytes '':<>,.'' @ [0x5c] @ bytes ''/?''"

definition chtype :: "u8 list" where
  "chtype =
     (let t = replicate 256 0;
          t = fold (\<lambda>i t. t[i := 1]) [0x61..<0x7b] t;
          t = fold (\<lambda>i t. t[i := 1]) [0x41..<0x5b] t;
          t = fold (\<lambda>i t. t[i := 1]) [0x30..<0x3a] t
      in fold (\<lambda>c t. t[unat c := 1]) wc_misc t)"

definition in_word :: "u8 \<Rightarrow> bool res" where
  "in_word c = (if sint c < 0 then Inl WildAccess else Inr (chtype ! unat c \<noteq> 0))"

record wc_state =
  nbyte :: u32
  nword :: u32
  nline :: u32
  white :: bool
  ended :: bool

definition wc_char :: "u8 \<Rightarrow> wc_state \<Rightarrow> wc_state res" where
  "wc_char c st =
     (let st = (if c = 0x0a then st\<lparr>nline := nline st + 1, ended := True\<rparr> else st) in
      bindE (in_word c) (\<lambda>w.
        if white st then Inr (if w then st\<lparr>white := False, nword := nword st + 1\<rparr> else st)
        else Inr (if \<not> w then st\<lparr>white := True\<rparr> else st)))"

type_synonym reads = "u8 list option list"

fun next_read :: "nat \<Rightarrow> reads \<Rightarrow> u8 list option \<times> reads" where
  "next_read n [] = (Some [], [])"
| "next_read n (None # r) = (None, r)"
| "next_read n (Some bs # r) = (Some (take n bs), if length bs \<le> n then r else Some (drop n bs) # r)"

definition pending_bytes :: "reads \<Rightarrow> nat" where
  "pending_bytes r = sum_list (map (\<lambda>c. case c of None \<Rightarrow> 1 | Some bs \<Rightarrow> Suc (length bs)) r)"

function wc_while :: "u8 list option \<Rightarrow> reads \<Rightarrow> wc_state \<Rightarrow> wc_state res" where
  "wc_while nread r st =
     (case nread of None \<Rightarrow> Inr st
      | Some bs \<Rightarrow>
        if bs = [] then Inr st
        else
          bindE (foldE wc_char bs st) (\<lambda>st.
            let st = st\<lparr>nbyte := nbyte st + of_nat (length bs)\<rparr>; (nread, r) = next_read wc_BUFSZ r in
            wc_while nread r st))"
  by pat_completeness auto
termination
proof (relation "measure (\<lambda>(nread, r, st). (case nread of None \<Rightarrow> 0 | Some bs \<Rightarrow> length bs) + pending_bytes r)")
  fix nread :: "u8 list option" and r r' :: reads and st st1 st2 :: wc_state and bs and p and nread'
  assume s: "nread = Some bs" "bs \<noteq> []" and p: "p = next_read wc_BUFSZ r" "(nread', r') = p"
  have "(case nread' of None \<Rightarrow> 0 | Some bs \<Rightarrow> length bs) + pending_bytes r' \<le> pending_bytes r"
    using p by (cases "(wc_BUFSZ, r)" rule: next_read.cases) (auto simp: pending_bytes_def split: if_splits)
  then show "((nread', r', st2), nread, r, st)
      \<in> measure (\<lambda>(nread, r, st). (case nread of None \<Rightarrow> 0 | Some bs \<Rightarrow> length bs) + pending_bytes r)"
    using s by (simp add: less_le_trans add_increasing) (meson length_greater_0_conv le_less_trans less_add_same_cancel2)
qed simp

declare wc_while.simps [simp del]

definition wc_format :: "u8 list" where
  "wc_format = [0x09] @ bytes ''%u'' @ [0x09] @ bytes ''%u'' @ [0x09] @ bytes ''%u'' @ [0x0a]"

text \<open>The exit code and what is written to descriptor 1; the buffer is that of \<open>Printf\<close>.\<close>

definition wc :: "reads \<Rightarrow> mem \<Rightarrow> (int \<times> u8 list) res" where
  "wc r pbuf =
     (case next_read wc_BUFSZ r of
        (None, r) \<Rightarrow> Inr (1, [])
      | (Some bs, r) \<Rightarrow>
        bindE (wc_while (Some bs) r \<lparr>nbyte = 0, nword = 0, nline = 0, white = True, ended = (bs = [])\<rparr>) (\<lambda>st.
          let st = (if \<not> ended st then st\<lparr>nline := nline st + 1\<rparr> else st) in
          bindE (Printf wc_format [VInt (nline st), VInt (nword st), VInt (nbyte st)] pbuf) (\<lambda>(_, out, _).
          Inr (0, out))))"

text \<open>\<open>main\<close>: \<open>opened\<close> gives the reads of a path, or nothing when it does not open.\<close>

definition wc_main :: "(u8 list \<Rightarrow> reads option) \<Rightarrow> reads \<Rightarrow> u8 list list \<Rightarrow> (int \<times> u8 list) res" where
  "wc_main opened stdin argv =
     (case (if length argv < 2 then Some stdin else opened (argv ! 1)) of
        None \<Rightarrow> Inr (1, bytes ''Invalid fd.'' @ [0x0a])
      | Some r \<Rightarrow> wc r (blank 2048))"

section \<open>What is counted\<close>

text \<open>
  The characters that make up words: the printable ASCII characters other than the blank, without the
  four that the table of the program leaves out: plus, equals, bar and semicolon.
\<close>

definition left_out :: "u8 list" where
  "left_out = bytes ''+=|;''"

definition graph :: "u8 \<Rightarrow> bool" where
  "graph c \<longleftrightarrow> 0x20 < c \<and> c < 0x7f \<and> c \<notin> set left_out"

lemma chtype_graph: "0 \<le> sint c \<Longrightarrow> chtype ! unat c \<noteq> 0 \<longleftrightarrow> graph c"
proof -
  have "list_all2 (\<lambda>t n. 0 \<le> sint (of_nat n :: u8) \<longrightarrow> (t \<noteq> 0) = graph (of_nat n)) chtype [0..<256]"
    by code_simp
  moreover have "unat c < 256" using unsigned_less [of c, where 'a = nat] by simp
  ultimately have "0 \<le> sint (of_nat (unat c) :: u8) \<longrightarrow> (chtype ! unat c \<noteq> 0) = graph (of_nat (unat c))"
    by (auto dest: list_all2_nthD2)
  then show "0 \<le> sint c \<Longrightarrow> ?thesis" by simp
qed

text \<open>The words of a text: its maximal runs of such characters.\<close>

function word_list :: "u8 list \<Rightarrow> u8 list list" where
  "word_list [] = []"
| "word_list (c # cs) = (if graph c then (c # takeWhile graph cs) # word_list (dropWhile graph cs) else word_list cs)"
  by pat_completeness auto
termination
  by (relation "measure length") (auto simp: le_imp_less_Suc length_dropWhile_le)

definition words_from :: "bool \<Rightarrow> u8 list \<Rightarrow> nat" where
  "words_from w bs = length (word_list (if w then bs else dropWhile graph bs))"

lemma words_from_simps [simp]:
  "words_from w [] = 0"
  "words_from True (c # bs) = (if graph c then Suc (words_from False bs) else words_from True bs)"
  "words_from False (c # bs) = words_from (\<not> graph c) bs"
  by (simp_all add: words_from_def)

text \<open>The state after a text, in terms of it.\<close>

definition after :: "u8 list \<Rightarrow> wc_state \<Rightarrow> wc_state" where
  "after bs st = st\<lparr>nword := nword st + of_nat (words_from (white st) bs),
     nline := nline st + of_nat (count_list bs 0x0a),
     white := (if bs = [] then white st else \<not> graph (last bs)), ended := (ended st \<or> 0x0a \<in> set bs)\<rparr>"

definition ascii :: "u8 list \<Rightarrow> bool" where
  "ascii bs \<longleftrightarrow> (\<forall>c\<in>set bs. 0 \<le> sint c)"

lemma ascii_append [simp]: "ascii (xs @ ys) \<longleftrightarrow> ascii xs \<and> ascii ys"
  by (auto simp: ascii_def)

lemma wc_char_after: "0 \<le> sint c \<Longrightarrow> wc_char c st = Inr (after [c] st)"
  by (cases "white st") (auto simp: wc_char_def in_word_def chtype_graph after_def Let_def)

lemma after_Cons: "after (c # bs) st = after bs (after [c] st)"
  by (cases "white st") (auto simp: after_def)

lemma after_append: "after (xs @ ys) st = after ys (after xs st)"
proof (induction xs arbitrary: st)
  case Nil
  then show ?case by (cases st) (simp add: after_def)
next
  case (Cons c xs)
  then show ?case using after_Cons [of c "xs @ ys"] after_Cons [of c xs] by simp
qed

lemma foldE_wc_char: "ascii bs \<Longrightarrow> foldE wc_char bs st = Inr (after bs st)"
proof (induction bs arbitrary: st)
  case Nil
  then show ?case by (cases st) (simp add: after_def)
next
  case (Cons c bs)
  then show ?case by (simp add: ascii_def wc_char_after after_Cons [of c bs])
qed

lemma after_nbyte: "after bs (st\<lparr>nbyte := n\<rparr>) = (after bs st)\<lparr>nbyte := n\<rparr>" "nbyte (after bs st) = nbyte st"
  by (simp_all add: after_def)

section \<open>Reading in pieces\<close>

definition steady :: "reads \<Rightarrow> bool" where
  "steady r \<longleftrightarrow> (\<forall>c\<in>set r. \<exists>bs. c = Some bs \<and> bs \<noteq> [])"

definition contents :: "reads \<Rightarrow> u8 list" where
  "contents r = concat (map the r)"

lemma next_read_steady:
  assumes "steady r" and "0 < n"
  shows "\<exists>bs r'. next_read n r = (Some bs, r') \<and> steady r' \<and> contents r = bs @ contents r' \<and> (bs = [] \<longleftrightarrow> contents r = [])"
proof (cases r)
  case Nil
  then show ?thesis by (simp add: steady_def contents_def)
next
  case (Cons c r1)
  then obtain bs where "c = Some bs" "bs \<noteq> []" using assms(1) by (auto simp: steady_def)
  then show ?thesis using assms Cons by (auto simp: steady_def contents_def)
qed

lemma wc_while_counts:
  "steady r \<Longrightarrow> ascii (bs @ contents r) \<Longrightarrow> (bs = [] \<Longrightarrow> contents r = []) \<Longrightarrow>
   wc_while (Some bs) r st =
     Inr ((after (bs @ contents r) st)\<lparr>nbyte := nbyte st + of_nat (length (bs @ contents r))\<rparr>)"
proof (induction "length (bs @ contents r)" arbitrary: bs r st rule: less_induct)
  case less
  show ?case
  proof (cases "bs = []")
    case True
    then show ?thesis using less.prems(3) by (cases st) (simp add: wc_while.simps [of "Some []"] after_def)
  next
    case False
    obtain cs r' where n: "next_read wc_BUFSZ r = (Some cs, r')" "steady r'" "contents r = cs @ contents r'"
        "cs = [] \<longleftrightarrow> contents r = []"
      using next_read_steady [OF less.prems(1), of wc_BUFSZ] by (auto simp: wc_BUFSZ_def)
    let ?st = "(after bs st)\<lparr>nbyte := nbyte st + of_nat (length bs)\<rparr>"
    have "wc_while (Some bs) r st = wc_while (Some cs) r' ?st"
      using False less.prems(2) n(1)
      by (simp add: wc_while.simps [of "Some bs"] foldE_wc_char after_nbyte)
    also have "\<dots> = Inr ((after (cs @ contents r') ?st)\<lparr>nbyte := nbyte ?st + of_nat (length (cs @ contents r'))\<rparr>)"
    proof (rule less.hyps)
      show "length (cs @ contents r') < length (bs @ contents r)" using False by (simp flip: n(3))
      show "ascii (cs @ contents r')" using less.prems(2) by (simp flip: n(3))
      show "cs = [] \<Longrightarrow> contents r' = []" using n(3,4) by (metis append_Nil)
    qed (rule n(2))
    also have "\<dots> = Inr ((after (bs @ contents r) st)\<lparr>nbyte := nbyte st + of_nat (length (bs @ contents r))\<rparr>)"
      unfolding n(3) [symmetric] after_append after_nbyte by simp
    finally show ?thesis .
  qed
qed

definition wc_text :: "nat \<Rightarrow> nat \<Rightarrow> nat \<Rightarrow> u8 list" where
  "wc_text l w n = [0x09] @ uint_text (of_nat l) @ [0x09] @ uint_text (of_nat w) @ [0x09] @ uint_text (of_nat n) @ [0x0a]"

lemma length_uint_text: "length (uint_text v) \<le> 16"
  using decimal.radix_length [of "unat v" 16] unat32_bound(1) [of v] by (simp add: uint_text_def)

lemma Printf_counts:
  "Printf wc_format [VInt (of_nat l), VInt (of_nat w), VInt (of_nat n)] (blank 2048) =
     Inr (length (wc_text l w n), wc_text l w n, poke (blank 2048) 0 (wc_text l w n @ [0]))"
proof -
  have "format_out wc_format [VInt (of_nat l), VInt (of_nat w), VInt (of_nat n)] = Some (wc_text l w n)"
    by (simp add: wc_format_def wc_text_def format_simps)
  moreover have "length (wc_text l w n) < 2048"
    using length_uint_text [of "of_nat l"] length_uint_text [of "of_nat w"] length_uint_text [of "of_nat n"]
    by (simp add: wc_text_def)
  ultimately show ?thesis by (simp add: Printf_text blank_def)
qed

section \<open>Properties\<close>

text \<open>
  C37: wc counts. For ASCII input, however it is cut into reads, wc prints the number of newline
  characters (1 for a text without any), the number of words and the number of bytes, each modulo
  2 ^ 32, and exits with 0. Words are maximal runs of printable characters other than blanks and the
  four signs plus, equals, bar and semicolon. Bytes above 0x7f are outside: the program reads before
  its table there.
\<close>

theorem wc_main_counts:
  fixes r :: reads
  defines "t \<equiv> contents r"
  assumes "(if length argv < 2 then Some stdin else opened (argv ! 1)) = Some r" and "steady r" and "ascii t"
  shows "wc_main opened stdin argv =
    Inr (0, wc_text (if t \<noteq> [] \<and> 0x0a \<notin> set t then 1 else count_list t 0x0a) (length (word_list t)) (length t))"
proof -
  obtain bs r' where n: "next_read wc_BUFSZ r = (Some bs, r')" "steady r'" "t = bs @ contents r'" "bs = [] \<longleftrightarrow> t = []"
    using next_read_steady [OF assms(3), of wc_BUFSZ] unfolding t_def by (auto simp: wc_BUFSZ_def)
  have e: "bs = [] \<Longrightarrow> contents r' = []" using n(3,4) by (metis append_Nil)
  let ?st = "\<lparr>nbyte = 0, nword = 0, nline = 0, white = True, ended = (bs = [])\<rparr>"
  have run: "wc_while (Some bs) r' ?st = Inr ((after t ?st)\<lparr>nbyte := of_nat (length t)\<rparr>)"
    using wc_while_counts [OF n(2), of bs ?st] assms(4) e unfolding n(3) [symmetric] by simp
  let ?L = "if t \<noteq> [] \<and> 0x0a \<notin> set t then 1 else count_list t 0x0a"
  let ?s = "(after t ?st)\<lparr>nbyte := of_nat (length t)\<rparr>"
  let ?f = "if \<not> ended ?s then ?s\<lparr>nline := nline ?s + 1\<rparr> else ?s"
  have "count_list t 0x0a = 0" if "0x0a \<notin> set t"
    using that by (simp add: count_list_0_iff)
  then have f: "nline ?f = of_nat ?L" "nword ?f = of_nat (length (word_list t))" "nbyte ?f = of_nat (length t)"
    unfolding n(4) by (cases "t = []"; cases "0x0a \<in> set t"; simp add: after_def words_from_def)+
  have "wc r (blank 2048) = bindE (Printf wc_format [VInt (nline ?f), VInt (nword ?f), VInt (nbyte ?f)] (blank 2048))
      (\<lambda>(_, out, _). Inr (0, out))"
    unfolding wc_def n(1) prod.case option.case run bindE_Inr Let_def ..
  then show ?thesis
    using assms(2) unfolding f Printf_counts by (simp add: wc_main_def)
qed

theorem wc_main_counts_witness:
  "wc_main (\<lambda>_. None) [Some (bytes ''ab c''), Some [0x64, 0x0a, 0x65]] [bytes ''wc''] =
     Inr (0, [0x09, 0x31, 0x09, 0x33, 0x09, 0x37, 0x0a])"
proof -
  have t: "contents [Some (bytes ''ab c''), Some [0x64, 0x0a, 0x65]] = [0x61, 0x62, 0x20, 0x63, 0x64, 0x0a, 0x65]"
    by (simp add: contents_def bytes_def)
  have "ascii [0x61, 0x62, 0x20, 0x63, 0x64, 0x0a, 0x65]" "steady [Some (bytes ''ab c''), Some [0x64, 0x0a, 0x65]]"
    by (simp_all add: ascii_def steady_def bytes_def)
  moreover have "length (word_list [0x61, 0x62, 0x20, 0x63, 0x64, 0x0a, 0x65]) = 3"
    by code_simp
  moreover have "wc_text 1 3 (length [0x61, 0x62, 0x20, 0x63, 0x64, 0x0a, 0x65 :: u8]) = [0x09, 0x31, 0x09, 0x33, 0x09, 0x37, 0x0a]"
    by code_simp
  ultimately show ?thesis
    using wc_main_counts [of "[bytes ''wc'']" "[Some (bytes ''ab c''), Some [0x64, 0x0a, 0x65]]" "\<lambda>_. None"
        "[Some (bytes ''ab c''), Some [0x64, 0x0a, 0x65]]"]
    by (simp add: t del: word_list.simps)
qed

end
