(* ===== verification/Utils.thy ===== *)
theory Utils
  imports Shell Wc Endian
begin

text \<open>
  The small programs of tlibc: \<open>mkdir\<close>, \<open>ls\<close>, \<open>kill\<close>, \<open>seq\<close>, \<open>cat\<close>, \<open>stat\<close>, \<open>echo\<close>, \<open>env\<close>,
  \<open>pwd\<close>, \<open>link\<close>, \<open>sleep\<close>, \<open>yes\<close>, \<open>crash\<close> and \<open>pause\<close>. A run gives the exit code and the writes, each with
  its descriptor; what the kernel answers is a parameter. Arguments include the program's name.
\<close>

unbundle bit_operations_syntax

section \<open>mkdir\<close>

record 'w dir_ops =
  d_open :: "u8 list \<Rightarrow> 'w \<Rightarrow> bool"
  d_mkdir :: "u8 list \<Rightarrow> u32 \<Rightarrow> 'w \<Rightarrow> u32 \<times> 'w"

text \<open>Open the path in the buffer and create it when that fails; results are collected with a bitwise or.\<close>

definition mkdir_level :: "'w dir_ops \<Rightarrow> mem \<Rightarrow> u32 \<Rightarrow> 'w \<Rightarrow> (u32 \<times> 'w) res" where
  "mkdir_level ops buf ret w =
     bindE (cstr_at buf 0) (\<lambda>path.
       if d_open ops path w then Inr (ret, w)
       else let (r, w) = d_mkdir ops path 0x1ff w in Inr (ret OR r, w))"

fun mkdir_loop :: "'w dir_ops \<Rightarrow> u8 list \<Rightarrow> nat \<Rightarrow> mem \<Rightarrow> bool \<Rightarrow> u32 \<Rightarrow> 'w \<Rightarrow> (mem \<times> bool \<times> u32 \<times> 'w) res" where
  "mkdir_loop ops [] i buf is_end ret w = Inr (buf, is_end, ret, w)"
| "mkdir_loop ops (c # dir) i buf is_end ret w =
     bindE (wr i [c] buf) (\<lambda>buf.
       if c = 0x2f then
         bindE (wr i [0] buf) (\<lambda>buf.
         bindE (mkdir_level ops buf ret w) (\<lambda>(ret, w).
         bindE (wr i [0x2f] buf) (\<lambda>buf. mkdir_loop ops dir (i + 1) buf True ret w)))
       else mkdir_loop ops dir (i + 1) buf False ret w)"

text \<open>The static buffer outlives the call.\<close>

definition mkdir :: "'w dir_ops \<Rightarrow> u8 list \<Rightarrow> mem \<Rightarrow> 'w \<Rightarrow> (u32 \<times> mem \<times> 'w) res" where
  "mkdir ops dir buf w =
     bindE (if dir \<noteq> [] \<and> hd dir = 0x2f
            then bindE (wr 0 [hd dir] buf) (\<lambda>buf. mkdir_loop ops (tl dir) 1 buf True 0 w)
            else mkdir_loop ops dir 0 buf True 0 w)
       (\<lambda>(buf, is_end, ret, w).
          bindE (if \<not> is_end then mkdir_level ops buf ret w else Inr (ret, w)) (\<lambda>(ret, w).
          Inr (if ret = 0 then 0 else 1, buf, w)))"

fun mkdir_args :: "'w dir_ops \<Rightarrow> u8 list list \<Rightarrow> mem \<Rightarrow> u32 \<Rightarrow> 'w \<Rightarrow> (u32 \<times> 'w) res" where
  "mkdir_args ops [] buf ret w = Inr (ret, w)"
| "mkdir_args ops (d # ds) buf ret w =
     bindE (mkdir ops d buf w) (\<lambda>(r, buf, w). mkdir_args ops ds buf (ret OR r) w)"

definition mkdir_main :: "'w dir_ops \<Rightarrow> u8 list list \<Rightarrow> 'w \<Rightarrow> (u32 \<times> (int \<times> u8 list) list \<times> 'w) res" where
  "mkdir_main ops av w =
     (if length av < 2 then Inr (1, [(2, bytes ''Usage mkdir <dir name>'' @ [0x0a, 0])], w)
      else bindE (mkdir_args ops (tl av) (blank 256) 0 w) (\<lambda>(ret, w). Inr (ret, [], w)))"

section \<open>ls\<close>

definition linux_dirent_layout :: layout where
  "linux_dirent_layout = [(''d_ino'', 8), (''d_off'', 8), (''d_reclen'', 2), (''d_name'', 0)]"

definition ftype :: "u8 list option list" where
  "ftype =
     (let t = replicate 13 None;
          t = t[2 := Some (bytes ''character device'')];
          t = t[6 := Some (bytes ''block device'')];
          t = t[4 := Some (bytes ''directory'')];
          t = t[1 := Some (bytes ''pipe'')];
          t = t[10 := Some (bytes ''symbolic link'')];
          t = t[8 := Some (bytes ''file'')];
          t = t[0 := Some (bytes ''???'')]
      in t[12 := Some (bytes ''domain socket'')])"

definition type_name :: "u8 \<Rightarrow> u8 list option res" where
  "type_name t =
     (if sint t < 0 \<or> length ftype \<le> unat t then Inl WildAccess
      else Inr (case ftype ! unat t of None \<Rightarrow> ftype ! 0 | Some n \<Rightarrow> Some n))"

text \<open>One record of the buffer; a record of length 0 would be visited for ever.\<close>

function ls_walk :: "mem \<Rightarrow> nat \<Rightarrow> nat \<Rightarrow> u8 list \<times> mem \<Rightarrow> (u8 list \<times> mem) res" where
  "ls_walk buf it nread op =
     (if it < nread then
        bindE (get_native Little linux_dirent_layout it ''d_reclen'' buf) (\<lambda>reclen :: u16.
        if reclen = 0 then Inl Diverge
        else
          bindE (load (it + unat reclen - 1) buf) (\<lambda>t.
          bindE (type_name t) (\<lambda>typename.
          bindE (cstr_at buf (it + offsetof linux_dirent_layout ''d_name'')) (\<lambda>filename.
          bindE (Printf (bytes ''%s %s'' @ [0x0a]) [VStr (Some filename), VStr typename] (snd op)) (\<lambda>(_, out, fb).
          ls_walk buf (it + unat reclen) nread (fst op @ out, fb))))))
      else Inr op)"
  by pat_completeness auto
termination
  by (relation "measure (\<lambda>(buf, it, nread, op). nread - it)") (auto simp: unat_gt_0 intro!: diff_less_mono2)

declare ls_walk.simps [simp del]

text \<open>The results of the successive \<open>getdents\<close> calls: \<open>None\<close> an error, else the bytes the kernel stores.\<close>

fun ls_loop :: "u8 list option list \<Rightarrow> mem \<Rightarrow> u8 list \<times> mem \<Rightarrow> (int \<times> u8 list) res" where
  "ls_loop [] buf op = Inr (0, fst op)"
| "ls_loop (None # r) buf op = Inr (1, fst op @ bytes ''<too long> ??'' @ [0x0a])"
| "ls_loop (Some bs # r) buf op =
     (if bs = [] then Inr (0, fst op)
      else bindE (wr 0 bs buf) (\<lambda>buf. bindE (ls_walk buf 0 (length bs) op) (ls_loop r buf)))"

definition ls_main :: "(u8 list \<Rightarrow> u8 list option list option) \<Rightarrow> u8 list list \<Rightarrow> (int \<times> (int \<times> u8 list) list) res" where
  "ls_main opened av =
     (case opened (if length av < 2 then bytes ''.'' else av ! 1) of
        None \<Rightarrow> Inr (1, [(2, bytes ''Bad file descriptor'' @ [0x0a, 0])])
      | Some r \<Rightarrow> bindE (ls_loop r (blank 32) ([], blank 2048)) (\<lambda>(code, out). Inr (code, [(1, out)])))"

section \<open>kill and seq\<close>

definition SIGKILL :: u32 where
  "SIGKILL = 9"

text \<open>The comparison \<open>kill.c\<close> has of its own.\<close>

fun kill_Strcmp :: "u8 list \<Rightarrow> u8 list \<Rightarrow> int" where
  "kill_Strcmp (a # s) (b # t) = (if a \<noteq> b then sint a - sint b else kill_Strcmp s t)"
| "kill_Strcmp (a # s) [] = sint a"
| "kill_Strcmp [] (b # t) = - sint b"
| "kill_Strcmp [] [] = 0"

text \<open>The process and signal numbers and whether help was asked for; \<open>-s\<close> as last argument reads a null pointer.\<close>

fun kill_args :: "u8 list list \<Rightarrow> u32 \<Rightarrow> u32 \<Rightarrow> bool \<Rightarrow> (u32 \<times> u32 \<times> bool) res" where
  "kill_args [] signo pid h = Inr (signo, pid, h)"
| "kill_args (a # as) signo pid h =
     (if kill_Strcmp a (bytes ''-h'') = 0 then kill_args as signo pid True
      else if kill_Strcmp a (bytes ''-s'') = 0 then
        (case as of [] \<Rightarrow> Inl NullDeref | n # as \<Rightarrow> kill_args as (atoi n) pid h)
      else kill_args as signo (atoi a) h)"

definition kill_help :: "u8 list" where
  "kill_help = bytes ''Usage: kill [-h] or kill [-s signo] pid'' @ [0x0a, 0]"

definition kill_main :: "(u32 \<Rightarrow> u32 \<Rightarrow> u32) \<Rightarrow> u8 list list \<Rightarrow> (u32 \<times> (int \<times> u8 list) list) res" where
  "kill_main sys_kill av =
     (if length av < 2 then Inr (1, [(2, kill_help)])
      else
        bindE (kill_args (tl av) SIGKILL (- 1) False) (\<lambda>(signo, pid, h).
        if h then Inr (0, [(1, kill_help)]) else Inr (sys_kill pid signo, [])))"

text \<open>The counter of \<open>seq\<close> is an \<open>int\<close>; incrementing its maximum is not defined in C.\<close>

function seq_loop :: "int \<Rightarrow> int \<Rightarrow> u8 list \<times> mem \<Rightarrow> (u8 list \<times> mem) res" where
  "seq_loop i lst op =
     (if i \<le> lst then
        bindE (Printf (bytes ''%d'' @ [0x0a]) [VInt (of_int i)] (snd op)) (\<lambda>(_, out, fb).
        if i = 2 ^ 31 - 1 then Inl Diverge else seq_loop (i + 1) lst (fst op @ out, fb))
      else Inr op)"
  by pat_completeness auto
termination
  by (relation "measure (\<lambda>(i, lst, op). nat (lst + 1 - i))") auto

declare seq_loop.simps [simp del]

definition seq_main :: "u8 list list \<Rightarrow> (int \<times> u8 list) res" where
  "seq_main av =
     (if length av = 2 then bindE (seq_loop 1 (sint (atoi (av ! 1))) ([], blank 2048)) (\<lambda>(out, _). Inr (0, out))
      else if length av = 3 then
        bindE (seq_loop (sint (atoi (av ! 1))) (sint (atoi (av ! 2))) ([], blank 2048)) (\<lambda>(out, _). Inr (0, out))
      else Inr (1, bytes ''usage: seq <first> <last> or seq <last>'' @ [0x0a]))"

section \<open>cat and stat\<close>

text \<open>
  \<open>cat\<close> without an argument copies read by read; with one it maps the file. What the kernel answers for
  a path: the size that \<open>lseek\<close> gives, and for a length, a protection and the flags of a mapping from the
  start of the file the address that \<open>mmap\<close> gives and the bytes there.
\<close>

record mapped_file =
  mf_size :: u64
  mf_map :: "u64 \<Rightarrow> u32 \<Rightarrow> u32 \<Rightarrow> u64 \<times> u8 list"

definition PROT_READ :: u32 where "PROT_READ = 1"
definition MAP_PRIVATE :: u32 where "MAP_PRIVATE = 2"

fun cat_copy :: "reads \<Rightarrow> nat \<Rightarrow> (int \<times> u8 list) list" where
  "cat_copy r 0 = []"
| "cat_copy r (Suc n) =
     (case next_read 4096 r of (None, r) \<Rightarrow> []
      | (Some bs, r) \<Rightarrow> if bs = [] then [] else (1, bs) # cat_copy r n)"

definition cat_main :: "(u8 list \<Rightarrow> mapped_file option) \<Rightarrow> reads \<Rightarrow> u8 list list \<Rightarrow> int \<times> (int \<times> u8 list) list" where
  "cat_main opened stdin av =
     (if length av < 2 then (0, cat_copy stdin (pending_bytes stdin))
      else case opened (av ! 1) of None \<Rightarrow> (1, [])
        | Some f \<Rightarrow>
          let fsz = mf_size f; (dat, bs) = mf_map f fsz PROT_READ MAP_PRIVATE
          in if dat = - 1 \<or> dat AND 0xfff \<noteq> 0 then (1, [(2, bytes ''Bad mmap, abort'' @ [0x0a])])
             else (0, [(1, take (unat fsz) bs)]))"

text \<open>\<open>struct stat\<close> of \<open>sys.h\<close>, with the four bytes of padding that align \<open>st_nlink\<close>.\<close>

definition stat_layout :: layout where
  "stat_layout =
     [(''st_dev'', 8), (''st_ino'', 8), (''st_mode'', 4), (''pad'', 4), (''st_nlink'', 8), (''st_uid'', 4), (''st_gid'', 4),
      (''st_rdev'', 8), (''st_size'', 8), (''st_blksize'', 8), (''st_blocks'', 8), (''st_atime'', 16), (''st_mtime'', 16),
      (''st_ctime'', 16)]"

definition stat_field :: "string \<Rightarrow> mem \<Rightarrow> u64 res" where
  "stat_field f st = get_native Little stat_layout 0 f st"

text \<open>
  For each path: \<open>None\<close> when it does not open, else the bytes the kernel stores at the structure when
  \<open>fstat\<close> works. The structure and the buffer of \<open>Printf\<close> are static.
\<close>

definition stat_one ::
  "(u8 list \<Rightarrow> u8 list option option) \<Rightarrow> u8 list \<Rightarrow> mem \<Rightarrow> mem \<Rightarrow> (u32 \<times> (int \<times> u8 list) list \<times> mem \<times> mem) res" where
  "stat_one fs fname st fb =
     (case fs fname of
        None \<Rightarrow> Inr (1, [(2, bytes ''cannot open ''), (2, fname), (2, [0x0a])], st, fb)
      | Some None \<Rightarrow> Inr (1, [(2, bytes ''stat error'' @ [0x0a])], st, fb)
      | Some (Some bs) \<Rightarrow>
        bindE (wr 0 bs st) (\<lambda>st.
        bindE (stat_field ''st_size'' st) (\<lambda>sz.
        bindE (stat_field ''st_ino'' st) (\<lambda>ino.
        bindE (Printf (bytes ''%s: size %L, inode %L'' @ [0x0a]) [VStr (Some fname), VLong sz, VLong ino] fb) (\<lambda>(_, out, fb).
        Inr (0, [(1, out)], st, fb))))))"

fun stat_args ::
  "(u8 list \<Rightarrow> u8 list option option) \<Rightarrow> u8 list list \<Rightarrow> u32 \<Rightarrow> (int \<times> u8 list) list \<Rightarrow> mem \<Rightarrow> mem \<Rightarrow> (u32 \<times> (int \<times> u8 list) list) res" where
  "stat_args fs [] code out st fb = Inr (code, out)"
| "stat_args fs (a # as) code out st fb =
     bindE (stat_one fs a st fb) (\<lambda>(c, o1, st, fb). stat_args fs as (code OR c) (out @ o1) st fb)"

definition stat_main :: "(u8 list \<Rightarrow> u8 list option option) \<Rightarrow> u8 list list \<Rightarrow> (u32 \<times> (int \<times> u8 list) list) res" where
  "stat_main fs av =
     (if length av < 2 then Inr (1, [(2, bytes ''usage: stat <file list>'' @ [0x0a])])
      else stat_args fs (tl av) 0 [] (blank (struct_size stat_layout)) (blank 2048))"

section \<open>echo, env, pwd, link, sleep, yes, crash, pause\<close>

text \<open>One call of \<open>Printf\<close> per string, all through its static buffer.\<close>

fun print_each :: "u8 list \<Rightarrow> u8 list list \<Rightarrow> u8 list \<times> mem \<Rightarrow> (u8 list \<times> mem) res" where
  "print_each fmt [] op = Inr op"
| "print_each fmt (a # as) op =
     bindE (Printf fmt [VStr (Some a)] (snd op)) (\<lambda>(_, out, fb). print_each fmt as (fst op @ out, fb))"

definition echo_main :: "u8 list list \<Rightarrow> (int \<times> u8 list) res" where
  "echo_main av = bindE (print_each (bytes ''%s '') (tl av) ([], blank 2048)) (\<lambda>(out, _). Inr (0, out @ [0x0a]))"

definition env_main :: "u8 list list \<Rightarrow> (int \<times> u8 list) res" where
  "env_main envp = bindE (print_each (bytes ''%s'' @ [0x0a]) envp ([], blank 2048)) (\<lambda>(out, _). Inr (0, out))"

text \<open>The kernel stores the working directory with its terminator in the static buffer, or nothing.\<close>

definition pwd_main :: "u8 list option \<Rightarrow> (int \<times> u8 list) res" where
  "pwd_main cwd =
     bindE (case cwd of None \<Rightarrow> Inr (blank 4096) | Some s \<Rightarrow> wr 0 (s @ [0]) (blank 4096)) (\<lambda>buf.
     bindE (Strlen 0 buf) (\<lambda>n. bindE (rd 0 n buf) (\<lambda>out. Inr (0, out @ [0x0a]))))"

definition link_main :: "(u8 list \<Rightarrow> u8 list \<Rightarrow> u32) \<Rightarrow> u8 list list \<Rightarrow> int \<times> (int \<times> u8 list) list" where
  "link_main sys_link av =
     (if length av < 3 then (1, [(2, bytes ''Usage: link <oldpath> <newpath>'' @ [0x0a, 0])])
      else if sys_link (av ! 1) (av ! 2) \<noteq> 0 then (1, [(2, bytes ''link failure'' @ [0x0a, 0])])
      else (0, []))"

text \<open>The seconds slept, if any.\<close>

definition sleep_main :: "u8 list list \<Rightarrow> int \<times> (int \<times> u8 list) list \<times> int option" where
  "sleep_main av =
     (if length av < 2 then (1, [(2, bytes ''Usage: sleep <seconds>'' @ [0x0a, 0])], None)
      else (0, [], Some (sint (atoi (av ! 1)))))"

text \<open>\<open>yes\<close> never ends: its writes after \<open>n\<close> rounds.\<close>

primrec yes_rounds :: "nat \<Rightarrow> (int \<times> u8 list) list" where
  "yes_rounds 0 = []"
| "yes_rounds (Suc n) = (1, bytes ''y'' @ [0x0a]) # yes_rounds n"

definition crash_main :: "(int \<times> u8 list) list \<times> fault" where
  "crash_main = ([(1, bytes ''Crash!'' @ [0x0a])], NullDeref)"

definition pause_main :: "('w \<Rightarrow> 'w) \<Rightarrow> 'w \<Rightarrow> int \<times> 'w" where
  "pause_main sys_pause w = (0, sys_pause w)"

section \<open>What mkdir visits\<close>

text \<open>The directories on the way to a path, in order, and the path itself unless it ends in a slash.\<close>

fun levels_from :: "u8 list \<Rightarrow> u8 list \<Rightarrow> u8 list list" where
  "levels_from pre [] = []"
| "levels_from pre (c # cs) = (if c = 0x2f then [pre] else []) @ levels_from (pre @ [c]) cs"

definition parents :: "u8 list \<Rightarrow> u8 list list" where
  "parents dir = (if dir \<noteq> [] \<and> hd dir = 0x2f then levels_from [hd dir] (tl dir) else levels_from [] dir)"

definition needs_last :: "u8 list \<Rightarrow> bool" where
  "needs_last dir \<longleftrightarrow> dir \<noteq> [] \<and> last dir \<noteq> 0x2f"

definition levels :: "u8 list \<Rightarrow> u8 list list" where
  "levels dir = parents dir @ (if needs_last dir then [dir] else [])"

definition ensure :: "'w dir_ops \<Rightarrow> u8 list \<Rightarrow> u32 \<times> 'w \<Rightarrow> u32 \<times> 'w" where
  "ensure ops path = (\<lambda>(ret, w).
     if d_open ops path w then (ret, w) else let (r, w) = d_mkdir ops path 0x1ff w in (ret OR r, w))"

lemma mkdir_level_ensure: "cstr_at buf 0 = Inr path \<Longrightarrow> mkdir_level ops buf ret w = Inr (ensure ops path (ret, w))"
  by (simp add: mkdir_level_def ensure_def split: prod.split)

lemma mkdir_loop_levels:
  assumes "0 \<notin> set (pre @ dir)" and "length pre + length dir \<le> 255" and "msize buf = 256"
  shows "mkdir_loop ops dir (length pre) (poke buf 0 pre) e ret w =
    (case fold (ensure ops) (levels_from pre dir) (ret, w) of (ret, w) \<Rightarrow>
       Inr (poke buf 0 (pre @ dir), if dir = [] then e else last dir = 0x2f, ret, w))"
  using assms(1,2)
proof (induction dir arbitrary: pre e ret w)
  case Nil
  then show ?case by (simp split: prod.split)
next
  case (Cons c dir)
  have app: "poke (poke buf 0 pre) (length pre) ys = poke buf 0 (pre @ ys)" for ys
    using poke_append [of buf 0 pre ys] by simp
  have over: "poke (poke (poke buf 0 pre) (length pre) [x]) (length pre) [y] = poke buf 0 (pre @ [y])" for x y
    unfolding app [symmetric] by (rule mem.equality) (auto simp: mbyte_poke fun_eq_iff)
  have room: "length pre < msize buf" using Cons.prems assms(3) by simp
  have w: "wr (length pre) [x] (poke (poke buf 0 pre) (length pre) [y]) = Inr (poke buf 0 (pre @ [x]))"
    "wr (length pre) [x] (poke buf 0 pre) = Inr (poke (poke buf 0 pre) (length pre) [x])"
    "wr (length pre) [x] (poke buf 0 (pre @ [y])) = Inr (poke buf 0 (pre @ [x]))" for x y
    using room over app by (simp_all add: wr_def)
  have IH: "mkdir_loop ops dir (length pre + 1) (poke buf 0 (pre @ [c])) e' ret' w' =
      (case fold (ensure ops) (levels_from (pre @ [c]) dir) (ret', w') of (ret, w) \<Rightarrow>
         Inr (poke buf 0 (pre @ c # dir), if dir = [] then e' else last dir = 0x2f, ret, w))" for e' ret' w'
    using Cons.IH [of "pre @ [c]" e' ret' w'] Cons.prems by simp
  show ?case
  proof (cases "c = 0x2f")
    case True
    have "cstr_at (poke buf 0 (pre @ [0])) 0 = Inr pre"
      using Cons.prems assms(3) by (intro cstr_at_cstring cstring_poke) auto
    then show ?thesis
      using IH [of True] True by (auto simp: w mkdir_level_ensure split: prod.splits)
  next
    case False
    then show ?thesis using IH [of False ret w] by (auto simp: w app split: prod.splits)
  qed
qed

text \<open>
  Whatever the buffer holds, the parents are visited as they should; the last level is the string that
  the buffer then holds.
\<close>

lemma mkdir_visits_parents:
  assumes "0 \<notin> set dir" and "length dir \<le> 255" and "msize buf = 256"
  shows "mkdir ops dir buf w =
    (case fold (ensure ops) (parents dir) (0, w) of (ret, w) \<Rightarrow>
       bindE (if needs_last dir then mkdir_level ops (poke buf 0 dir) ret w else Inr (ret, w)) (\<lambda>(ret, w).
         Inr (if ret = 0 then 0 else 1, poke buf 0 dir, w)))"
proof (cases "dir \<noteq> [] \<and> hd dir = 0x2f")
  case True
  then obtain ds where d: "dir = 0x2f # ds" by (cases dir) auto
  have "mkdir_loop ops ds 1 (poke buf 0 [0x2f]) True 0 w =
      (case fold (ensure ops) (levels_from [0x2f] ds) (0, w) of (ret, w) \<Rightarrow>
         Inr (poke buf 0 dir, if ds = [] then True else last ds = 0x2f, ret, w))"
    using mkdir_loop_levels [of "[0x2f]" ds buf ops True 0 w] assms d by simp
  then show ?thesis
    using assms(3) by (auto simp: mkdir_def parents_def needs_last_def d split: prod.splits)
next
  case False
  have "mkdir_loop ops dir 0 buf True 0 w =
      (case fold (ensure ops) (levels_from [] dir) (0, w) of (ret, w) \<Rightarrow>
         Inr (poke buf 0 dir, if dir = [] then True else last dir = 0x2f, ret, w))"
    using mkdir_loop_levels [of "[]" dir buf ops True 0 w] assms by simp
  then show ?thesis
    using False by (auto simp: mkdir_def parents_def needs_last_def split: prod.splits)
qed

lemma mkdir_visits_levels:
  assumes "0 \<notin> set dir" and "length dir \<le> 255" and "msize buf = 256" and "cstr_at (poke buf 0 dir) 0 = Inr path"
  shows "mkdir ops dir buf w =
    (case fold (ensure ops) (parents dir @ (if needs_last dir then [path] else [])) (0, w) of (ret, w) \<Rightarrow>
       Inr (if ret = 0 then 0 else 1, poke buf 0 dir, w))"
  using assms by (auto simp: mkdir_visits_parents mkdir_level_ensure split: prod.splits)

section \<open>What ls prints\<close>

text \<open>A directory record as the kernel lays it out: padded to a multiple of 8, the type in the last byte.\<close>

definition reclen_of :: "u8 list \<Rightarrow> nat" where
  "reclen_of name = (20 + length name + 7) div 8 * 8"

definition dir_record :: "u64 \<times> u64 \<times> u8 list \<times> u8 \<Rightarrow> u8 list" where
  "dir_record = (\<lambda>(ino, off, name, t).
     le_enc 8 ino @ le_enc 8 off @ le_enc 2 (of_nat (reclen_of name) :: u16) @ name @ [0] @
     replicate (reclen_of name - 20 - length name) 0 @ [t])"

definition type_label :: "u8 \<Rightarrow> u8 list" where
  "type_label t = (case ftype ! unat t of None \<Rightarrow> bytes ''???'' | Some n \<Rightarrow> n)"

definition ls_line :: "u64 \<times> u64 \<times> u8 list \<times> u8 \<Rightarrow> u8 list" where
  "ls_line = (\<lambda>(ino, off, name, t). name @ [0x20] @ type_label t @ [0x0a])"

definition proper_entry :: "u64 \<times> u64 \<times> u8 list \<times> u8 \<Rightarrow> bool" where
  "proper_entry = (\<lambda>(ino, off, name, t). 0 \<notin> set name \<and> length name \<le> 20 \<and> unat t < 13)"

definition entry_name :: "u64 \<times> u64 \<times> u8 list \<times> u8 \<Rightarrow> u8 list" where
  "entry_name = (\<lambda>(ino, off, name, t). name)"

lemma reclen_bounds: "20 + length name \<le> reclen_of name" "reclen_of name \<le> 27 + length name"
  using div_mult_mod_eq [of "20 + length name + 7" 8] mod_less_divisor [of 8 "20 + length name + 7"]
  unfolding reclen_of_def by linarith+

lemma reclen_limit: "reclen_of name \<le> 32 \<longleftrightarrow> length name \<le> 12"
  unfolding reclen_of_def by presburger

lemma length_dir_record: "length (dir_record (ino, off, name, t)) = reclen_of name"
  using reclen_bounds [of name] by (simp add: dir_record_def)

lemma ftype_list:
  "ftype = [Some (bytes ''???''), Some (bytes ''pipe''), Some (bytes ''character device''), None, Some (bytes ''directory''), None,
     Some (bytes ''block device''), None, Some (bytes ''file''), None, Some (bytes ''symbolic link''), None, Some (bytes ''domain socket'')]"
  by (simp add: ftype_def numeral_eq_Suc)

lemma known_types:
  assumes "unat t < 13"
  shows "type_name t = Inr (Some (type_label t))" and "length (type_label t) \<le> 16"
proof -
  have "n \<in> {0, 1, 2, 3, 4, 5, 6, 7, 8, 9, 10, 11, 12}" if "n < 13" for n :: nat using that by simp arith
  from this [OF assms] have "unat t \<in> {0, 1, 2, 3, 4, 5, 6, 7, 8, 9, 10, 11, 12}" .
  then have "(of_nat (unat t) :: u8) \<in> of_nat ` {0, 1, 2, 3, 4, 5, 6, 7, 8, 9, 10, 11, 12}" by (rule imageI)
  then have "t \<in> {0, 1, 2, 3, 4, 5, 6, 7, 8, 9, 10, 11, 12}" by simp
  then show "type_name t = Inr (Some (type_label t))" "length (type_label t) \<le> 16"
    by (auto simp: type_name_def type_label_def ftype_list bytes_def)
qed

lemma peek_dir_record:
  assumes "p + n \<le> reclen_of name"
  shows "peek (poke buf 0 (dir_record (ino, off, name, t))) p n = take n (drop p (dir_record (ino, off, name, t)))"
  using assms by (simp add: peek_poke_inside length_dir_record)

lemma ls_walk_entry:
  assumes "proper_entry (ino, off, name, t)" and "length name \<le> 12" and "msize buf = 32" and "msize (snd op) = 2048"
  shows "\<exists>fb. ls_walk (poke buf 0 (dir_record (ino, off, name, t))) 0 (reclen_of name) op =
      Inr (fst op @ ls_line (ino, off, name, t), fb) \<and> msize fb = 2048"
proof -
  let ?e = "(ino, off, name, t)" let ?b = "poke buf 0 (dir_record ?e)" and ?k = "reclen_of name"
  have k: "20 + length name \<le> ?k" "?k \<le> 32"
    using reclen_bounds(1) reclen_limit assms(2) by auto
  have u: "unat (of_nat ?k :: u16) = ?k" using k(2) by (intro unat_of_nat_ok) simp
  then have nz: "(of_nat ?k :: u16) \<noteq> 0" using k(1) by (metis unat_0 add_is_0 le_zero_eq zero_neq_numeral)
  have "peek ?b 16 2 = le_enc 2 (of_nat ?k :: u16)"
    using k by (subst peek_dir_record) (simp_all add: dir_record_def)
  then have r: "get_native Little linux_dirent_layout 0 ''d_reclen'' ?b = Inr (of_nat ?k :: u16)"
    using assms(3) by (simp add: get_native_def linux_dirent_layout_def val_def)
  have "?k - (19 + length name) = Suc (?k - (20 + length name))" using k(1) by simp
  then have "peek ?b (?k - 1) 1 = [t]"
    using k by (subst peek_dir_record) (simp_all add: dir_record_def)
  then have t: "load (?k - Suc 0) ?b = Inr t"
    using k assms(3) nth_peek [of 0 1 ?b "?k - 1"] by (simp add: load_def)
  have "peek ?b 18 (length name + 1) = name @ [0]"
    using k by (subst peek_dir_record) (simp_all add: dir_record_def)
  then have n: "cstr_at ?b 18 = Inr name"
    using k assms(1,3) by (intro cstr_at_cstring) (simp add: cstring_def proper_entry_def)
  have ty: "type_name t = Inr (Some (type_label t))" "length (type_label t) \<le> 16"
    using assms(1) known_types by (auto simp: proper_entry_def)
  have "format_out (bytes ''%s %s'' @ [0x0a]) [VStr (Some name), VStr (Some (type_label t))] = Some (ls_line ?e)"
    by (simp add: format_simps str_text_def ls_line_def)
  from Printf_text [OF this assms(4)] have
    p: "Printf (bytes ''%s %s'' @ [0x0a]) [VStr (Some name), VStr (Some (type_label t))] (snd op) =
      Inr (length (ls_line ?e), ls_line ?e, poke (snd op) 0 (ls_line ?e @ [0]))"
    using ty(2) assms(2) by (simp add: ls_line_def)
  have d: "offsetof linux_dirent_layout ''d_name'' = 18" by (simp add: linux_dirent_layout_def)
  have stop: "ls_walk ?b ?k ?k op' = Inr op'" for op' by (simp add: ls_walk.simps)
  have "ls_walk ?b 0 ?k op = Inr (fst op @ ls_line ?e, poke (snd op) 0 (ls_line ?e @ [0]))"
    using k(1) by (subst ls_walk.simps) (simp add: r nz u t ty n p d stop)
  then show ?thesis using assms(4) by simp
qed

lemma ls_loop_lists:
  assumes "\<forall>e\<in>set es. proper_entry e \<and> length (entry_name e) \<le> 12" and "msize buf = 32" and "msize (snd op) = 2048"
  shows "\<exists>buf' fb. ls_loop (map (Some \<circ> dir_record) es @ r) buf op = ls_loop r buf' (fst op @ concat (map ls_line es), fb) \<and>
    msize buf' = 32 \<and> msize fb = 2048"
  using assms
proof (induction es arbitrary: buf op)
  case Nil
  then show ?case by (intro exI [of _ buf] exI [of _ "snd op"]) simp
next
  case (Cons e es)
  obtain ino off name t where e: "e = (ino, off, name, t)" by (metis prod_cases4)
  have p: "proper_entry (ino, off, name, t)" "length name \<le> 12"
    using Cons.prems(1) e by (auto simp: entry_name_def)
  obtain fb where fb: "ls_walk (poke buf 0 (dir_record e)) 0 (reclen_of name) op = Inr (fst op @ ls_line e, fb)" "msize fb = 2048"
    using ls_walk_entry [OF p Cons.prems(2,3)] e by blast
  have len: "length (dir_record e) = reclen_of name" "dir_record e \<noteq> []" "reclen_of name \<le> 32"
    using length_dir_record reclen_limit p(2) e by (auto simp: dir_record_def)
  have step: "ls_loop (map (Some \<circ> dir_record) (e # es) @ r) buf op =
      ls_loop (map (Some \<circ> dir_record) es @ r) (poke buf 0 (dir_record e)) (fst op @ ls_line e, fb)"
    using len fb(1) Cons.prems(2) by simp
  show ?case
    unfolding step using Cons.IH [of "poke buf 0 (dir_record e)" "(fst op @ ls_line e, fb)"] Cons.prems fb(2) by (simp add: comp_def)
qed

section \<open>What the printing programs write\<close>

lemma cat_copy_contents:
  "steady r \<Longrightarrow> length (contents r) \<le> n \<Longrightarrow> concat (map snd (cat_copy r n)) = contents r"
proof (induction n arbitrary: r)
  case 0
  then show ?case by simp
next
  case (Suc n)
  obtain bs r' where "next_read 4096 r = (Some bs, r')" "steady r'" "contents r = bs @ contents r'" "bs = [] \<longleftrightarrow> contents r = []"
    using next_read_steady [OF Suc.prems(1), of 4096] by auto
  then show ?case using Suc.IH [of r'] Suc.prems(2) by (cases bs) auto
qed

lemma pending_contents: "steady r \<Longrightarrow> length (contents r) \<le> pending_bytes r"
  by (induction r) (auto simp: steady_def contents_def pending_bytes_def)

lemma cat_copies_input: "steady r \<Longrightarrow> concat (map snd (snd (cat_main opened r [prog]))) = contents r"
  by (simp add: cat_main_def cat_copy_contents pending_contents)

text \<open>Of a file that the kernel maps for reading at a page, \<open>cat\<close> writes the contents; other answers are reported.\<close>

lemma cat_copies_file:
  assumes "opened p = Some f" and "mf_map f (of_nat (length bs)) PROT_READ MAP_PRIVATE = (a, bs)"
    and "mf_size f = of_nat (length bs)" and "length bs < 2 ^ 64"
  shows "cat_main opened r [prog, p] =
    (if a \<noteq> - 1 \<and> a AND 0xfff = 0 then (0, [(1, bs)]) else (1, [(2, bytes ''Bad mmap, abort'' @ [0x0a])]))"
  using assms by (simp add: cat_main_def unat_of_nat take_bit_nat_eq_self)

lemma print_each_text:
  assumes "\<forall>a\<in>set as. format_out fmt [VStr (Some a)] = Some (f a) \<and> length (f a) < 2048" and "msize (snd op) = 2048"
  shows "\<exists>fb. print_each fmt as op = Inr (fst op @ concat (map f as), fb) \<and> msize fb = 2048"
  using assms
proof (induction "as" arbitrary: op)
  case Nil
  then show ?case by (intro exI [of _ "snd op"]) simp
next
  case (Cons a as)
  then have "Printf fmt [VStr (Some a)] (snd op) = Inr (length (f a), f a, poke (snd op) 0 (f a @ [0]))"
    by (simp add: Printf_text)
  then show ?case
    using Cons.IH [of "(fst op @ f a, poke (snd op) 0 (f a @ [0]))"] Cons.prems by simp
qed

lemma echo_output:
  assumes "\<forall>a\<in>set as. length a < 2047"
  shows "echo_main (prog # as) = Inr (0, concat (map (\<lambda>a. a @ [0x20]) as) @ [0x0a])"
  using print_each_text [of "as" "bytes ''%s ''" "\<lambda>a. a @ [0x20]" "([], blank 2048)"] assms
  by (force simp: echo_main_def format_simps str_text_def blank_def)

lemma env_output:
  assumes "\<forall>a\<in>set as. length a < 2047"
  shows "env_main as = Inr (0, concat (map (\<lambda>a. a @ [0x0a]) as))"
  using print_each_text [of "as" "bytes ''%s'' @ [0x0a]" "\<lambda>a. a @ [0x0a]" "([], blank 2048)"] assms
  by (force simp: env_main_def format_simps str_text_def blank_def)

lemma kill_Strcmp_eq: "kill_Strcmp s t = Strcmp s t"
  by (induction s t rule: kill_Strcmp.induct) simp_all

text \<open>The line \<open>stat\<close> prints for a file of a size and an inode.\<close>

definition stat_line :: "u8 list \<Rightarrow> u64 \<Rightarrow> u64 \<Rightarrow> u8 list" where
  "stat_line name sz ino = name @ bytes '': size '' @ ulong_text sz @ bytes '', inode '' @ ulong_text ino @ [0x0a]"

text \<open>
  What the kernel stores: inode and size where the structure has them, in any number of bytes. (The
  kernel's own structure has 144 bytes on x86-64 and 128 on AArch64, and both agree on these two fields.)
\<close>

definition kernel_stat :: "u64 \<Rightarrow> u64 \<Rightarrow> u64 \<Rightarrow> u8 list \<Rightarrow> u8 list \<Rightarrow> u8 list" where
  "kernel_stat dev ino sz ids rest = le_enc 8 dev @ le_enc 8 ino @ ids @ le_enc 8 sz @ rest"

definition stat_answers :: "(u8 list \<Rightarrow> u8 list option option) \<Rightarrow> (u8 list \<Rightarrow> u64) \<Rightarrow> (u8 list \<Rightarrow> u64) \<Rightarrow> nat \<Rightarrow> u8 list \<Rightarrow> bool" where
  "stat_answers fs sz ino n a \<longleftrightarrow>
     (\<exists>dev ids rest. length ids = 32 \<and> length rest + 56 = n \<and> fs a = Some (Some (kernel_stat dev (ino a) (sz a) ids rest)))"

lemma stat_size: "struct_size stat_layout = 120"
  by (simp add: stat_layout_def struct_size_def)

lemma stat_offsets:
  "offsetof stat_layout ''st_size'' = 48" "field_size stat_layout ''st_size'' = 8"
  "offsetof stat_layout ''st_ino'' = 8" "field_size stat_layout ''st_ino'' = 8"
  by (simp_all add: stat_layout_def)

lemma stat_fields:
  assumes "length ids = 32" and "length rest + 56 \<le> 120" and "msize st = 120"
  shows "wr 0 (kernel_stat dev ino sz ids rest) st = Inr (poke st 0 (kernel_stat dev ino sz ids rest))"
    "stat_field ''st_size'' (poke st 0 (kernel_stat dev ino sz ids rest)) = Inr sz"
    "stat_field ''st_ino'' (poke st 0 (kernel_stat dev ino sz ids rest)) = Inr ino"
proof -
  let ?k = "kernel_stat dev ino sz ids rest"
  have "length ?k \<le> 120" using assms by (simp add: kernel_stat_def)
  then show "wr 0 ?k st = Inr (poke st 0 ?k)" using assms(3) by (simp add: wr_def)
  have "peek (poke st 0 ?k) 48 8 = le_enc 8 sz" "peek (poke st 0 ?k) 8 8 = le_enc 8 ino"
    using assms peek_poke_inside [of 0 48 8 ?k st] peek_poke_inside [of 0 8 8 ?k st] by (simp_all add: kernel_stat_def)
  then show "stat_field ''st_size'' (poke st 0 ?k) = Inr sz" "stat_field ''st_ino'' (poke st 0 ?k) = Inr ino"
    using assms(3) by (simp_all add: stat_field_def get_native_def rd_def stat_offsets val_def)
qed

lemma stat_one_line:
  assumes "stat_answers fs sz ino n a" and "n \<le> 120" and "length a \<le> 1900" and "msize st = 120" and "msize fb = 2048"
  shows "\<exists>st'. msize st' = 120 \<and>
    stat_one fs a st fb = Inr (0, [(1, stat_line a (sz a) (ino a))], st', poke fb 0 (stat_line a (sz a) (ino a) @ [0]))"
proof -
  obtain dev ids rest where k: "length ids = 32" "length rest + 56 \<le> 120" "fs a = Some (Some (kernel_stat dev (ino a) (sz a) ids rest))"
    using assms(1,2) by (auto simp: stat_answers_def)
  have "format_out (bytes ''%s: size %L, inode %L'' @ [0x0a]) [VStr (Some a), VLong (sz a), VLong (ino a)] = Some (stat_line a (sz a) (ino a))"
    by (simp add: format_simps str_text_def stat_line_def)
  moreover have "length (stat_line a (sz a) (ino a)) < 2048"
    using assms(3) text_lengths(5) [of "sz a"] text_lengths(5) [of "ino a"] by (simp add: stat_line_def bytes_def)
  ultimately show ?thesis
    using assms(4,5) stat_fields [OF k(1,2) assms(4)] by (simp add: stat_one_def k(3) Printf_text)
qed

lemma stat_args_lines:
  assumes "\<forall>a\<in>set as. stat_answers fs sz ino n a \<and> length a \<le> 1900" and "n \<le> 120" and "msize st = 120" and "msize fb = 2048"
  shows "stat_args fs as 0 out st fb = Inr (0, out @ map (\<lambda>a. (1, stat_line a (sz a) (ino a))) as)"
  using assms
proof (induction "as" arbitrary: out st fb)
  case (Cons a as)
  with stat_one_line [of fs sz ino n a st fb] show ?case by auto
qed simp

lemma stat_one_overrun:
  assumes "stat_answers fs sz ino n a" and "120 < n" and "msize st = 120"
  shows "stat_one fs a st fb = Inl WildAccess"
  using assms by (auto simp: stat_answers_def stat_one_def kernel_stat_def wr_def)

text \<open>
  \<open>stat\<close> reports size and inode of every argument if the kernel stores no more than the structure holds,
  and has the bytes behind it overwritten otherwise.
\<close>

lemma stat_main_reports:
  assumes "\<forall>a\<in>set as. stat_answers fs sz ino n a \<and> length a \<le> 1900" and "as \<noteq> []"
  shows "stat_main fs (prog # as) =
    (if n \<le> struct_size stat_layout then Inr (0, map (\<lambda>a. (1, stat_line a (sz a) (ino a))) as) else Inl WildAccess)"
proof (cases "as")
  case (Cons a as')
  then show ?thesis
    using stat_args_lines [OF assms(1), of "blank 120" "blank 2048" "[]"] stat_one_overrun [of fs sz ino n a "blank 120" "blank 2048"] assms
    by (auto simp: stat_main_def msize_blank stat_size)
qed (use assms in simp)

lemma length_int_text: "length (int_text v) \<le> 17"
  using decimal.radix_length [of "unat v" 16] decimal.radix_length [of "unat (- v)" 16] unat32_bound(1) [of v] unat32_bound(1) [of "- v"]
  by (auto simp: int_text_def)

lemma seq_loop_text:
  "b < 2 ^ 31 - 1 \<Longrightarrow> msize (snd op) = 2048 \<Longrightarrow>
   \<exists>fb. seq_loop i b op = Inr (fst op @ concat (map (\<lambda>k. int_text (of_int k) @ [0x0a]) [i..b]), fb)"
proof (induction "nat (b + 1 - i)" arbitrary: i op)
  case 0
  then show ?case by (intro exI [of _ "snd op"]) (simp add: seq_loop.simps [of i])
next
  case (Suc n)
  let ?t = "int_text (of_int i) @ [0x0a]"
  have "format_out (bytes ''%d'' @ [0x0a]) [VInt (of_int i)] = Some ?t"
    by (simp add: format_simps)
  from Printf_text [OF this Suc.prems(2)]
  have p: "Printf (bytes ''%d'' @ [0x0a]) [VInt (of_int i)] (snd op) = Inr (length ?t, ?t, poke (snd op) 0 (?t @ [0]))"
    using length_int_text [of "of_int i"] by simp
  have i: "i \<le> b" "i \<noteq> 2 ^ 31 - 1" using Suc.hyps(2) Suc.prems(1) by auto
  then have "seq_loop i b op = seq_loop (i + 1) b (fst op @ ?t, poke (snd op) 0 (?t @ [0]))"
    by (subst seq_loop.simps) (simp add: p del: append_assoc)
  then show ?case
    using Suc.hyps(1) [of "i + 1" "(fst op @ ?t, poke (snd op) 0 (?t @ [0]))"] Suc.hyps(2) Suc.prems i(1)
    by (simp add: upto_rec1)
qed

lemma seq_output:
  assumes "sint (atoi b) < 2 ^ 31 - 1"
  shows "seq_main [prog, a, b] =
    Inr (0, concat (map (\<lambda>k. int_text (of_int k) @ [0x0a]) [sint (atoi a)..sint (atoi b)]))"
  using seq_loop_text [OF assms, of "([], blank 2048)" "sint (atoi a)"]
  by (auto simp: seq_main_def blank_def numeral_2_eq_2)

section \<open>Properties\<close>

text \<open>
  C38: mkdir makes every level. For one path of at most 255 bytes, mkdir opens each directory on the
  way and then the path itself (unless it ends in a slash), in this order, creates with mode 0777 those
  that do not open, and exits with 0 exactly when all creations returned 0.
\<close>

theorem mkdir_makes_levels:
  assumes "0 \<notin> set dir" and "length dir \<le> 255"
  shows "mkdir_main ops [prog, dir] w =
    (case fold (ensure ops) (levels dir) (0, w) of (ret, w) \<Rightarrow> Inr (if ret = 0 then 0 else 1, [], w))"
proof -
  have "cstring (poke (blank 256) 0 dir) 0 dir"
  proof -
    have "poke (blank 256) 0 (dir @ [0]) = poke (blank 256) 0 dir"
      by (rule mem.equality) (auto simp: mbyte_poke fun_eq_iff nth_append blank_def)
    then show ?thesis using assms cstring_poke [of dir 0 "blank 256"] by (simp add: blank_def)
  qed
  then show ?thesis
    using mkdir_visits_levels [OF assms, of "blank 256" dir ops w] cstr_at_cstring [of "poke (blank 256) 0 dir" 0 dir]
    by (auto simp: mkdir_main_def blank_def levels_def split: prod.splits)
qed

text \<open>
  A second, shorter argument is misread. The static path buffer is not cleared or terminated
  between arguments: after a name, a shorter name is completed with the rest of the first one, and that
  directory is opened and created instead of the one that was asked for.
\<close>

theorem mkdir_stale_buffer:
  assumes "0 \<notin> set a \<union> set b" and "0x2f \<notin> set a \<union> set b" and "length a \<le> 255" and "b \<noteq> []" and "length b < length a"
  shows "mkdir_main ops [prog, a, b] w =
    (case ensure ops a (0, w) of (r1, w) \<Rightarrow>
     case ensure ops (b @ drop (length b) a) (0, w) of (r2, w) \<Rightarrow>
       Inr (if r1 = 0 \<and> r2 = 0 then 0 else 1, [], w))"
proof -
  have none: "levels_from pre d = []" if "0x2f \<notin> set d" for pre d
    using that by (induction pre d rule: levels_from.induct) auto
  have "parents d = [] \<and> needs_last d" if "0x2f \<notin> set d" "d \<noteq> []" for d
  proof -
    have "hd d \<noteq> 0x2f" "last d \<noteq> 0x2f" using that by (metis hd_in_set, metis last_in_set)
    then show ?thesis using that by (simp add: parents_def none needs_last_def)
  qed
  then have p: "parents a = []" "parents b = []" "needs_last a" "needs_last b"
    using assms by (metis UnCI list.size(3) not_less_zero)+
  have z: "poke (blank 256) 0 (d @ [0]) = poke (blank 256) 0 d" for d
    by (rule mem.equality) (auto simp: mbyte_poke fun_eq_iff nth_append blank_def)
  have b: "poke (poke (blank 256) 0 a) 0 b = poke (blank 256) 0 (b @ drop (length b) a)"
    using assms(5) by (intro mem.equality) (auto simp: mbyte_poke fun_eq_iff nth_append)
  have "cstr_at (poke (blank 256) 0 d) 0 = Inr d" if "0 \<notin> set d" "length d \<le> 255" for d
    using that cstring_poke [of d 0 "blank 256"] unfolding z by (intro cstr_at_cstring) (simp add: blank_def)
  moreover have "0 \<notin> set (b @ drop (length b) a)" using assms(1) by (auto dest: in_set_dropD)
  ultimately have c: "cstr_at (poke (blank 256) 0 a) 0 = Inr a" "cstr_at (poke (poke (blank 256) 0 a) 0 b) 0 = Inr (b @ drop (length b) a)"
    unfolding b using assms by auto
  have m: "mkdir ops a (blank 256) w = (case ensure ops a (0, w) of (ret, w) \<Rightarrow> Inr (if ret = 0 then 0 else 1, poke (blank 256) 0 a, w))" for w
    using mkdir_visits_levels [OF _ assms(3) _ c(1), of ops w] assms(1) p by (simp add: blank_def)
  have n: "mkdir ops b (poke (blank 256) 0 a) w = (case ensure ops (b @ drop (length b) a) (0, w) of (ret, w) \<Rightarrow>
      Inr (if ret = 0 then 0 else 1, poke (poke (blank 256) 0 a) 0 b, w))" for w
    using mkdir_visits_levels [OF _ _ _ c(2), of ops w] assms p by (simp add: blank_def)
  show ?thesis
    by (auto simp: mkdir_main_def m n split: prod.splits)
qed

text \<open>A file system as the list of directories that exist; creating one always succeeds.\<close>

definition flat_ops :: "u8 list list dir_ops" where
  "flat_ops = \<lparr>d_open = (\<lambda>p w. p \<in> set w), d_mkdir = (\<lambda>p mode w. (0, w @ [p]))\<rparr>"

theorem mkdir_makes_levels_witness:
  "mkdir_main flat_ops [bytes ''mkdir'', bytes ''/a/bc''] [] = Inr (0, [], [bytes ''/a'', bytes ''/a/bc''])"
  using mkdir_makes_levels [of "bytes ''/a/bc''" flat_ops "bytes ''mkdir''" "[]"]
  by (simp add: bytes_def levels_def parents_def needs_last_def ensure_def flat_ops_def)

theorem mkdir_stale_buffer_witness:
  "mkdir_main flat_ops [bytes ''mkdir'', bytes ''abcdef'', bytes ''xy''] [] =
     Inr (0, [], [bytes ''abcdef'', bytes ''xycdef''])"
  using mkdir_stale_buffer [of "bytes ''abcdef''" "bytes ''xy''" flat_ops "bytes ''mkdir''" "[]"]
  by (simp add: bytes_def ensure_def flat_ops_def)

text \<open>
  C39: ls prints a line with the name and the type of every entry, in order, as long as names have at
  most 12 bytes; the kernel stores the record of a longer name, here up to 20 bytes, past the end of the
  32-byte buffer, since the program offers 40 bytes.
\<close>

theorem ls_main_lists:
  assumes "\<forall>e\<in>set es. proper_entry e \<and> length (entry_name e) \<le> 12" and "proper_entry x" and "12 < length (entry_name x)"
  shows "ls_main (\<lambda>p. Some (map (Some \<circ> dir_record) es)) av = Inr (0, [(1, concat (map ls_line es))]) \<and>
    ls_main (\<lambda>p. Some (map (Some \<circ> dir_record) (es @ [x]))) av = Inl WildAccess"
proof -
  obtain ino off name t where x: "x = (ino, off, name, t)" by (metis prod_cases4)
  have "32 < length (dir_record x)"
    using reclen_limit [of name] assms(3) x length_dir_record [of ino off name t] by (simp add: entry_name_def)
  then have over: "ls_loop [Some (dir_record x)] buf op = Inl WildAccess" if "msize buf = 32" for buf op
    using that by (auto simp: wr_def)
  show ?thesis
    using ls_loop_lists [OF assms(1), of "blank 32" "([], blank 2048)" "[]"]
      ls_loop_lists [OF assms(1), of "blank 32" "([], blank 2048)" "[Some (dir_record x)]"] over
    by (auto simp: ls_main_def blank_def)
qed

theorem ls_main_lists_witness:
  "ls_main (\<lambda>p. Some (map (Some \<circ> dir_record) [(1, 2, bytes ''bin'', 4), (3, 4, bytes ''init'', 8)])) [bytes ''ls''] =
     Inr (0, [(1, bytes ''bin directory'' @ [0x0a] @ bytes ''init file'' @ [0x0a])])"
proof -
  have "concat (map ls_line [(1, 2, bytes ''bin'', 4), (3, 4, bytes ''init'', 8)]) =
      bytes ''bin directory'' @ [0x0a] @ bytes ''init file'' @ [0x0a]"
    by code_simp
  then show ?thesis
    using ls_main_lists [of "[(1, 2, bytes ''bin'', 4), (3, 4, bytes ''init'', 8)]" "(5, 6, replicate 13 0x61, 8)" "[bytes ''ls'']"]
    by (simp add: proper_entry_def entry_name_def bytes_def)
qed

end
