(* ===== verification/Devices.thy ===== *)
theory Devices
  imports Prelude
begin

text \<open>
  The two character device modules, \<open>device/null/init.c\<close> and \<open>device/zero/init.c\<close>. User memory is a
  parameter through \<open>copy_to_user\<close>, which returns the number of bytes it could not copy; registering a
  device returns a major number or a negative error.
\<close>

section \<open>null\<close>

text \<open>The result of a call and the new file position.\<close>

definition null_read :: "u64 \<Rightarrow> u64 \<Rightarrow> u64 \<times> u64" where
  "null_read count position = (0, position)"

definition null_write :: "u64 \<Rightarrow> u64 \<Rightarrow> u64 \<times> u64" where
  "null_write count position = (count, position + count)"

text \<open>Initialisation: the value returned and the major number kept.\<close>

definition null_init :: "(string \<Rightarrow> int) \<Rightarrow> int \<times> int" where
  "null_init register_chrdev =
     (let result = register_chrdev ''null'' in if result < 0 then (result, 0) else (0, result))"

section \<open>zero\<close>

definition zero_buf :: "u8 list" where
  "zero_buf = replicate 512 0"

definition EFAULT :: u64 where
  "EFAULT = 14"

text \<open>The copy loop: the total, or \<open>None\<close> where it leaves with an error, and user memory.\<close>

function zero_copy ::
  "(u64 \<Rightarrow> u8 list \<Rightarrow> mem \<Rightarrow> u64 \<times> mem) \<Rightarrow> u64 \<Rightarrow> u64 \<Rightarrow> u64 \<Rightarrow> mem \<Rightarrow> u64 option \<times> mem" where
  "zero_copy copy_to_user user_buffer count tread m =
     (if count = 0 then (Some tread, m)
      else
        let bread = (if count < of_nat (length zero_buf) then count else of_nat (length zero_buf));
            (left, m) = copy_to_user user_buffer (take (unat bread) zero_buf) m
        in
          if left \<noteq> 0 then (None, m)
          else zero_copy copy_to_user (user_buffer + bread) (count - bread) (tread + bread) m)"
  by pat_completeness auto
termination
proof (relation "measure (\<lambda>(c, u, count, t, m). unat count)")
  fix c :: "u64 \<Rightarrow> u8 list \<Rightarrow> mem \<Rightarrow> u64 \<times> mem" and u count t bread left :: u64 and m m' :: mem and p
  assume "count \<noteq> 0" "bread = (if count < of_nat (length zero_buf) then count else of_nat (length zero_buf))"
  then have "0 < unat bread" "unat bread \<le> unat count"
    by (auto simp: unat_gt_0 word_less_nat_alt zero_buf_def)
  then show "((c, u + bread, count - bread, t + bread, m'), c, u, count, t, m) \<in> measure (\<lambda>(c, u, count, t, m). unat count)"
    by (simp add: unat_sub_ok)
qed simp

declare zero_copy.simps [simp del]

definition device_file_read ::
  "(u64 \<Rightarrow> u8 list \<Rightarrow> mem \<Rightarrow> u64 \<times> mem) \<Rightarrow> u64 \<Rightarrow> u64 \<Rightarrow> u64 \<Rightarrow> mem \<Rightarrow> u64 \<times> u64 \<times> mem" where
  "device_file_read copy_to_user user_buffer count position m =
     (case zero_copy copy_to_user user_buffer count 0 m of
        (None, m) \<Rightarrow> (- EFAULT, position, m)
      | (Some tread, m) \<Rightarrow> (tread, position + tread, m))"

definition device_file_write :: "u64 \<Rightarrow> u64 \<Rightarrow> u64 \<times> u64" where
  "device_file_write count position = (count, position)"

definition register_device :: "(string \<Rightarrow> int) \<Rightarrow> int \<times> int" where
  "register_device register_chrdev =
     (let result = register_chrdev ''zero'' in if result < 0 then (result, 0) else (0, result))"

text \<open>The module's initialisation ignores the result of the registration.\<close>

definition zero_init :: "(string \<Rightarrow> int) \<Rightarrow> int \<times> int" where
  "zero_init register_chrdev = (let (_, major) = register_device register_chrdev in (0, major))"

text \<open>The major number that \<open>unregister_device\<close> gives back, if any; neither module calls it when it is unloaded.\<close>

definition unregister_device :: "int \<Rightarrow> int option" where
  "unregister_device major = (if major \<noteq> 0 then Some major else None)"

section \<open>Reading zeros\<close>

text \<open>What the kernel documents of \<open>copy_to_user\<close> on an accessible range of user memory.\<close>

definition accessible :: "(u64 \<Rightarrow> u8 list \<Rightarrow> mem \<Rightarrow> u64 \<times> mem) \<Rightarrow> nat \<Rightarrow> nat \<Rightarrow> bool" where
  "accessible copy_to_user lo hi \<longleftrightarrow>
     (\<forall>p bs m. lo \<le> unat p \<and> unat p + length bs \<le> hi \<longrightarrow> copy_to_user p bs m = (0, poke m (unat p) bs))"

lemma zero_copy_ok:
  "accessible cp lo hi \<Longrightarrow> lo \<le> unat u \<Longrightarrow> unat u + unat count \<le> hi \<Longrightarrow> hi < 2 ^ 64 \<Longrightarrow>
   zero_copy cp u count t m = (Some (t + count), poke m (unat u) (replicate (unat count) 0))"
proof (induction "unat count" arbitrary: u count t m rule: less_induct)
  case less
  show ?case
  proof (cases "count = 0")
    case True
    then show ?thesis by (simp add: zero_copy.simps [of cp])
  next
    case False
    define nb where "nb = (if count < of_nat (length zero_buf) then count else of_nat (length zero_buf))"
    let ?n = nb
    have n: "0 < unat ?n" "unat ?n \<le> unat count" "unat ?n \<le> 512"
      using False by (auto simp: nb_def zero_buf_def unat_gt_0 word_less_nat_alt)
    have sub: "unat (count - ?n) = unat count - unat ?n" using n(2) by (rule unat_sub_ok)
    have add: "unat (u + ?n) = unat u + unat ?n"
      using n(2) less.prems by (intro unat_add_ok) simp
    have z: "take (unat ?n) zero_buf = replicate (unat ?n) 0"
      using n(3) by (simp add: zero_buf_def min_def)
    have "cp u (replicate (unat ?n) 0) m = (0, poke m (unat u) (replicate (unat ?n) 0))"
      using less.prems n(2) unfolding accessible_def by auto
    then have "zero_copy cp u count t m =
        zero_copy cp (u + ?n) (count - ?n) (t + ?n) (poke m (unat u) (replicate (unat ?n) 0))"
      using False z by (subst zero_copy.simps) (simp add: Let_def nb_def [symmetric])
    also have "\<dots> = (Some (t + count), poke (poke m (unat u) (replicate (unat ?n) 0)) (unat u + unat ?n) (replicate (unat count - unat ?n) 0))"
      using less.hyps [of "count - ?n" "u + ?n" "t + ?n"] less.prems n by (simp add: sub add)
    also have "\<dots> = (Some (t + count), poke m (unat u) (replicate (unat count) 0))"
      using poke_append [of m "unat u" "replicate (unat ?n) 0" "replicate (unat count - unat ?n) 0"] n(2)
      by (simp flip: replicate_add)
    finally show ?thesis .
  qed
qed

section \<open>Properties\<close>

text \<open>
  C40: reading the zero device. For an accessible user buffer of any length below 2 ^ 64 the read stores
  exactly that many zeros there, in pieces of at most 512 bytes, returns the length and advances the
  position by it.
\<close>

theorem zero_read_fills:
  assumes "accessible copy_to_user lo hi" and "lo \<le> unat u" and "unat u + unat count \<le> hi" and "hi < 2 ^ 64"
  shows "device_file_read copy_to_user u count position m =
    (count, position + count, poke m (unat u) (replicate (unat count) 0))"
  using zero_copy_ok [OF assms, of 0 m] by (simp add: device_file_read_def)

definition plain_copy :: "u64 \<Rightarrow> u8 list \<Rightarrow> mem \<Rightarrow> u64 \<times> mem" where
  "plain_copy p bs m =
     (if unat p + length bs \<le> 0x10000 then (0, poke m (unat p) bs) else (of_nat (length bs), m))"

theorem zero_read_fills_witness:
  "device_file_read plain_copy 0x100 1000 5 (blank 0x10000) = (1000, 1005, poke (blank 0x10000) 0x100 (replicate 1000 0))"
proof -
  have "accessible plain_copy 0 0x10000" by (simp add: accessible_def plain_copy_def)
  then show ?thesis
    using zero_read_fills [of plain_copy 0 "0x10000" "0x100" 1000 5 "blank 0x10000"] by simp
qed

end
