(* ===== verification/Disk.thy ===== *)
theory Disk
  imports Endian
begin

text \<open>
  \<open>bootloader/serial.h\<close>: the layouts of the descriptor structures, port input and output, and the two
  ways the boot code reads a sector, by programmed I/O and through the BIOS. The drive behind the
  ports and the BIOS call are parameters.
\<close>

unbundle bit_operations_syntax

section \<open>Descriptors\<close>

text \<open>Bit fields are allocated from the low end of each 32-bit unit; widths are in bits.\<close>

definition SegmentDescriptor_bits :: layout where
  "SegmentDescriptor_bits =
     [(''seg_limit_low'', 16), (''base_low'', 16), (''base_mid'', 8), (''type'', 4), (''S'', 1), (''DPL'', 2),
      (''P'', 1), (''seg_limit_high'', 4), (''AVL'', 1), (''L'', 1), (''DB'', 1), (''G'', 1), (''base_high'', 8)]"

definition SegmentSelector_bits :: layout where
  "SegmentSelector_bits = [(''RPL'', 2), (''TI'', 1), (''Index'', 13)]"

definition DescriptorTable32_layout :: layout where
  "DescriptorTable32_layout = [(''limit'', 2), (''ptr'', 4)]"

definition DescriptorTable64_layout :: layout where
  "DescriptorTable64_layout = [(''limit'', 2), (''ptr'', 8)]"

text \<open>The value of a bit field, and the checks of \<open>__check_sizeof_int\<close> on the four structures.\<close>

definition bit_field :: "layout \<Rightarrow> string \<Rightarrow> u64 \<Rightarrow> u64" where
  "bit_field L f w = take_bit (field_size L f) (drop_bit (offsetof L f) w)"

definition check_sizeof_int :: bool where
  "check_sizeof_int \<longleftrightarrow> struct_size SegmentDescriptor_bits = 8 * 8 \<and> struct_size SegmentSelector_bits = 2 * 8 \<and>
     struct_size DescriptorTable32_layout = 6 \<and> struct_size DescriptorTable64_layout = 10"

section \<open>Ports\<close>

record 's ports =
  p_inb :: "u16 \<Rightarrow> 's \<Rightarrow> u8 \<times> 's"
  p_inw :: "u16 \<Rightarrow> 's \<Rightarrow> u16 \<times> 's"
  p_inl :: "u16 \<Rightarrow> 's \<Rightarrow> u32 \<times> 's"
  p_outb :: "u16 \<Rightarrow> u8 \<Rightarrow> 's \<Rightarrow> 's"
  p_outw :: "u16 \<Rightarrow> u16 \<Rightarrow> 's \<Rightarrow> 's"
  p_outl :: "u16 \<Rightarrow> u32 \<Rightarrow> 's \<Rightarrow> 's"

text \<open>The inline functions narrow the port to 16 bits.\<close>

definition inb :: "'s ports \<Rightarrow> u32 \<Rightarrow> 's \<Rightarrow> u8 \<times> 's" where "inb io port s = p_inb io (ucast port) s"
definition inw :: "'s ports \<Rightarrow> u32 \<Rightarrow> 's \<Rightarrow> u16 \<times> 's" where "inw io port s = p_inw io (ucast port) s"
definition inl :: "'s ports \<Rightarrow> u32 \<Rightarrow> 's \<Rightarrow> u32 \<times> 's" where "inl io port s = p_inl io (ucast port) s"
definition outb :: "'s ports \<Rightarrow> u32 \<Rightarrow> u8 \<Rightarrow> 's \<Rightarrow> 's" where "outb io port data s = p_outb io (ucast port) data s"
definition outw :: "'s ports \<Rightarrow> u32 \<Rightarrow> u16 \<Rightarrow> 's \<Rightarrow> 's" where "outw io port data s = p_outw io (ucast port) data s"
definition outl :: "'s ports \<Rightarrow> u32 \<Rightarrow> u32 \<Rightarrow> 's \<Rightarrow> 's" where "outl io port data s = p_outl io (ucast port) data s"

definition putch :: "'s ports \<Rightarrow> u8 \<Rightarrow> 's \<Rightarrow> 's" where
  "putch io ch s = outb io 0x3f8 ch s"

text \<open>\<open>wait_disk\<close> polls the status until the drive is ready and not busy; the fuel bounds the polls.\<close>

fun wait_disk :: "'s ports \<Rightarrow> nat \<Rightarrow> 's \<Rightarrow> 's res" where
  "wait_disk io 0 s = Inl Diverge"
| "wait_disk io (Suc n) s =
     (let (st, s) = inb io 0x1f7 s in if st AND 0xc0 \<noteq> 0x40 then wait_disk io n s else Inr s)"

definition SECTSIZE :: nat where
  "SECTSIZE = 512"

fun read_words :: "'s ports \<Rightarrow> nat \<Rightarrow> nat \<Rightarrow> 's \<Rightarrow> mem \<Rightarrow> ('s \<times> mem) res" where
  "read_words io 0 buf s m = Inr (s, m)"
| "read_words io (Suc n) buf s m =
     (let (w, s) = inl io 0x1f0 s in bindE (wr buf (le_enc 4 w) m) (\<lambda>m. read_words io n (buf + 4) s m))"

definition select_sector :: "'s ports \<Rightarrow> u32 \<Rightarrow> 's \<Rightarrow> 's" where
  "select_sector io sect s =
     (let s = outb io 0x1f2 1 s;
          s = outb io 0x1f3 (ucast sect) s;
          s = outb io 0x1f4 (ucast (drop_bit 8 sect)) s;
          s = outb io 0x1f5 (ucast (drop_bit 16 sect)) s;
          s = outb io 0x1f6 (ucast (drop_bit 24 sect OR 0xE0)) s
      in outb io 0x1f7 0x20 s)"

definition read_disk :: "'s ports \<Rightarrow> nat \<Rightarrow> nat \<Rightarrow> u32 \<Rightarrow> 's \<Rightarrow> mem \<Rightarrow> ('s \<times> mem) res" where
  "read_disk io fuel buf sect s m =
     bindE (wait_disk io fuel s) (\<lambda>s.
     bindE (wait_disk io fuel (select_sector io sect s)) (\<lambda>s.
     read_words io (SECTSIZE div 4) buf s m))"

text \<open>
  The variant of the BIOS build: the BIOS reaches only the first mebibyte, so a higher buffer is filled
  through the sector at 0x1000 by 32-bit moves.
\<close>

definition low_buffer :: "nat \<Rightarrow> nat" where
  "low_buffer buf = (if 1024 * 1024 \<le> buf then 0x1000 else buf)"

definition read_disk_bios :: "(u32 \<Rightarrow> nat \<Rightarrow> mem \<Rightarrow> mem res) \<Rightarrow> nat \<Rightarrow> u32 \<Rightarrow> mem \<Rightarrow> mem res" where
  "read_disk_bios bios buf sect m =
     (let addr = low_buffer buf in
      bindE (bios sect addr m) (\<lambda>m.
        if addr = buf then Inr m
        else foldE (\<lambda>i m. bindE (rd (addr + 4 * i) 4 m) (\<lambda>w. wr (buf + 4 * i) w m)) [0..<SECTSIZE div 4] m))"

section \<open>What the drive has to do\<close>

text \<open>
  The documented behaviour of a drive under the commands of \<open>read_disk\<close>: it becomes ready within the
  polls allowed, and after sector count 1, the four address registers (the upper half of the last one
  is the mode 0xE0) and command 0x20 it becomes ready again and delivers the 128 words of the addressed
  sector at the data port.
\<close>

fun pull :: "'s ports \<Rightarrow> nat \<Rightarrow> 's \<Rightarrow> u32 list \<times> 's" where
  "pull io 0 s = ([], s)"
| "pull io (Suc n) s = (let (w, s) = p_inl io 0x1f0 s; (ws, s) = pull io n s in (w # ws, s))"

definition lba :: "u8 \<Rightarrow> u8 \<Rightarrow> u8 \<Rightarrow> u8 \<Rightarrow> u32" where
  "lba b0 b1 b2 b3 = le_dec [b0, b1, b2, b3 AND 0xf]"

definition reads_sectors :: "'s ports \<Rightarrow> nat \<Rightarrow> (u32 \<Rightarrow> u32 list) \<Rightarrow> ('s \<Rightarrow> bool) \<Rightarrow> bool" where
  "reads_sectors io fuel words idle \<longleftrightarrow>
     (\<forall>s. idle s \<longrightarrow> (\<exists>s'. wait_disk io fuel s = Inr s' \<and> idle s')) \<and>
     (\<forall>s b0 b1 b2 b3. idle s \<longrightarrow>
       (\<exists>s1 s2. wait_disk io fuel
           (p_outb io 0x1f7 0x20 (p_outb io 0x1f6 (b3 OR 0xE0) (p_outb io 0x1f5 b2 (p_outb io 0x1f4 b1
             (p_outb io 0x1f3 b0 (p_outb io 0x1f2 1 s)))))) = Inr s1 \<and>
         pull io 128 s1 = (words (lba b0 b1 b2 b3), s2) \<and> idle s2))"

lemma and_nibble: "b AND 0xf = take_bit 4 (b :: u8)"
  by (simp add: take_bit_eq_mask mask_eq_exp_minus_1)

lemma lba_of_sect:
  "lba (ucast sect) (ucast (drop_bit 8 sect)) (ucast (drop_bit 16 sect)) (ucast (drop_bit 24 sect)) = take_bit 28 (sect :: u32)"
proof (rule bit_word_eqI)
  fix n
  assume "n < LENGTH(32)"
  then have "n < 32" by simp
  show "bit (lba (ucast sect) (ucast (drop_bit 8 sect)) (ucast (drop_bit 16 sect)) (ucast (drop_bit 24 sect))) n =
      bit (take_bit 28 sect) n"
    using \<open>n < 32\<close> unfolding lba_def and_nibble by (auto simp: bit_simps)
qed

lemma mode_bits: "ucast (drop_bit 24 sect OR 0xE0) = (ucast (drop_bit 24 (sect :: u32)) OR 0xE0 :: u8)"
  by (simp add: unsigned_or_eq)

lemma read_words_pull:
  "buf + 4 * n \<le> msize m \<Longrightarrow> pull io n s = (ws, s') \<Longrightarrow>
   read_words io n buf s m = Inr (s', poke m buf (concat (map (le_enc 4) ws)))"
proof (induction n arbitrary: buf s m ws)
  case 0
  then show ?case by simp
next
  case (Suc n)
  obtain w s1 where w: "p_inl io 0x1f0 s = (w, s1)" by force
  obtain ws1 where ws: "pull io n s1 = (ws1, s')" "ws = w # ws1"
    using Suc.prems(2) w by (auto simp: Let_def split: prod.splits)
  have "read_words io (Suc n) buf s m = read_words io n (buf + 4) s1 (poke m buf (le_enc 4 w))"
    using Suc.prems(1) w by (simp add: inl_def)
  also have "\<dots> = Inr (s', poke (poke m buf (le_enc 4 w)) (buf + 4) (concat (map (le_enc 4) ws1)))"
    using Suc.prems(1) ws(1) by (intro Suc.IH) simp_all
  finally show ?case
    using poke_append [of m buf "le_enc 4 w" "concat (map (le_enc 4) ws1)"] by (simp add: ws(2))
qed

lemma read_disk_pull:
  assumes "reads_sectors io fuel words idle" and "idle s" and "buf + 512 \<le> msize m"
  shows "\<exists>s'. read_disk io fuel buf sect s m =
      Inr (s', poke m buf (concat (map (le_enc 4) (words (take_bit 28 sect))))) \<and> idle s'"
proof -
  obtain s1 where s1: "wait_disk io fuel s = Inr s1" "idle s1"
    using assms(1,2) unfolding reads_sectors_def by blast
  obtain s2 s3 where s2: "wait_disk io fuel (p_outb io 0x1f7 0x20 (p_outb io 0x1f6 (ucast (drop_bit 24 sect) OR 0xE0)
        (p_outb io 0x1f5 (ucast (drop_bit 16 sect)) (p_outb io 0x1f4 (ucast (drop_bit 8 sect))
        (p_outb io 0x1f3 (ucast sect) (p_outb io 0x1f2 1 s1)))))) = Inr s2"
      "pull io 128 s2 = (words (lba (ucast sect) (ucast (drop_bit 8 sect)) (ucast (drop_bit 16 sect)) (ucast (drop_bit 24 sect))), s3)"
      "idle s3"
    using assms(1) s1(2) unfolding reads_sectors_def by meson
  have "wait_disk io fuel (select_sector io sect s1) = Inr s2"
    using s2(1) by (simp add: select_sector_def outb_def mode_bits)
  then show ?thesis
    using s1(1) s2(2,3) read_words_pull [OF _ s2(2), of buf m] assms(3)
    by (simp add: read_disk_def SECTSIZE_def lba_of_sect)
qed

section \<open>Sectors of an image\<close>

text \<open>
  The interface the loaders rely on: reading a sector stores its 512 bytes at the buffer. The reading
  code may use some memory of its own, the ranges \<open>scratch\<close>, and rely on a condition \<open>ready\<close> on memory that
  it keeps; buffers lie on a multiple of 16 and away from those ranges.
\<close>

locale scratch_source =
  fixes rdk :: "nat \<Rightarrow> u32 \<Rightarrow> mem \<Rightarrow> mem res" and sector :: "u32 \<Rightarrow> u8 list"
    and scratch :: "(nat \<times> nat) list" and ready :: "mem \<Rightarrow> bool"
  assumes length_sector: "length (sector s) = 512"
    and rdk_scratch: "ready m \<Longrightarrow> buf + 512 \<le> msize m \<Longrightarrow> buf mod 16 = 0 \<Longrightarrow> apart scratch buf 512 \<Longrightarrow>
      \<exists>m'. rdk buf s m = Inr m' \<and> peek m' buf 512 = sector s \<and> only_changed ((buf, 512) # scratch) m m' \<and> ready m'"
begin

text \<open>
  Reading refines a plain store of the sector: on memories that agree outside the scratch ranges, the
  results agree there again.
\<close>

lemma rdk_refines:
  assumes "only_changed scratch a m" and "ready m" and "buf + 512 \<le> msize m" and "buf mod 16 = 0" and "apart scratch buf 512"
  shows "\<exists>m'. rdk buf s m = Inr m' \<and> only_changed scratch (poke a buf (sector s)) m' \<and> ready m'"
proof -
  obtain m' where m': "rdk buf s m = Inr m'" "peek m' buf 512 = sector s" "only_changed ((buf, 512) # scratch) m m'" "ready m'"
    using rdk_scratch [OF assms(2-5)] by blast
  have "only_changed scratch (poke a buf (sector s)) m'"
    using only_changed_filled [OF assms(1), of buf "sector s" m'] m'(2,3) by (simp add: length_sector)
  with m' show ?thesis by blast
qed

end

text \<open>The plain case: nothing but the buffer changes.\<close>

locale sector_source =
  fixes rdk :: "nat \<Rightarrow> u32 \<Rightarrow> mem \<Rightarrow> mem res" and sector :: "u32 \<Rightarrow> u8 list"
  assumes sector_length: "length (sector s) = 512"
    and rdk_ok: "buf + 512 \<le> msize m \<Longrightarrow> rdk buf s m = Inr (poke m buf (sector s))"

sublocale sector_source \<subseteq> plain: scratch_source rdk sector "[]" "\<lambda>_. True"
proof
  fix m :: mem and buf :: nat and s :: u32
  assume "buf + 512 \<le> msize m"
  then show "\<exists>m'. rdk buf s m = Inr m' \<and> peek m' buf 512 = sector s \<and> only_changed [(buf, 512)] m m' \<and> True"
    using only_changed_poke [of buf "sector s" m] by (simp add: rdk_ok sector_length)
qed (rule sector_length)

text \<open>A drive that holds a disk image: it keeps what is written to its registers and the words to deliver.\<close>

record drive_state =
  regs :: "u16 \<Rightarrow> u8"
  fifo :: "u32 list"

definition image_words :: "mem \<Rightarrow> u32 \<Rightarrow> u32 list" where
  "image_words img sect = map (\<lambda>i. le_dec (peek img (512 * unat sect + 4 * i) 4)) [0..<128]"

definition ata_drive :: "mem \<Rightarrow> drive_state ports" where
  "ata_drive img =
     \<lparr>p_inb = (\<lambda>port s. (if port = 0x1f7 then 0x40 else regs s port, s)),
      p_inw = (\<lambda>port s. (0, s)),
      p_inl = (\<lambda>port s. if port = 0x1f0 \<and> fifo s \<noteq> [] then (hd (fifo s), s\<lparr>fifo := tl (fifo s)\<rparr>) else (0, s)),
      p_outb = (\<lambda>port v s.
        if port = 0x1f7 \<and> v = 0x20
        then s\<lparr>fifo := image_words img (lba (regs s 0x1f3) (regs s 0x1f4) (regs s 0x1f5) (regs s 0x1f6))\<rparr>
        else s\<lparr>regs := (regs s)(port := v)\<rparr>),
      p_outw = (\<lambda>port v s. s),
      p_outl = (\<lambda>port v s. s)\<rparr>"

definition drive_reset :: drive_state where
  "drive_reset = \<lparr>regs = (\<lambda>_. 0), fifo = []\<rparr>"

definition pio_disk :: "mem \<Rightarrow> nat \<Rightarrow> u32 \<Rightarrow> mem \<Rightarrow> mem res" where
  "pio_disk img buf sect m = bindE (read_disk (ata_drive img) 1 buf sect drive_reset m) (\<lambda>(_, m). Inr m)"

definition image_sector :: "mem \<Rightarrow> u32 \<Rightarrow> u8 list" where
  "image_sector img sect = peek img (512 * unat (take_bit 28 sect)) 512"

lemma image_words_bytes: "concat (map (le_enc 4) (image_words img sect)) = peek img (512 * unat sect) 512"
proof -
  have "concat (map (\<lambda>i. peek img (p + 4 * i) 4) [0..<n]) = peek img p (4 * n)" for p n
    using peek_append [of img p "4 * n" 4 for n] by (induction n) (simp_all add: peek_def peek_append add.commute)
  from this [of "512 * unat sect" 128] show ?thesis
    by (simp add: image_words_def o_def le_enc_dec_eq)
qed

lemma pull_fifo: "length ws = n \<Longrightarrow> fifo s = ws \<Longrightarrow> pull (ata_drive img) n s = (ws, s\<lparr>fifo := []\<rparr>)"
proof (induction n arbitrary: ws s)
  case 0
  then show ?case by simp
next
  case (Suc n)
  then obtain w ws' where "ws = w # ws'" "length ws' = n" by (cases ws) auto
  then show ?case using Suc.IH [of ws' "s\<lparr>fifo := ws'\<rparr>"] Suc.prems(2) by (simp add: ata_drive_def)
qed

lemma ata_reads_sectors: "reads_sectors (ata_drive img) 1 (image_words img) (\<lambda>_. True)"
proof -
  have ready: "wait_disk (ata_drive img) 1 s = Inr s" for s
    by (simp add: inb_def ata_drive_def)
  have nibble: "lba b0 b1 b2 (b3 OR 0xE0) = lba b0 b1 b2 b3" for b0 b1 b2 b3
    by (simp add: lba_def bit.conj_disj_distrib2)
  let ?out = "p_outb (ata_drive img)"
  have "pull (ata_drive img) 128 (?out 0x1f7 0x20 (?out 0x1f6 (b3 OR 0xE0) (?out 0x1f5 b2 (?out 0x1f4 b1
      (?out 0x1f3 b0 (?out 0x1f2 1 s)))))) = (image_words img (lba b0 b1 b2 b3), t)"
    if "t = (?out 0x1f7 0x20 (?out 0x1f6 (b3 OR 0xE0) (?out 0x1f5 b2 (?out 0x1f4 b1 (?out 0x1f3 b0 (?out 0x1f2 1 s))))))\<lparr>fifo := []\<rparr>"
    for b0 b1 b2 b3 s t
    unfolding that by (rule pull_fifo) (simp_all add: ata_drive_def image_words_def nibble)
  then show ?thesis
    unfolding reads_sectors_def ready by blast
qed

interpretation pio: sector_source "pio_disk img" "image_sector img" for img
proof
  fix buf and m :: mem and sect :: u32
  assume "buf + 512 \<le> msize m"
  then show "pio_disk img buf sect m = Inr (poke m buf (image_sector img sect))"
    using read_disk_pull [OF ata_reads_sectors TrueI, of buf m img sect drive_reset]
    by (auto simp: pio_disk_def image_words_bytes image_sector_def)
qed (simp add: image_sector_def)

text \<open>
  The BIOS variant is such a source too for buffers outside the bounce sector, up to the bounce sector
  itself, which a high buffer overwrites.
\<close>

lemma bounce_copy:
  assumes "addr + 512 \<le> buf" and "buf + 512 \<le> msize m" and "n \<le> 128"
  shows "foldE (\<lambda>i m. bindE (rd (addr + 4 * i) 4 m) (\<lambda>w. wr (buf + 4 * i) w m)) [0..<n] m =
    Inr (poke m buf (peek m addr (4 * n)))"
  using assms(3)
proof (induction n)
  case 0
  then show ?case by (simp add: peek_def)
next
  case (Suc n)
  have "peek (poke m buf (peek m addr (4 * n))) (addr + 4 * n) 4 = peek m (addr + 4 * n) 4"
    using Suc.prems assms(1) by simp
  moreover have "peek m addr (4 * Suc n) = peek m addr (4 * n) @ peek m (addr + 4 * n) 4"
    using peek_append [of m addr "4 * n" 4] by (simp add: add.commute)
  moreover have "poke (poke m buf (peek m addr (4 * n))) (buf + 4 * n) (peek m (addr + 4 * n) 4) =
      poke m buf (peek m addr (4 * n) @ peek m (addr + 4 * n) 4)"
    using poke_append [of m buf "peek m addr (4 * n)" "peek m (addr + 4 * n) 4"] by simp
  ultimately show ?case
    using Suc assms(1,2) by (simp add: foldE_append)
qed

lemma read_disk_bios_ok:
  assumes "\<And>m. low_buffer buf + 512 \<le> msize m \<Longrightarrow> bios sect (low_buffer buf) m = Inr (poke m (low_buffer buf) bs)"
    and "length bs = 512" and "buf + 512 \<le> msize m"
  shows "read_disk_bios bios buf sect m =
    Inr (if 1024 * 1024 \<le> buf then poke (poke m 0x1000 bs) buf bs else poke m buf bs)"
proof (cases "1024 * 1024 \<le> buf")
  case True
  then have "low_buffer buf = 0x1000" "(0x1000 :: nat) + 512 \<le> buf" by (simp_all add: low_buffer_def)
  then show ?thesis
    using assms(1) assms(2,3) bounce_copy [of "0x1000" buf "poke m 0x1000 bs" 128] True
    by (simp add: read_disk_bios_def SECTSIZE_def)
next
  case False
  then show ?thesis
    using assms(1) assms(3) by (simp add: read_disk_bios_def low_buffer_def)
qed

section \<open>Files on the disk and parts of memory\<close>

text \<open>Byte \<open>i\<close> of a file that starts at a sector, and a range of it.\<close>

definition file_byte :: "(u32 \<Rightarrow> u8 list) \<Rightarrow> u32 \<Rightarrow> nat \<Rightarrow> u8" where
  "file_byte sector start i = sector (start + of_nat (i div 512)) ! (i mod 512)"

definition file_range :: "(u32 \<Rightarrow> u8 list) \<Rightarrow> u32 \<Rightarrow> nat \<Rightarrow> nat \<Rightarrow> u8 list" where
  "file_range sector start off n = map (file_byte sector start) [off..<off + n]"

lemma length_file_range [simp]: "length (file_range sector start off n) = n"
  by (simp add: file_range_def)

lemma file_range_append:
  "file_range sector start off (a + b) = file_range sector start off a @ file_range sector start (off + a) b"
proof -
  have "[off..<off + (a + b)] = [off..<off + a] @ [off + a..<off + a + b]"
    using upt_add_eq_append [of off "off + a" b] by (simp add: add.assoc)
  then show ?thesis by (simp add: file_range_def)
qed

lemma file_range_sector:
  assumes "off mod 512 + n \<le> 512" and "length (sector (start + of_nat (off div 512))) = 512"
  shows "file_range sector start off n = take n (drop (off mod 512) (sector (start + of_nat (off div 512))))"
proof (rule nth_equalityI)
  fix j
  assume "j < length (file_range sector start off n)"
  then have j: "j < n" by simp
  have eq: "off + j = 512 * (off div 512) + (off mod 512 + j)" by simp
  have lt: "off mod 512 + j < 512" using j assms(1) by linarith
  have "(512 * q + k) div 512 = q \<and> (512 * q + k) mod 512 = k" if "k < 512" for q k :: nat
    using that by simp
  from this [OF lt, of "off div 512"] have "(off + j) div 512 = off div 512 \<and> (off + j) mod 512 = off mod 512 + j"
    unfolding eq [symmetric] .
  then show "file_range sector start off n ! j = take n (drop (off mod 512) (sector (start + of_nat (off div 512)))) ! j"
    using j assms by (simp add: file_range_def file_byte_def)
qed (use assms in simp)

lemma file_byte_image:
  assumes "unat start + i div 512 < 2 ^ 28"
  shows "file_byte (image_sector img) start i = mbyte img (512 * unat start + i)"
proof -
  have "unat (start + of_nat (i div 512)) = unat start + i div 512"
    using assms by (simp add: unat_add_ok unat_of_nat_ok)
  then have "512 * unat (take_bit 28 (start + of_nat (i div 512))) + i mod 512 = 512 * unat start + i"
    using assms by (simp add: unsigned_take_bit_eq take_bit_nat_eq_self)
  then show ?thesis by (simp add: file_byte_def image_sector_def)
qed

lemma file_range_image:
  assumes "unat start + (off + n) div 512 < 2 ^ 28"
  shows "file_range (image_sector img) start off n = peek img (512 * unat start + off) n"
proof (rule nth_equalityI)
  fix i
  assume "i < length (file_range (image_sector img) start off n)"
  then have "(off + i) div 512 \<le> (off + n) div 512" by (simp add: div_le_mono)
  then show "file_range (image_sector img) start off n ! i = peek img (512 * unat start + off) n ! i"
    using \<open>i < length _\<close> assms by (simp add: file_range_def file_byte_image add.assoc)
qed simp

text \<open>A part of a list of bytes, and a field of a structure in a sector buffer.\<close>

definition sub_bytes :: "nat \<Rightarrow> nat \<Rightarrow> u8 list \<Rightarrow> u8 list" where
  "sub_bytes p n bs = take n (drop p bs)"

lemma sub_bytes_peek: "p + n \<le> k \<Longrightarrow> sub_bytes p n (peek m q k) = peek m (q + p) n"
  by (rule nth_equalityI) (simp_all add: sub_bytes_def add.assoc)

lemma get_native_buffer:
  assumes "length bs = 512" and "msize data = 512" and "p + offsetof L f + field_size L f \<le> 512"
  shows "get_native Little L p f (poke data 0 bs) = Inr (le_dec (sub_bytes (p + offsetof L f) (field_size L f) bs))"
  using assms by (simp add: get_native_def val_def sub_bytes_def peek_poke_inside)

section \<open>Properties\<close>

text \<open>
  C36: reading a sector by programmed I/O. On any drive with the documented behaviour, read_disk stores
  the 512 bytes of the sector whose number is the low 28 bits of its argument, little-endian word by
  word, at the buffer, changes nothing else and leaves the drive idle for the next call.
\<close>

theorem read_disk_sector:
  assumes "reads_sectors io fuel words idle" and "idle s" and "buf + 512 \<le> msize m"
  shows "\<exists>s'. read_disk io fuel buf sect s m =
      Inr (s', poke m buf (concat (map (le_enc 4) (words (take_bit 28 sect))))) \<and> idle s'"
  by (rule read_disk_pull [OF assms])

theorem read_disk_sector_witness:
  "\<exists>s'. read_disk (ata_drive (blank 2048)) 1 16 3 drive_reset (blank 1024) =
     Inr (s', poke (blank 1024) 16 (concat (map (le_enc 4) (image_words (blank 2048) (take_bit 28 3)))))"
  using read_disk_sector [OF ata_reads_sectors TrueI, of 16 "blank 1024" "blank 2048" 3 drive_reset] by (simp add: blank_def)

end
