(* ===== verification/Elf.thy ===== *)
theory Elf
  imports Endian
begin

text \<open>
  The structures of \<open>bootloader/elf.h\<close>: their declarations over the types of the header, the layout a C
  compiler gives a declaration, and the macros that pack two numbers into one field. The loaders use the
  file and program headers, whose layouts are written out here as the loaders use them.
\<close>

unbundle bit_operations_syntax

section \<open>Types and layouts\<close>

text \<open>The scalar types of the header; addresses and offsets are named with the class they belong to.\<close>

datatype etype = EUchar | EHalf | EWord | ESword | EXword | ESxword | EAddr32 | EAddr64 | EOff32 | EOff64 | ESection

primrec esize :: "etype \<Rightarrow> nat" where
  "esize EUchar = 1"
| "esize EHalf = 2"
| "esize EWord = 4"
| "esize ESword = 4"
| "esize EXword = 8"
| "esize ESxword = 8"
| "esize EAddr32 = 4"
| "esize EAddr64 = 8"
| "esize EOff32 = 4"
| "esize EOff64 = 8"
| "esize ESection = 2"

text \<open>Name, type and number of elements of each member; a union of members of one type is one member.\<close>

type_synonym cdecl = "(string \<times> etype \<times> nat) list"

text \<open>
  The layout of a declaration: every member on a multiple of its alignment, which is its size but at
  most \<open>A\<close> (4 on i386, 8 on x86-64), and the whole padded to the largest alignment.
\<close>

definition ealign :: "nat \<Rightarrow> etype \<Rightarrow> nat" where
  "ealign A t = min A (esize t)"

definition gap :: "nat \<Rightarrow> nat \<Rightarrow> layout" where
  "gap off n = (if off mod n = 0 then [] else [(''pad'', n - off mod n)])"

fun c_fields :: "nat \<Rightarrow> nat \<Rightarrow> cdecl \<Rightarrow> layout" where
  "c_fields A off [] = []"
| "c_fields A off ((f, t, k) # ds) =
     (let g = gap off (ealign A t) in g @ (f, esize t * k) # c_fields A (off + struct_size g + esize t * k) ds)"

definition c_struct :: "nat \<Rightarrow> cdecl \<Rightarrow> layout" where
  "c_struct A ds =
     (let L = c_fields A 0 ds in L @ gap (struct_size L) (foldr (\<lambda>(f, t, k) n. max (ealign A t) n) ds 1))"

text \<open>The members one after the other, without padding.\<close>

definition members :: "cdecl \<Rightarrow> layout" where
  "members ds = map (\<lambda>(f, t, k). (f, esize t * k)) ds"

section \<open>Headers of files and programs\<close>

definition Elf32_Ehdr_layout :: layout where
  "Elf32_Ehdr_layout =
     [(''e_ident'', 16), (''e_type'', 2), (''e_machine'', 2), (''e_version'', 4), (''e_entry'', 4), (''e_phoff'', 4),
      (''e_shoff'', 4), (''e_flags'', 4), (''e_ehsize'', 2), (''e_phentsize'', 2), (''e_phnum'', 2),
      (''e_shentsize'', 2), (''e_shnum'', 2), (''e_shstrndx'', 2)]"

definition Elf64_Ehdr_layout :: layout where
  "Elf64_Ehdr_layout =
     [(''e_ident'', 16), (''e_type'', 2), (''e_machine'', 2), (''e_version'', 4), (''e_entry'', 8), (''e_phoff'', 8),
      (''e_shoff'', 8), (''e_flags'', 4), (''e_ehsize'', 2), (''e_phentsize'', 2), (''e_phnum'', 2),
      (''e_shentsize'', 2), (''e_shnum'', 2), (''e_shstrndx'', 2)]"

definition Elf32_Phdr_layout :: layout where
  "Elf32_Phdr_layout =
     [(''p_type'', 4), (''p_offset'', 4), (''p_vaddr'', 4), (''p_paddr'', 4), (''p_filesz'', 4), (''p_memsz'', 4),
      (''p_flags'', 4), (''p_align'', 4)]"

definition Elf64_Phdr_layout :: layout where
  "Elf64_Phdr_layout =
     [(''p_type'', 4), (''p_flags'', 4), (''p_offset'', 8), (''p_vaddr'', 8), (''p_paddr'', 8), (''p_filesz'', 8),
      (''p_memsz'', 8), (''p_align'', 8)]"

definition EM_X86_64 :: u16 where "EM_X86_64 = 62"
definition PT_LOAD :: u32 where "PT_LOAD = 1"
definition PT_INTERP :: u32 where "PT_INTERP = 3"
definition PT_TLS :: u32 where "PT_TLS = 7"
definition PT_GNU_STACK :: u32 where "PT_GNU_STACK = 0x6474e551"
definition PF_X :: u32 where "PF_X = 1"

section \<open>Declarations\<close>

definition Elf32_Ehdr_decl :: cdecl where
  "Elf32_Ehdr_decl =
     [(''e_ident'', EUchar, 16), (''e_type'', EHalf, 1), (''e_machine'', EHalf, 1), (''e_version'', EWord, 1),
      (''e_entry'', EAddr32, 1), (''e_phoff'', EOff32, 1), (''e_shoff'', EOff32, 1), (''e_flags'', EWord, 1),
      (''e_ehsize'', EHalf, 1), (''e_phentsize'', EHalf, 1), (''e_phnum'', EHalf, 1), (''e_shentsize'', EHalf, 1),
      (''e_shnum'', EHalf, 1), (''e_shstrndx'', EHalf, 1)]"

definition Elf64_Ehdr_decl :: cdecl where
  "Elf64_Ehdr_decl =
     [(''e_ident'', EUchar, 16), (''e_type'', EHalf, 1), (''e_machine'', EHalf, 1), (''e_version'', EWord, 1),
      (''e_entry'', EAddr64, 1), (''e_phoff'', EOff64, 1), (''e_shoff'', EOff64, 1), (''e_flags'', EWord, 1),
      (''e_ehsize'', EHalf, 1), (''e_phentsize'', EHalf, 1), (''e_phnum'', EHalf, 1), (''e_shentsize'', EHalf, 1),
      (''e_shnum'', EHalf, 1), (''e_shstrndx'', EHalf, 1)]"

definition Elf32_Shdr_decl :: cdecl where
  "Elf32_Shdr_decl =
     [(''sh_name'', EWord, 1), (''sh_type'', EWord, 1), (''sh_flags'', EWord, 1), (''sh_addr'', EAddr32, 1),
      (''sh_offset'', EOff32, 1), (''sh_size'', EWord, 1), (''sh_link'', EWord, 1), (''sh_info'', EWord, 1),
      (''sh_addralign'', EWord, 1), (''sh_entsize'', EWord, 1)]"

definition Elf64_Shdr_decl :: cdecl where
  "Elf64_Shdr_decl =
     [(''sh_name'', EWord, 1), (''sh_type'', EWord, 1), (''sh_flags'', EXword, 1), (''sh_addr'', EAddr64, 1),
      (''sh_offset'', EOff64, 1), (''sh_size'', EXword, 1), (''sh_link'', EWord, 1), (''sh_info'', EWord, 1),
      (''sh_addralign'', EXword, 1), (''sh_entsize'', EXword, 1)]"

definition Elf32_Chdr_decl :: cdecl where
  "Elf32_Chdr_decl =
     [(''ch_type'', EWord, 1), (''ch_size'', EWord, 1), (''ch_addralign'', EWord, 1)]"

definition Elf64_Chdr_decl :: cdecl where
  "Elf64_Chdr_decl =
     [(''ch_type'', EWord, 1), (''ch_reserved'', EWord, 1), (''ch_size'', EXword, 1), (''ch_addralign'', EXword, 1)]"

definition Elf32_Sym_decl :: cdecl where
  "Elf32_Sym_decl =
     [(''st_name'', EWord, 1), (''st_value'', EAddr32, 1), (''st_size'', EWord, 1), (''st_info'', EUchar, 1),
      (''st_other'', EUchar, 1), (''st_shndx'', ESection, 1)]"

definition Elf64_Sym_decl :: cdecl where
  "Elf64_Sym_decl =
     [(''st_name'', EWord, 1), (''st_info'', EUchar, 1), (''st_other'', EUchar, 1), (''st_shndx'', ESection, 1),
      (''st_value'', EAddr64, 1), (''st_size'', EXword, 1)]"

definition Elf32_Syminfo_decl :: cdecl where
  "Elf32_Syminfo_decl =
     [(''si_boundto'', EHalf, 1), (''si_flags'', EHalf, 1)]"

definition Elf64_Syminfo_decl :: cdecl where
  "Elf64_Syminfo_decl =
     [(''si_boundto'', EHalf, 1), (''si_flags'', EHalf, 1)]"

definition Elf32_Rel_decl :: cdecl where
  "Elf32_Rel_decl =
     [(''r_offset'', EAddr32, 1), (''r_info'', EWord, 1)]"

definition Elf64_Rel_decl :: cdecl where
  "Elf64_Rel_decl =
     [(''r_offset'', EAddr64, 1), (''r_info'', EXword, 1)]"

definition Elf32_Rela_decl :: cdecl where
  "Elf32_Rela_decl =
     [(''r_offset'', EAddr32, 1), (''r_info'', EWord, 1), (''r_addend'', ESword, 1)]"

definition Elf64_Rela_decl :: cdecl where
  "Elf64_Rela_decl =
     [(''r_offset'', EAddr64, 1), (''r_info'', EXword, 1), (''r_addend'', ESxword, 1)]"

definition Elf32_Phdr_decl :: cdecl where
  "Elf32_Phdr_decl =
     [(''p_type'', EWord, 1), (''p_offset'', EOff32, 1), (''p_vaddr'', EAddr32, 1), (''p_paddr'', EAddr32, 1),
      (''p_filesz'', EWord, 1), (''p_memsz'', EWord, 1), (''p_flags'', EWord, 1), (''p_align'', EWord, 1)]"

definition Elf64_Phdr_decl :: cdecl where
  "Elf64_Phdr_decl =
     [(''p_type'', EWord, 1), (''p_flags'', EWord, 1), (''p_offset'', EOff64, 1), (''p_vaddr'', EAddr64, 1),
      (''p_paddr'', EAddr64, 1), (''p_filesz'', EXword, 1), (''p_memsz'', EXword, 1), (''p_align'', EXword, 1)]"

definition Elf32_Dyn_decl :: cdecl where
  "Elf32_Dyn_decl =
     [(''d_tag'', ESword, 1), (''d_un'', EWord, 1)]"

definition Elf64_Dyn_decl :: cdecl where
  "Elf64_Dyn_decl =
     [(''d_tag'', ESxword, 1), (''d_un'', EXword, 1)]"

definition Elf32_Verdef_decl :: cdecl where
  "Elf32_Verdef_decl =
     [(''vd_version'', EHalf, 1), (''vd_flags'', EHalf, 1), (''vd_ndx'', EHalf, 1), (''vd_cnt'', EHalf, 1),
      (''vd_hash'', EWord, 1), (''vd_aux'', EWord, 1), (''vd_next'', EWord, 1)]"

definition Elf64_Verdef_decl :: cdecl where
  "Elf64_Verdef_decl =
     [(''vd_version'', EHalf, 1), (''vd_flags'', EHalf, 1), (''vd_ndx'', EHalf, 1), (''vd_cnt'', EHalf, 1),
      (''vd_hash'', EWord, 1), (''vd_aux'', EWord, 1), (''vd_next'', EWord, 1)]"

definition Elf32_Verdaux_decl :: cdecl where
  "Elf32_Verdaux_decl =
     [(''vda_name'', EWord, 1), (''vda_next'', EWord, 1)]"

definition Elf64_Verdaux_decl :: cdecl where
  "Elf64_Verdaux_decl =
     [(''vda_name'', EWord, 1), (''vda_next'', EWord, 1)]"

definition Elf32_Verneed_decl :: cdecl where
  "Elf32_Verneed_decl =
     [(''vn_version'', EHalf, 1), (''vn_cnt'', EHalf, 1), (''vn_file'', EWord, 1), (''vn_aux'', EWord, 1),
      (''vn_next'', EWord, 1)]"

definition Elf64_Verneed_decl :: cdecl where
  "Elf64_Verneed_decl =
     [(''vn_version'', EHalf, 1), (''vn_cnt'', EHalf, 1), (''vn_file'', EWord, 1), (''vn_aux'', EWord, 1),
      (''vn_next'', EWord, 1)]"

definition Elf32_Vernaux_decl :: cdecl where
  "Elf32_Vernaux_decl =
     [(''vna_hash'', EWord, 1), (''vna_flags'', EHalf, 1), (''vna_other'', EHalf, 1), (''vna_name'', EWord, 1),
      (''vna_next'', EWord, 1)]"

definition Elf64_Vernaux_decl :: cdecl where
  "Elf64_Vernaux_decl =
     [(''vna_hash'', EWord, 1), (''vna_flags'', EHalf, 1), (''vna_other'', EHalf, 1), (''vna_name'', EWord, 1),
      (''vna_next'', EWord, 1)]"

definition Elf32_auxv_t_decl :: cdecl where
  "Elf32_auxv_t_decl =
     [(''a_type'', EWord, 1), (''a_un'', EWord, 1)]"

definition Elf64_auxv_t_decl :: cdecl where
  "Elf64_auxv_t_decl =
     [(''a_type'', EXword, 1), (''a_un'', EXword, 1)]"

definition Elf32_Nhdr_decl :: cdecl where
  "Elf32_Nhdr_decl =
     [(''n_namesz'', EWord, 1), (''n_descsz'', EWord, 1), (''n_type'', EWord, 1)]"

definition Elf64_Nhdr_decl :: cdecl where
  "Elf64_Nhdr_decl =
     [(''n_namesz'', EWord, 1), (''n_descsz'', EWord, 1), (''n_type'', EWord, 1)]"

definition Elf32_Move_decl :: cdecl where
  "Elf32_Move_decl =
     [(''m_value'', EXword, 1), (''m_info'', EWord, 1), (''m_poffset'', EWord, 1), (''m_repeat'', EHalf, 1),
      (''m_stride'', EHalf, 1)]"

definition Elf64_Move_decl :: cdecl where
  "Elf64_Move_decl =
     [(''m_value'', EXword, 1), (''m_info'', EXword, 1), (''m_poffset'', EXword, 1), (''m_repeat'', EHalf, 1),
      (''m_stride'', EHalf, 1)]"

definition Elf32_gptab_decl :: cdecl where
  "Elf32_gptab_decl =
     [(''gt_g_value'', EWord, 1), (''gt_bytes'', EWord, 1)]"

definition Elf32_RegInfo_decl :: cdecl where
  "Elf32_RegInfo_decl =
     [(''ri_gprmask'', EWord, 1), (''ri_cprmask'', EWord, 4), (''ri_gp_value'', ESword, 1)]"

definition Elf_Options_decl :: cdecl where
  "Elf_Options_decl =
     [(''kind'', EUchar, 1), (''size'', EUchar, 1), (''section'', ESection, 1), (''info'', EWord, 1)]"

definition Elf_Options_Hw_decl :: cdecl where
  "Elf_Options_Hw_decl =
     [(''hwp_flags1'', EWord, 1), (''hwp_flags2'', EWord, 1)]"

definition Elf32_Lib_decl :: cdecl where
  "Elf32_Lib_decl =
     [(''l_name'', EWord, 1), (''l_time_stamp'', EWord, 1), (''l_checksum'', EWord, 1), (''l_version'', EWord, 1),
      (''l_flags'', EWord, 1)]"

definition Elf64_Lib_decl :: cdecl where
  "Elf64_Lib_decl =
     [(''l_name'', EWord, 1), (''l_time_stamp'', EWord, 1), (''l_checksum'', EWord, 1), (''l_version'', EWord, 1),
      (''l_flags'', EWord, 1)]"

definition Elf_MIPS_ABIFlags_v0_decl :: cdecl where
  "Elf_MIPS_ABIFlags_v0_decl =
     [(''version'', EHalf, 1), (''isa_level'', EUchar, 1), (''isa_rev'', EUchar, 1), (''gpr_size'', EUchar, 1),
      (''cpr1_size'', EUchar, 1), (''cpr2_size'', EUchar, 1), (''fp_abi'', EUchar, 1), (''isa_ext'', EWord, 1),
      (''ases'', EWord, 1), (''flags1'', EWord, 1), (''flags2'', EWord, 1)]"

text \<open>All of them but the two move records, with their sizes.\<close>

definition elf_structs :: "(cdecl \<times> nat) list" where
  "elf_structs =
     [(Elf32_Ehdr_decl, 52), (Elf64_Ehdr_decl, 64), (Elf32_Shdr_decl, 40), (Elf64_Shdr_decl, 64),
      (Elf32_Chdr_decl, 12), (Elf64_Chdr_decl, 24), (Elf32_Sym_decl, 16), (Elf64_Sym_decl, 24),
      (Elf32_Syminfo_decl, 4), (Elf64_Syminfo_decl, 4), (Elf32_Rel_decl, 8), (Elf64_Rel_decl, 16),
      (Elf32_Rela_decl, 12), (Elf64_Rela_decl, 24), (Elf32_Phdr_decl, 32), (Elf64_Phdr_decl, 56),
      (Elf32_Dyn_decl, 8), (Elf64_Dyn_decl, 16), (Elf32_Verdef_decl, 20), (Elf64_Verdef_decl, 20),
      (Elf32_Verdaux_decl, 8), (Elf64_Verdaux_decl, 8), (Elf32_Verneed_decl, 16), (Elf64_Verneed_decl, 16),
      (Elf32_Vernaux_decl, 16), (Elf64_Vernaux_decl, 16), (Elf32_auxv_t_decl, 8), (Elf64_auxv_t_decl, 16),
      (Elf32_Nhdr_decl, 12), (Elf64_Nhdr_decl, 12), (Elf32_gptab_decl, 8), (Elf32_RegInfo_decl, 24),
      (Elf_Options_decl, 8), (Elf_Options_Hw_decl, 8), (Elf32_Lib_decl, 20), (Elf64_Lib_decl, 20),
      (Elf_MIPS_ABIFlags_v0_decl, 24)]"

section \<open>Packed fields\<close>

text \<open>
  The macros at the width of the fields they pack; those of the move records serve fields of two widths,
  and the 64-bit symbol and move macros are names for the 32-bit ones.
\<close>

definition ELF32_ST_BIND :: "u8 \<Rightarrow> u8" where
  "ELF32_ST_BIND v = drop_bit 4 v"

definition ELF32_ST_TYPE :: "u8 \<Rightarrow> u8" where
  "ELF32_ST_TYPE v = v AND 0xf"

definition ELF32_ST_INFO :: "u8 \<Rightarrow> u8 \<Rightarrow> u8" where
  "ELF32_ST_INFO b t = push_bit 4 b + (t AND 0xf)"

definition ELF32_ST_VISIBILITY :: "u8 \<Rightarrow> u8" where
  "ELF32_ST_VISIBILITY v = v AND 0x03"

definition ELF32_R_SYM :: "u32 \<Rightarrow> u32" where
  "ELF32_R_SYM v = drop_bit 8 v"

definition ELF32_R_TYPE :: "u32 \<Rightarrow> u32" where
  "ELF32_R_TYPE v = v AND 0xff"

definition ELF32_R_INFO :: "u32 \<Rightarrow> u32 \<Rightarrow> u32" where
  "ELF32_R_INFO s t = push_bit 8 s + (t AND 0xff)"

definition ELF64_R_SYM :: "u64 \<Rightarrow> u64" where
  "ELF64_R_SYM i = drop_bit 32 i"

definition ELF64_R_TYPE :: "u64 \<Rightarrow> u64" where
  "ELF64_R_TYPE i = i AND 0xffffffff"

definition ELF64_R_INFO :: "u64 \<Rightarrow> u64 \<Rightarrow> u64" where
  "ELF64_R_INFO s t = push_bit 32 s + t"

definition ELF32_M_SYM :: "'a::len word \<Rightarrow> 'a word" where
  "ELF32_M_SYM i = drop_bit 8 i"

definition ELF32_M_SIZE :: "'a::len word \<Rightarrow> u8" where
  "ELF32_M_SIZE i = ucast i"

definition ELF32_M_INFO :: "'a::len word \<Rightarrow> 'a word \<Rightarrow> 'a word" where
  "ELF32_M_INFO s n = push_bit 8 s + ucast (ucast n :: u8)"

section \<open>Layouts\<close>

text \<open>No structure of the list has padding, on either machine, and each has its documented size.\<close>

lemma elf_structs_packed:
  "list_all (\<lambda>(ds, n). sum_list (map (\<lambda>(f, t, k). esize t * k) ds) = n \<and>
     struct_size (c_struct 4 ds) = n \<and> struct_size (c_struct 8 ds) = n) elf_structs"
  by code_simp

lemmas elf_decl_defs = Elf32_Ehdr_decl_def Elf64_Ehdr_decl_def Elf32_Shdr_decl_def Elf64_Shdr_decl_def
  Elf32_Chdr_decl_def Elf64_Chdr_decl_def Elf32_Sym_decl_def Elf64_Sym_decl_def Elf32_Syminfo_decl_def
  Elf64_Syminfo_decl_def Elf32_Rel_decl_def Elf64_Rel_decl_def Elf32_Rela_decl_def Elf64_Rela_decl_def
  Elf32_Phdr_decl_def Elf64_Phdr_decl_def Elf32_Dyn_decl_def Elf64_Dyn_decl_def Elf32_Verdef_decl_def
  Elf64_Verdef_decl_def Elf32_Verdaux_decl_def Elf64_Verdaux_decl_def Elf32_Verneed_decl_def
  Elf64_Verneed_decl_def Elf32_Vernaux_decl_def Elf64_Vernaux_decl_def Elf32_auxv_t_decl_def
  Elf64_auxv_t_decl_def Elf32_Nhdr_decl_def Elf64_Nhdr_decl_def Elf32_Move_decl_def Elf64_Move_decl_def
  Elf32_gptab_decl_def Elf32_RegInfo_decl_def Elf_Options_decl_def Elf_Options_Hw_decl_def Elf32_Lib_decl_def
  Elf64_Lib_decl_def Elf_MIPS_ABIFlags_v0_decl_def

lemma elf_members_distinct: "list_all (\<lambda>(ds, n). distinct (map fst ds)) elf_structs"
  by (simp add: elf_structs_def elf_decl_defs)

text \<open>A layout as large as its members together is the members one after the other.\<close>

lemma struct_size_append: "struct_size (L @ M) = struct_size L + struct_size M"
  by (simp add: struct_size_def)

lemma gap_empty: "0 < n \<Longrightarrow> struct_size (gap off n) = 0 \<Longrightarrow> gap off n = []"
  using mod_less_divisor [of n off] by (auto simp: gap_def struct_size_def simp del: mod_less_divisor split: if_splits)

lemma ealign_pos: "0 < A \<Longrightarrow> 0 < ealign A t"
  by (cases t) (simp_all add: ealign_def)

lemma c_fields_size: "struct_size (members ds) \<le> struct_size (c_fields A off ds)"
proof (induction A off ds rule: c_fields.induct)
  case (2 A off f t k ds)
  then show ?case by (simp add: Let_def members_def struct_size_def)
qed (simp add: members_def)

lemma c_fields_packed: "0 < A \<Longrightarrow> struct_size (c_fields A off ds) = struct_size (members ds) \<Longrightarrow> c_fields A off ds = members ds"
proof (induction A off ds rule: c_fields.induct)
  case (2 A off f t k ds)
  let ?g = "gap off (ealign A t)" and ?L = "c_fields A (off + struct_size (gap off (ealign A t)) + esize t * k) ds"
  have sz: "struct_size ?g + struct_size ?L = struct_size (members ds)"
    using "2.prems"(2) by (simp add: Let_def members_def struct_size_def)
  moreover have "struct_size (members ds) \<le> struct_size ?L" by (rule c_fields_size)
  ultimately have "struct_size ?g = 0" and L: "struct_size ?L = struct_size (members ds)" by simp_all
  then have "?g = []" using gap_empty ealign_pos "2.prems"(1) by blast
  then show ?case using "2.IH" [OF refl "2.prems"(1)] L by (simp add: Let_def members_def)
qed (simp add: members_def)

lemma c_struct_packed:
  assumes "0 < A" and "struct_size (c_struct A ds) = struct_size (members ds)"
  shows "c_struct A ds = members ds"
proof -
  let ?n = "foldr (\<lambda>(f, t, k) n. max (ealign A t) n) ds 1"
  have n: "0 < ?n" by (induction ds) auto
  have "struct_size (c_fields A 0 ds) = struct_size (members ds)" "struct_size (gap (struct_size (c_fields A 0 ds)) ?n) = 0"
    using assms(2) c_fields_size [of ds A 0] by (simp_all add: c_struct_def Let_def struct_size_append)
  then have "c_fields A 0 ds = members ds" "gap (struct_size (c_fields A 0 ds)) ?n = []"
    using gap_empty [OF n] c_fields_packed [OF assms(1)] by blast+
  then show ?thesis by (simp add: c_struct_def Let_def)
qed

lemma elf_struct_members:
  assumes "(ds, n) \<in> set elf_structs" and "A \<in> {4, 8}"
  shows "c_struct A ds = members ds \<and> well_laid (members ds) n"
proof -
  have m: "struct_size (members ds) = n" "struct_size (c_struct A ds) = n"
    using elf_structs_packed assms by (auto simp: list_all_iff members_def struct_size_def comp_def case_prod_unfold)
  moreover have "map fst (members ds) = map fst ds" by (simp add: members_def comp_def case_prod_unfold)
  then have "distinct (map fst (members ds))" using elf_members_distinct assms(1) by (auto simp: list_all_iff)
  ultimately show ?thesis using assms(2) by (auto intro!: c_struct_packed well_laid_distinct)
qed

lemma header_members:
  "members Elf32_Ehdr_decl = Elf32_Ehdr_layout" "members Elf64_Ehdr_decl = Elf64_Ehdr_layout"
  "members Elf32_Phdr_decl = Elf32_Phdr_layout" "members Elf64_Phdr_decl = Elf64_Phdr_layout"
  by (simp_all add: members_def elf_decl_defs Elf32_Ehdr_layout_def Elf64_Ehdr_layout_def Elf32_Phdr_layout_def Elf64_Phdr_layout_def)

text \<open>The move records are the ones whose size depends on the machine or on padding.\<close>

lemma move_records:
  "struct_size (c_struct 4 Elf32_Move_decl) = 20" "struct_size (c_struct 8 Elf32_Move_decl) = 24"
  "struct_size (c_struct 4 Elf64_Move_decl) = 28" "struct_size (c_struct 8 Elf64_Move_decl) = 32"
  by code_simp+

section \<open>Packing and unpacking\<close>

text \<open>Splitting a word at a bit and putting the halves together again.\<close>

lemma split_join: "push_bit n (drop_bit n w) + (w AND mask n) = (w :: 'a::len word)"
proof -
  have "push_bit n (drop_bit n w) + take_bit n w = w"
    by (simp add: bits_ident)
  then show ?thesis by (simp add: take_bit_eq_mask)
qed

text \<open>A sum of a number shifted up and one below the shift: the halves, the upper one cut to the room there is.\<close>

lemma join_split:
  fixes x y :: "'a::len word"
  shows "drop_bit n (push_bit n x + (y AND mask n)) = take_bit (LENGTH('a) - n) x"
    "(push_bit n x + (y AND mask n)) AND mask n = y AND mask n"
proof -
  have sum: "push_bit n x + take_bit n y = push_bit n x OR take_bit n y"
    by (intro disjunctive_add) (auto simp: bit_simps)
  show "drop_bit n (push_bit n x + (y AND mask n)) = take_bit (LENGTH('a) - n) x"
    unfolding take_bit_eq_mask [symmetric] sum by (rule bit_word_eqI) (auto simp: bit_simps)
  show "(push_bit n x + (y AND mask n)) AND mask n = y AND mask n"
    unfolding take_bit_eq_mask [symmetric] sum by (rule bit_word_eqI) (auto simp: bit_simps)
qed

lemma masks: "(0xf :: 'a::len word) = mask 4" "(0xff :: 'a word) = mask 8" "(0xffffffff :: 'a word) = mask 32"
  by (simp_all add: mask_eq_exp_minus_1)

lemma byte_mask: "ucast (ucast w :: u8) = (w AND mask 8 :: 'a::len word)"
  by (rule bit_word_eqI) (auto simp: bit_simps)

lemma byte_of_mask: "(w AND mask 8 = v AND mask 8) = (ucast w = (ucast v :: u8))" for w v :: "'a::len word"
proof -
  have "ucast (ucast u :: u8) = (u AND mask 8 :: 'a word)" for u by (rule byte_mask)
  moreover have "ucast (u AND mask 8) = (ucast u :: u8)" for u :: "'a word"
    by (rule bit_word_eqI) (auto simp: bit_simps dest: bit_imp_le_length)
  ultimately show ?thesis by metis
qed

lemmas pack_defs = ELF32_ST_BIND_def ELF32_ST_TYPE_def ELF32_ST_INFO_def ELF32_R_SYM_def ELF32_R_TYPE_def ELF32_R_INFO_def
  ELF64_R_SYM_def ELF64_R_TYPE_def ELF64_R_INFO_def ELF32_M_SYM_def ELF32_M_SIZE_def ELF32_M_INFO_def masks byte_mask

text \<open>
  The packed fields of symbols, relocations and move records lose nothing. Taking a field apart and
  packing the parts gives the field back, for every value of it; and what is packed comes out again: the
  lower part at its width, the upper part cut to the bits the field has left for it. The 64-bit
  relocation macro alone does not mask its lower part: it is masked here, and without the mask a type
  of more than 32 bits is added to the symbol.
\<close>

theorem elf_fields_roundtrip:
  fixes v b t :: u8 and w s k :: u32 and i S K :: u64 and m x n :: "'a::len word"
  shows "ELF32_ST_INFO (ELF32_ST_BIND v) (ELF32_ST_TYPE v) = v \<and>
     ELF32_R_INFO (ELF32_R_SYM w) (ELF32_R_TYPE w) = w \<and>
     ELF64_R_INFO (ELF64_R_SYM i) (ELF64_R_TYPE i) = i \<and>
     ELF32_M_INFO (ELF32_M_SYM m) (ucast (ELF32_M_SIZE m)) = m \<and>
     ELF32_ST_BIND (ELF32_ST_INFO b t) = take_bit 4 b \<and> ELF32_ST_TYPE (ELF32_ST_INFO b t) = t AND 0xf \<and>
     ELF32_R_SYM (ELF32_R_INFO s k) = take_bit 24 s \<and> ELF32_R_TYPE (ELF32_R_INFO s k) = k AND 0xff \<and>
     ELF64_R_SYM (ELF64_R_INFO S (K AND 0xffffffff)) = take_bit 32 S \<and>
     ELF64_R_TYPE (ELF64_R_INFO S (K AND 0xffffffff)) = K AND 0xffffffff \<and>
     ELF64_R_INFO S 0x100000000 = ELF64_R_INFO (S + 1) 0 \<and>
     ELF32_M_SYM (ELF32_M_INFO x n) = take_bit (LENGTH('a) - 8) x \<and> ELF32_M_SIZE (ELF32_M_INFO x n) = ucast n"
proof -
  have "ELF64_R_INFO S 0x100000000 = ELF64_R_INFO (S + 1) 0"
    by (simp add: ELF64_R_INFO_def push_bit_eq_mult distrib_right)
  then show ?thesis using join_split [of 4 b t] join_split [of 8 s k] join_split [of 32 S K] join_split [of 8 x n]
    by (simp add: pack_defs split_join byte_of_mask)
qed

end
