(* ===== verification/Vmlinux.thy ===== *)
theory Vmlinux
  imports Disk Elf
begin

text \<open>
  The ELF loader \<open>bootloader/vmlinux.c\<close> on the headers of \<open>elf.h\<close>, and the first stage
  \<open>mbr.c\<close> that starts it. Both run on a physical memory and read the disk through \<open>rdk\<close>; pointers of this
  32-bit code are 32-bit words. The local sector \<open>data\<close> is an object of its own.
\<close>

unbundle bit_operations_syntax

section \<open>The loader\<close>

definition SECTOR_DATA_START :: nat where
  "SECTOR_DATA_START = 0x1000"

definition k_memzero :: "nat \<Rightarrow> u32 \<Rightarrow> mem \<Rightarrow> mem res" where
  "k_memzero addr n m = foldE (\<lambda>i. wr (addr + i) [0]) [0..<unat n] m"

definition copy_sector :: "nat \<Rightarrow> nat \<Rightarrow> nat \<Rightarrow> mem \<Rightarrow> mem res" where
  "copy_sector dst src n m = foldE (\<lambda>i m. bindE (rd (src + i) 1 m) (\<lambda>b. wr (dst + i) b m)) [0..<n] m"

lemma unat_room: "unat (512 - foff mod 512 :: u32) = 512 - unat foff mod 512" "0 < unat (512 - foff mod 512 :: u32)"
proof -
  have r: "unat (foff mod 512) = unat foff mod 512" by (simp add: unat_mod)
  then have "unat (foff mod 512) \<le> unat (512 :: u32)" by simp
  from unat_sub_ok [OF this] show eq: "unat (512 - foff mod 512) = 512 - unat foff mod 512" by (simp add: r)
  have "unat foff mod 512 < 512" by simp
  then show "0 < unat (512 - foff mod 512)" unfolding eq by linarith
qed

text \<open>One round reads the sector that holds the current offset and copies what it has of the range.\<close>

function k_readfile :: "(nat \<Rightarrow> u32 \<Rightarrow> mem \<Rightarrow> mem res) \<Rightarrow> nat \<Rightarrow> u32 \<Rightarrow> u32 \<Rightarrow> u32 \<Rightarrow> mem \<Rightarrow> mem res" where
  "k_readfile rdk dst fstart foff fsize m =
     (if fsize = 0 then Inr m
      else
        let read_start = foff mod 512;
            sect = fstart + foff div 512;
            nb = 512 - read_start;
            nb = (if fsize < nb then fsize else nb)
        in
          bindE (rdk SECTOR_DATA_START sect m) (\<lambda>m.
          bindE (copy_sector dst (SECTOR_DATA_START + unat read_start) (unat nb) m) (\<lambda>m.
          k_readfile rdk (dst + unat nb) fstart (foff + nb) (fsize - nb) m)))"
  by pat_completeness auto
termination
proof (relation "measure (\<lambda>(rdk, dst, fstart, foff, fsize, m). unat fsize)")
  fix rdk :: "nat \<Rightarrow> u32 \<Rightarrow> mem \<Rightarrow> mem res" and dst :: nat and fstart foff fsize :: u32 and m m1 m2 :: mem
    and r s nb nb' :: u32
  assume f: "fsize \<noteq> 0" and r: "r = foff mod 512" and nb: "nb = 512 - r" and nb': "nb' = (if fsize < nb then fsize else nb)"
  have "0 < unat nb" unfolding nb r by (rule unat_room)
  then have "0 < unat nb'" "unat nb' \<le> unat fsize"
    using f nb' by (auto simp: unat_gt_0 word_less_nat_alt)
  then show "((rdk, dst + unat nb', fstart, foff + nb', fsize - nb', m2), rdk, dst, fstart, foff, fsize, m)
      \<in> measure (\<lambda>(rdk, dst, fstart, foff, fsize, m). unat fsize)"
    by (simp add: unat_sub_ok)
qed simp

declare k_readfile.simps [simp del]

text \<open>One program header at offset \<open>p\<close> of the local sector. The type is tested with a bit mask.\<close>

definition load_segment :: "(nat \<Rightarrow> u32 \<Rightarrow> mem \<Rightarrow> mem res) \<Rightarrow> u32 \<Rightarrow> mem \<Rightarrow> nat \<Rightarrow> mem \<Rightarrow> mem res" where
  "load_segment rdk sector data p m =
     bindE (get_native Little Elf64_Phdr_layout p ''p_type'' data) (\<lambda>t :: u32.
     if t AND PT_LOAD = 0 then Inr m
     else
       bindE (get_native Little Elf64_Phdr_layout p ''p_paddr'' data) (\<lambda>paddr :: u64.
       bindE (get_native Little Elf64_Phdr_layout p ''p_offset'' data) (\<lambda>off :: u64.
       bindE (get_native Little Elf64_Phdr_layout p ''p_filesz'' data) (\<lambda>fsz :: u64.
       bindE (get_native Little Elf64_Phdr_layout p ''p_memsz'' data) (\<lambda>msz :: u64.
       bindE (k_readfile rdk (unat (ucast paddr :: u32)) sector (ucast off) (ucast fsz) m) (\<lambda>m.
       k_memzero (unat (ucast (paddr + fsz) :: u32)) (ucast (msz - fsz)) m))))))"

definition load_nth :: "(nat \<Rightarrow> u32 \<Rightarrow> mem \<Rightarrow> mem res) \<Rightarrow> u32 \<Rightarrow> u32 \<Rightarrow> nat \<Rightarrow> mem \<times> mem \<Rightarrow> (mem \<times> mem) res" where
  "load_nth rdk sector phoff i = (\<lambda>(data, m).
     let off = phoff + of_nat i * of_nat (struct_size Elf64_Phdr_layout) in
     bindE (rdk 0 (sector + off div 512) data) (\<lambda>data.
     bindE (load_segment rdk sector data (unat (off mod 512)) m) (\<lambda>m. Inr (data, m))))"

text \<open>\<open>__elf_main\<close>: the address it jumps to and the memory at that moment.\<close>

definition elf_main :: "(nat \<Rightarrow> u32 \<Rightarrow> mem \<Rightarrow> mem res) \<Rightarrow> u32 \<Rightarrow> mem \<Rightarrow> (u32 \<times> mem) res" where
  "elf_main rdk sector m =
     bindE (rdk 0 sector (blank 512)) (\<lambda>data.
     bindE (get_native Little Elf64_Ehdr_layout 0 ''e_entry'' data) (\<lambda>entry :: u64.
     bindE (get_native Little Elf64_Ehdr_layout 0 ''e_phnum'' data) (\<lambda>phnum :: u16.
     bindE (get_native Little Elf64_Ehdr_layout 0 ''e_phoff'' data) (\<lambda>phoff :: u64.
     bindE (foldE (load_nth rdk sector (ucast phoff)) [0..<unat phnum] (data, m)) (\<lambda>(data, m).
     Inr (ucast entry, m))))))"

text \<open>\<open>vmlinux.S\<close>: the second sector of the loader, then its C code with the sector of the kernel.\<close>

definition vmlinux_start :: "(nat \<Rightarrow> u32 \<Rightarrow> mem \<Rightarrow> mem res) \<Rightarrow> mem \<Rightarrow> (u32 \<times> mem) res" where
  "vmlinux_start rdk m = bindE (rdk 0x1400 532 m) (elf_main rdk 539)"

text \<open>\<open>mbr.c\<close>: it loads one sector and calls it with the sector of the kernel.\<close>

definition mbr_start :: "(nat \<Rightarrow> u32 \<Rightarrow> mem \<Rightarrow> mem res) \<Rightarrow> mem \<Rightarrow> (nat \<times> u32 \<times> mem) res" where
  "mbr_start rdk m = bindE (rdk 0x1200 (3 + 528) m) (\<lambda>m. Inr (0x1200, 3 + 536, m))"

section \<open>Reading a file from its sectors\<close>

lemma foldE_zero: "addr + n \<le> msize m \<Longrightarrow> foldE (\<lambda>i. wr (addr + i) [0]) [0..<n] m = Inr (poke m addr (replicate n 0))"
proof (induction n)
  case (Suc n)
  have "poke (poke m addr (replicate n 0)) (addr + n) [0] = poke m addr (replicate n 0 @ [0])"
    using poke_append [of m addr "replicate n 0" "[0]"] by simp
  then show ?case using Suc by (simp add: foldE_append replicate_append_same)
qed simp

lemma k_memzero_ok: "addr + unat n \<le> msize m \<Longrightarrow> k_memzero addr n m = Inr (poke m addr (replicate (unat n) 0))"
  by (simp add: k_memzero_def foldE_zero)

lemma copy_sector_ok:
  assumes "dst + n \<le> src \<or> src + n \<le> dst" and "dst + n \<le> msize m" and "src + n \<le> msize m"
  shows "copy_sector dst src n m = Inr (poke m dst (peek m src n))"
proof -
  have "foldE (\<lambda>i m. bindE (rd (src + i) 1 m) (\<lambda>b. wr (dst + i) b m)) [0..<k] m = Inr (poke m dst (peek m src k))"
    if "k \<le> n" for k
    using that
  proof (induction k)
    case 0
    then show ?case by (simp add: peek_def)
  next
    case (Suc k)
    have "peek (poke m dst (peek m src k)) (src + k) 1 = peek m (src + k) 1"
      using Suc.prems assms(1) by (intro peek_poke_disjoint) auto
    moreover have "poke (poke m dst (peek m src k)) (dst + k) (peek m (src + k) 1) = poke m dst (peek m src (Suc k))"
      using poke_append [of m dst "peek m src k" "peek m (src + k) 1"] peek_append [of m src k 1] by simp
    ultimately show ?case using Suc assms(2,3) by (simp add: foldE_append)
  qed
  then show ?thesis by (simp add: copy_sector_def)
qed

context sector_source
begin

lemma k_readfile_ok:
  "unat foff + unat fsize < 2 ^ 32 \<Longrightarrow> dst + unat fsize \<le> msize m \<Longrightarrow> 0x1200 \<le> msize m \<Longrightarrow>
   0x1200 \<le> dst \<or> dst + unat fsize \<le> 0x1000 \<Longrightarrow>
   \<exists>m'. k_readfile rdk dst fstart foff fsize m = Inr m' \<and>
     peek m' dst (unat fsize) = file_range sector fstart (unat foff) (unat fsize) \<and>
     only_changed [(dst, unat fsize), (0x1000, 512)] m m'"
proof (induction "unat fsize" arbitrary: dst foff fsize m rule: less_induct)
  case less
  show ?case
  proof (cases "fsize = 0")
    case True
    then show ?thesis
      by (simp add: k_readfile.simps [of rdk dst] only_changed_def peek_def file_range_def)
  next
    case False
    let ?nb = "if fsize < 512 - foff mod 512 then fsize else 512 - foff mod 512"
    let ?n = "unat ?nb" and ?s = "fstart + of_nat (unat foff div 512)"
    have n: "0 < ?n" "?n \<le> unat fsize" "unat foff mod 512 + ?n \<le> 512"
      using False unat_room [of foff] by (auto simp: unat_gt_0 word_less_nat_alt)
    have sect: "fstart + foff div 512 = ?s"
      by (simp add: word_of_nat_unat_eq [of "foff div 512"] unat_div)
    have r: "unat (foff mod 512) = unat foff mod 512" by (simp add: unat_mod)
    let ?m1 = "poke m 0x1000 (sector ?s)"
    let ?bs = "take ?n (drop (unat foff mod 512) (sector ?s))"
    let ?m2 = "poke ?m1 dst ?bs"
    have rd1: "rdk SECTOR_DATA_START ?s m = Inr ?m1"
      using less.prems(3) unfolding SECTOR_DATA_START_def by (intro rdk_ok) simp
    have pk: "peek ?m1 (0x1000 + unat foff mod 512) ?n = ?bs"
      using n(3) by (subst peek_poke_inside) (simp_all add: sector_length)
    have cp: "copy_sector dst (SECTOR_DATA_START + unat foff mod 512) ?n ?m1 = Inr ?m2"
    proof -
      have "copy_sector dst (0x1000 + unat foff mod 512) ?n ?m1 =
          Inr (poke ?m1 dst (peek ?m1 (0x1000 + unat foff mod 512) ?n))"
        using less.prems(2-4) n by (intro copy_sector_ok) auto
      then show ?thesis unfolding pk SECTOR_DATA_START_def .
    qed
    have sub: "unat (fsize - ?nb) = unat fsize - ?n" using n(2) by (rule unat_sub_ok)
    have add: "unat (foff + ?nb) = unat foff + ?n" using n(2) less.prems(1) by (intro unat_add_ok) simp
    have bs: "?bs = file_range sector fstart (unat foff) ?n"
      using n(3) by (simp add: file_range_sector sector_length)
    then have lbs: "length ?bs = ?n" by simp
    have "\<exists>m'. k_readfile rdk (dst + ?n) fstart (foff + ?nb) (fsize - ?nb) ?m2 = Inr m' \<and>
        peek m' (dst + ?n) (unat (fsize - ?nb)) = file_range sector fstart (unat (foff + ?nb)) (unat (fsize - ?nb)) \<and>
        only_changed [(dst + ?n, unat (fsize - ?nb)), (0x1000, 512)] ?m2 m'"
      using less.prems n by (intro less.hyps) (auto simp: sub add)
    then obtain m' where m': "k_readfile rdk (dst + ?n) fstart (foff + ?nb) (fsize - ?nb) ?m2 = Inr m'"
        "peek m' (dst + ?n) (unat fsize - ?n) = file_range sector fstart (unat foff + ?n) (unat fsize - ?n)"
        "only_changed [(dst + ?n, unat fsize - ?n), (0x1000, 512)] ?m2 m'"
      unfolding sub add by blast
    have run: "k_readfile rdk dst fstart foff fsize m = Inr m'"
      using False rd1 cp m'(1) by (simp add: k_readfile.simps [of rdk dst] Let_def sect r)
    have "peek m' dst ?n = peek ?m2 dst ?n"
      using less.prems(4) n by (intro only_changed_peek [OF m'(3)]) (auto simp: apart_def)
    also have "\<dots> = ?bs" using lbs by simp
    finally have "peek m' dst (?n + (unat fsize - ?n)) =
        file_range sector fstart (unat foff) (?n + (unat fsize - ?n))"
      unfolding peek_append file_range_append m'(2) bs by simp
    moreover have "?n + (unat fsize - ?n) = unat fsize" using n(2) by simp
    moreover have "only_changed [(dst, unat fsize), (0x1000, 512)] m m'"
      using m'(3) n(2) lbs less.prems by (auto simp: only_changed_def mbyte_poke sector_length)
    ultimately show ?thesis using run by auto
  qed
qed

end

section \<open>Segments\<close>

record segment =
  s_type :: u32
  s_offset :: u64
  s_paddr :: u64
  s_filesz :: u64
  s_memsz :: u64

definition segment_at :: "u8 list \<Rightarrow> nat \<Rightarrow> segment" where
  "segment_at bs p =
     \<lparr>s_type = le_dec (sub_bytes p 4 bs), s_offset = le_dec (sub_bytes (p + 8) 8 bs), s_paddr = le_dec (sub_bytes (p + 24) 8 bs),
      s_filesz = le_dec (sub_bytes (p + 32) 8 bs), s_memsz = le_dec (sub_bytes (p + 40) 8 bs)\<rparr>"

lemma elf_sizes [simp]:
  "struct_size Elf64_Phdr_layout = 56" "struct_size Elf64_Ehdr_layout = 64"
  "struct_size Elf32_Phdr_layout = 32" "struct_size Elf32_Ehdr_layout = 52"
  by (simp_all add: struct_size_def Elf64_Phdr_layout_def Elf64_Ehdr_layout_def Elf32_Phdr_layout_def Elf32_Ehdr_layout_def)

lemma elf_offsets:
  "offsetof Elf64_Phdr_layout ''p_type'' = 0" "field_size Elf64_Phdr_layout ''p_type'' = 4"
  "offsetof Elf64_Phdr_layout ''p_offset'' = 8" "field_size Elf64_Phdr_layout ''p_offset'' = 8"
  "offsetof Elf64_Phdr_layout ''p_paddr'' = 24" "field_size Elf64_Phdr_layout ''p_paddr'' = 8"
  "offsetof Elf64_Phdr_layout ''p_filesz'' = 32" "field_size Elf64_Phdr_layout ''p_filesz'' = 8"
  "offsetof Elf64_Phdr_layout ''p_memsz'' = 40" "field_size Elf64_Phdr_layout ''p_memsz'' = 8"
  "offsetof Elf64_Ehdr_layout ''e_entry'' = 24" "field_size Elf64_Ehdr_layout ''e_entry'' = 8"
  "offsetof Elf64_Ehdr_layout ''e_phoff'' = 32" "field_size Elf64_Ehdr_layout ''e_phoff'' = 8"
  "offsetof Elf64_Ehdr_layout ''e_phnum'' = 56" "field_size Elf64_Ehdr_layout ''e_phnum'' = 2"
  by (simp_all add: Elf64_Phdr_layout_def Elf64_Ehdr_layout_def)

text \<open>The segments the loader takes, and those that the format has it load.\<close>

definition taken :: "segment \<Rightarrow> bool" where
  "taken g \<longleftrightarrow> s_type g AND PT_LOAD \<noteq> 0"

definition loadable :: "segment \<Rightarrow> bool" where
  "loadable g \<longleftrightarrow> s_type g = PT_LOAD"

definition fits :: "nat \<Rightarrow> segment \<Rightarrow> bool" where
  "fits n g \<longleftrightarrow> 0x1200 \<le> unat (s_paddr g) \<and> unat (s_paddr g) + unat (s_memsz g) \<le> n \<and>
     unat (s_paddr g) + unat (s_memsz g) < 2 ^ 32 \<and>
     unat (s_filesz g) \<le> unat (s_memsz g) \<and> unat (s_offset g) + unat (s_filesz g) < 2 ^ 32"

definition loaded :: "(u32 \<Rightarrow> u8 list) \<Rightarrow> u32 \<Rightarrow> segment \<Rightarrow> mem \<Rightarrow> bool" where
  "loaded sector start g m \<longleftrightarrow>
     peek m (unat (s_paddr g)) (unat (s_filesz g)) = file_range sector start (unat (s_offset g)) (unat (s_filesz g)) \<and>
     peek m (unat (s_paddr g) + unat (s_filesz g)) (unat (s_memsz g) - unat (s_filesz g)) =
       replicate (unat (s_memsz g) - unat (s_filesz g)) 0"

definition seg_range :: "segment \<Rightarrow> nat \<times> nat" where
  "seg_range g = (unat (s_paddr g), unat (s_memsz g))"

lemma unat_ucast_32: "unat (w :: u64) < 2 ^ 32 \<Longrightarrow> unat (ucast w :: u32) = unat w"
  by (simp add: unsigned_ucast_eq take_bit_nat_eq_self)

lemma loaded_frame:
  assumes "loaded sector start g m" and "only_changed rs m m'" and "apart rs (unat (s_paddr g)) (unat (s_memsz g))"
    and "unat (s_filesz g) \<le> unat (s_memsz g)"
  shows "loaded sector start g m'"
proof -
  have "apart rs (unat (s_paddr g)) (unat (s_filesz g))"
    "apart rs (unat (s_paddr g) + unat (s_filesz g)) (unat (s_memsz g) - unat (s_filesz g))"
    using assms(3,4) by (fastforce simp: apart_def)+
  then show ?thesis
    using assms(1) only_changed_peek [OF assms(2)] by (simp add: loaded_def)
qed

text \<open>Program header \<open>i\<close> of the file at sector \<open>start\<close>.\<close>

definition nth_segment :: "(u32 \<Rightarrow> u8 list) \<Rightarrow> u32 \<Rightarrow> u32 \<Rightarrow> nat \<Rightarrow> segment" where
  "nth_segment sector start phoff i =
     segment_at (sector (start + of_nat ((unat phoff + 56 * i) div 512))) ((unat phoff + 56 * i) mod 512)"

text \<open>
  What a file needs for the loader: no program header crosses a sector boundary, the segments of a kind \<open>P\<close>
  lie above the sector buffer inside the memory, and they do not overlap.
\<close>

definition elf_ok :: "(segment \<Rightarrow> bool) \<Rightarrow> (u32 \<Rightarrow> u8 list) \<Rightarrow> u32 \<Rightarrow> u32 \<Rightarrow> nat \<Rightarrow> nat \<Rightarrow> bool" where
  "elf_ok P sector start phoff n ram \<longleftrightarrow> 0x1200 \<le> ram \<and>
     (\<forall>i<n. unat phoff + 56 * i < 2 ^ 32 \<and> (unat phoff + 56 * i) mod 512 + 56 \<le> 512 \<and>
        (P (nth_segment sector start phoff i) \<longrightarrow> fits ram (nth_segment sector start phoff i))) \<and>
     (\<forall>j<n. \<forall>i<j. P (nth_segment sector start phoff i) \<longrightarrow> P (nth_segment sector start phoff j) \<longrightarrow>
        apart [seg_range (nth_segment sector start phoff j)]
          (unat (s_paddr (nth_segment sector start phoff i))) (unat (s_memsz (nth_segment sector start phoff i))))"

definition seg_ranges :: "(segment \<Rightarrow> bool) \<Rightarrow> (u32 \<Rightarrow> u8 list) \<Rightarrow> u32 \<Rightarrow> u32 \<Rightarrow> nat \<Rightarrow> (nat \<times> nat) list" where
  "seg_ranges P sector start phoff n =
     (0x1000, 512) # map seg_range (filter P (map (nth_segment sector start phoff) [0..<n]))"

lemma kind_cong:
  assumes "\<forall>i<n. P (nth_segment sector start phoff i) = Q (nth_segment sector start phoff i)"
  shows "elf_ok P sector start phoff n ram = elf_ok Q sector start phoff n ram"
    "seg_ranges P sector start phoff n = seg_ranges Q sector start phoff n"
proof -
  show "elf_ok P sector start phoff n ram = elf_ok Q sector start phoff n ram"
    using assms by (auto simp: elf_ok_def)
  have "filter P (map (nth_segment sector start phoff) [0..<n]) = filter Q (map (nth_segment sector start phoff) [0..<n])"
    using assms by (intro filter_cong) auto
  then show "seg_ranges P sector start phoff n = seg_ranges Q sector start phoff n"
    by (simp add: seg_ranges_def)
qed

lemma elf_ok_Suc: "elf_ok taken sector start phoff (Suc n) ram \<Longrightarrow> elf_ok taken sector start phoff n ram"
  by (simp add: elf_ok_def)

context sector_source
begin

lemma load_segment_ok:
  assumes "msize data = 512" and "length bs = 512" and "p + 56 \<le> 512" and "g = segment_at bs p"
    and "0x1200 \<le> msize m" and "taken g \<Longrightarrow> fits (msize m) g"
  shows "\<exists>m'. load_segment rdk start (poke data 0 bs) p m = Inr m' \<and>
    (if taken g then loaded sector start g m' \<and> only_changed [seg_range g, (0x1000, 512)] m m' else m' = m)"
proof (cases "taken g")
  case False
  then show ?thesis
    using assms(1-4) by (simp add: load_segment_def get_native_buffer elf_offsets taken_def segment_at_def)
next
  case True
  let ?a = "unat (s_paddr g)" and ?f = "unat (s_filesz g)" and ?z = "unat (s_memsz g)"
  have ft: "0x1200 \<le> ?a" "?a + ?z \<le> msize m" "?a + ?z < 2 ^ 32" "?f \<le> ?z" "unat (s_offset g) + ?f < 2 ^ 32"
    using assms(6) [OF True] by (auto simp: fits_def)
  have w1: "unat (ucast (s_filesz g) :: u32) = ?f" "unat (ucast (s_offset g) :: u32) = unat (s_offset g)"
    "unat (ucast (s_paddr g) :: u32) = ?a"
    using ft by (simp_all add: unat_ucast_32)
  have "unat (s_memsz g - s_filesz g) = ?z - ?f" using ft(4) by (rule unat_sub_ok)
  then have w2: "unat (ucast (s_memsz g - s_filesz g) :: u32) = ?z - ?f"
    using ft by (simp add: unat_ucast_32)
  have "unat (s_paddr g + s_filesz g) = ?a + ?f" using ft by (intro unat_add_ok) simp
  then have w3: "unat (ucast (s_paddr g + s_filesz g) :: u32) = ?a + ?f"
    using ft by (simp add: unat_ucast_32)
  obtain m1 where m1: "k_readfile rdk ?a start (ucast (s_offset g)) (ucast (s_filesz g)) m = Inr m1"
      "peek m1 ?a ?f = file_range sector start (unat (s_offset g)) ?f"
      "only_changed [(?a, ?f), (0x1000, 512)] m m1"
    using k_readfile_ok [of "ucast (s_offset g)" "ucast (s_filesz g)" ?a m start] ft assms(5) unfolding w1 by auto
  let ?m2 = "poke m1 (?a + ?f) (replicate (?z - ?f) 0)"
  have size1: "msize m1 = msize m" using m1(3) by (simp add: only_changed_def)
  have m2: "k_memzero (?a + ?f) (ucast (s_memsz g - s_filesz g)) m1 = Inr ?m2"
    using ft size1 k_memzero_ok [of "?a + ?f" "ucast (s_memsz g - s_filesz g)" m1] by (simp add: w2)
  have run: "load_segment rdk start (poke data 0 bs) p m = Inr ?m2"
    using True assms(1-4) m1(1) m2 w1(3) w3
    by (simp add: load_segment_def get_native_buffer elf_offsets taken_def segment_at_def)
  have "loaded sector start g ?m2"
    using m1(2) by (simp add: loaded_def)
  moreover have "only_changed [seg_range g, (0x1000, 512)] m ?m2"
    using m1(3) ft(4) by (auto simp: only_changed_def seg_range_def mbyte_poke)
  ultimately show ?thesis using run True by auto
qed

lemma load_nth_ok:
  assumes "msize data = 512" and "unat phoff + 56 * i < 2 ^ 32" and "(unat phoff + 56 * i) mod 512 + 56 \<le> 512"
    and "0x1200 \<le> msize m" and "taken (nth_segment sector start phoff i) \<Longrightarrow> fits (msize m) (nth_segment sector start phoff i)"
  shows "\<exists>data' m'. load_nth rdk start phoff i (data, m) = Inr (data', m') \<and> msize data' = 512 \<and>
    (if taken (nth_segment sector start phoff i)
     then loaded sector start (nth_segment sector start phoff i) m' \<and> only_changed [seg_range (nth_segment sector start phoff i), (0x1000, 512)] m m'
     else m' = m)"
proof -
  let ?o = "unat phoff + 56 * i" and ?off = "phoff + of_nat i * 56 :: u32"
  have "?off = of_nat ?o" by simp
  moreover have "unat (of_nat ?o :: u32) = ?o" using assms(2) by (intro unat_of_nat_ok) simp
  ultimately have o: "unat ?off = ?o" by (simp only:)
  have sec: "?off div 512 = of_nat (?o div 512)" "unat (?off mod 512) = ?o mod 512"
    by (simp_all only: word_of_nat_unat_eq [of "?off div 512"] unat_div unat_mod o) simp_all
  let ?bs = "sector (start + of_nat (?o div 512))"
  have "rdk 0 (start + ?off div 512) data = Inr (poke data 0 ?bs)"
    unfolding sec using assms(1) by (intro rdk_ok) simp
  moreover obtain m' where "load_segment rdk start (poke data 0 ?bs) (?o mod 512) m = Inr m'"
      "if taken (nth_segment sector start phoff i)
       then loaded sector start (nth_segment sector start phoff i) m' \<and> only_changed [seg_range (nth_segment sector start phoff i), (0x1000, 512)] m m'
       else m' = m"
    using load_segment_ok [OF assms(1) sector_length [of "start + of_nat (?o div 512)"] assms(3) refl assms(4), of start] assms(5)
    unfolding nth_segment_def by blast
  ultimately show ?thesis
    using assms(1) sec(2) by (simp add: load_nth_def Let_def)
qed

lemma load_all_ok:
  assumes "msize data = 512"
  shows "elf_ok taken sector start phoff n (msize m) \<Longrightarrow>
    \<exists>data' m'. foldE (load_nth rdk start phoff) [0..<n] (data, m) = Inr (data', m') \<and> msize data' = 512 \<and>
      (\<forall>i<n. taken (nth_segment sector start phoff i) \<longrightarrow> loaded sector start (nth_segment sector start phoff i) m') \<and>
      only_changed (seg_ranges taken sector start phoff n) m m'"
proof (induction n)
  case 0
  then show ?case using assms by (simp add: only_changed_def)
next
  case (Suc n)
  let ?g = "nth_segment sector start phoff"
  obtain data1 m1 where 1: "foldE (load_nth rdk start phoff) [0..<n] (data, m) = Inr (data1, m1)" "msize data1 = 512"
      "\<forall>i<n. taken (?g i) \<longrightarrow> loaded sector start (?g i) m1" "only_changed (seg_ranges taken sector start phoff n) m m1"
    using Suc.IH [OF elf_ok_Suc [OF Suc.prems]] by blast
  have size1: "msize m1 = msize m" using 1(4) by (simp add: only_changed_def)
  have okn: "unat phoff + 56 * n < 2 ^ 32" "(unat phoff + 56 * n) mod 512 + 56 \<le> 512" "0x1200 \<le> msize m1"
    "taken (?g n) \<Longrightarrow> fits (msize m1) (?g n)"
    using Suc.prems size1 unfolding elf_ok_def by simp_all
  obtain data2 m2 where 2: "load_nth rdk start phoff n (data1, m1) = Inr (data2, m2)" "msize data2 = 512"
      "if taken (?g n) then loaded sector start (?g n) m2 \<and> only_changed [seg_range (?g n), (0x1000, 512)] m1 m2 else m2 = m1"
    using load_nth_ok [OF 1(2) okn] by blast
  have "loaded sector start (?g i) m2" if "i < Suc n" "taken (?g i)" for i
  proof (cases "i = n \<or> \<not> taken (?g n)")
    case True
    then show ?thesis using 1(3) 2(3) that by (cases "i = n") auto
  next
    case False
    then have i: "i < n" and lg: "taken (?g n)" using that by auto
    have f: "fits (msize m) (?g i)" using Suc.prems that unfolding elf_ok_def by blast
    have "apart [seg_range (?g n)] (unat (s_paddr (?g i))) (unat (s_memsz (?g i)))"
      using Suc.prems i lg that unfolding elf_ok_def by blast
    then have "apart [seg_range (?g n), (0x1000, 512)] (unat (s_paddr (?g i))) (unat (s_memsz (?g i)))"
      using f by (auto simp: apart_def fits_def)
    then show ?thesis
      using loaded_frame [of sector start "?g i" m1 _ m2] 1(3) 2(3) lg i that f by (auto simp: fits_def)
  qed
  moreover have "only_changed (seg_ranges taken sector start phoff (Suc n)) m m2"
  proof (cases "taken (?g n)")
    case True
    then show ?thesis using 2(3) by (intro only_changed_trans [OF 1(4)]) (auto simp: seg_ranges_def)
  next
    case False
    then show ?thesis using 2(3) 1(4) by (simp add: seg_ranges_def)
  qed
  ultimately show ?case using 1(1) 2(1,2) by (simp add: foldE_append)
qed

lemma elf_main_ok:
  fixes start :: u32
  defines "phnum \<equiv> unat (le_dec (sub_bytes 56 2 (sector start)) :: u16)"
    and "phoff \<equiv> ucast (le_dec (sub_bytes 32 8 (sector start)) :: u64) :: u32"
  assumes ok: "elf_ok taken sector start phoff phnum (msize m)"
  shows "\<exists>m'. elf_main rdk start m = Inr (ucast (le_dec (sub_bytes 24 8 (sector start)) :: u64), m') \<and>
    (\<forall>i<phnum. taken (nth_segment sector start phoff i) \<longrightarrow> loaded sector start (nth_segment sector start phoff i) m') \<and>
    only_changed (seg_ranges taken sector start phoff phnum) m m'"
proof -
  let ?h = "sector start"
  have rd: "rdk 0 start (blank 512) = Inr (poke (blank 512) 0 ?h)"
    by (rule rdk_ok) (simp add: blank_def)
  have sz: "msize (poke (blank 512) 0 ?h) = 512" by (simp add: blank_def)
  obtain data' m' where "foldE (load_nth rdk start phoff) [0..<phnum] (poke (blank 512) 0 ?h, m) = Inr (data', m')"
      "\<forall>i<phnum. taken (nth_segment sector start phoff i) \<longrightarrow> loaded sector start (nth_segment sector start phoff i) m'"
      "only_changed (seg_ranges taken sector start phoff phnum) m m'"
    using load_all_ok [OF sz ok] by blast
  moreover have "get_native Little Elf64_Ehdr_layout 0 ''e_entry'' (poke (blank 512) 0 ?h) = Inr (le_dec (sub_bytes 24 8 ?h) :: u64)"
    "get_native Little Elf64_Ehdr_layout 0 ''e_phoff'' (poke (blank 512) 0 ?h) = Inr (le_dec (sub_bytes 32 8 ?h) :: u64)"
    "get_native Little Elf64_Ehdr_layout 0 ''e_phnum'' (poke (blank 512) 0 ?h) = Inr (le_dec (sub_bytes 56 2 ?h) :: u16)"
    by (simp_all add: get_native_buffer sector_length elf_offsets msize_blank)
  ultimately show ?thesis
    using rd by (auto simp: elf_main_def phoff_def phnum_def)
qed

end

text \<open>The mask test takes every odd type for taken.\<close>

lemma odd_types_are_loaded:
  "taken g \<longleftrightarrow> odd (s_type g)" "t \<in> {PT_LOAD, PT_INTERP, PT_TLS, PT_GNU_STACK} \<Longrightarrow> taken (g\<lparr>s_type := t\<rparr>)"
proof -
  show "taken g \<longleftrightarrow> odd (s_type g)"
    by (simp add: taken_def PT_LOAD_def and_one_eq odd_iff_mod_2_eq_one)
  show "t \<in> {PT_LOAD, PT_INTERP, PT_TLS, PT_GNU_STACK} \<Longrightarrow> taken (g\<lparr>s_type := t\<rparr>)"
    by (auto simp: taken_def PT_LOAD_def PT_INTERP_def PT_TLS_def PT_GNU_STACK_def)
qed

section \<open>Properties\<close>

text \<open>
  C24: the ELF loader loads. For a file at a sector of the disk whose program headers do not cross
  sectors and whose loadable segments (those of type \<open>PT_LOAD\<close>) lie apart above 0x1200 inside the memory,
  the loader returns the entry point of the header with every loadable segment in place: the bytes of the
  file at its physical address, zeros up to its memory size. Only these segments and the sector buffer at
  0x1000 change. The file has no other header of an odd type: the loader tests one bit of the type and would
  load such a segment, too.
\<close>

theorem elf_main_loads:
  fixes start :: u32 and img :: mem
  defines "sector \<equiv> image_sector img"
  defines "phnum \<equiv> unat (le_dec (sub_bytes 56 2 (sector start)) :: u16)"
    and "phoff \<equiv> ucast (le_dec (sub_bytes 32 8 (sector start)) :: u64) :: u32"
  assumes "elf_ok loadable sector start phoff phnum (msize m)"
    and "\<forall>i<phnum. odd (s_type (nth_segment sector start phoff i)) \<longrightarrow> loadable (nth_segment sector start phoff i)"
  shows "\<exists>m'. elf_main (pio_disk img) start m = Inr (ucast (le_dec (sub_bytes 24 8 (sector start)) :: u64), m') \<and>
    (\<forall>i<phnum. loadable (nth_segment sector start phoff i) \<longrightarrow> loaded sector start (nth_segment sector start phoff i) m') \<and>
    only_changed (seg_ranges loadable sector start phoff phnum) m m'"
proof -
  have kind: "\<forall>i<phnum. taken (nth_segment sector start phoff i) = loadable (nth_segment sector start phoff i)"
    using assms(5) by (auto simp: odd_types_are_loaded(1) loadable_def PT_LOAD_def)
  show ?thesis
    using pio.elf_main_ok [of img start m] assms(4) kind kind_cong [OF kind] unfolding sector_def phnum_def phoff_def by auto
qed

definition demo_header :: "u8 list" where
  "demo_header = replicate 24 0 @ [0, 0x20, 0, 0, 0, 0, 0, 0] @ [64, 0, 0, 0, 0, 0, 0, 0] @ replicate 16 0 @ [1, 0] @
     replicate 6 0 @ [1, 0, 0, 0] @ replicate 20 0 @ [0, 0x20, 0, 0, 0, 0, 0, 0] @ [4, 0, 0, 0, 0, 0, 0, 0] @
     [8, 0, 0, 0, 0, 0, 0, 0] @ replicate 8 0"

definition demo_elf :: mem where
  "demo_elf = poke (blank 512) 0 demo_header"

lemma length_demo_header: "length demo_header = 120"
  by (simp add: demo_header_def)

lemma demo_elf_bytes: "p + n \<le> 120 \<Longrightarrow> sub_bytes p n (image_sector demo_elf 0) = sub_bytes p n demo_header"
  by (simp add: image_sector_def sub_bytes_peek demo_elf_def peek_poke_inside length_demo_header) (simp add: sub_bytes_def)

lemma demo_header_bytes:
  "sub_bytes 56 2 demo_header = [1, 0]"
  "sub_bytes 32 8 demo_header = [64, 0, 0, 0, 0, 0, 0, 0]"
  "sub_bytes 24 8 demo_header = [0, 0x20, 0, 0, 0, 0, 0, 0]"
  "sub_bytes 64 4 demo_header = [1, 0, 0, 0]"
  "sub_bytes 72 8 demo_header = [0, 0, 0, 0, 0, 0, 0, 0]"
  "sub_bytes 88 8 demo_header = [0, 0x20, 0, 0, 0, 0, 0, 0]"
  "sub_bytes 96 8 demo_header = [4, 0, 0, 0, 0, 0, 0, 0]"
  "sub_bytes 104 8 demo_header = [8, 0, 0, 0, 0, 0, 0, 0]"
  by (code_simp)+

lemma demo_elf_fields:
  "le_dec (sub_bytes 56 2 (image_sector demo_elf 0)) = (1 :: u16)"
  "le_dec (sub_bytes 32 8 (image_sector demo_elf 0)) = (64 :: u64)"
  "le_dec (sub_bytes 24 8 (image_sector demo_elf 0)) = (0x2000 :: u64)"
  "segment_at (image_sector demo_elf 0) 64 =
     \<lparr>s_type = 1, s_offset = 0, s_paddr = 0x2000, s_filesz = 4, s_memsz = 8\<rparr>"
  by (simp_all add: demo_elf_bytes demo_header_bytes segment_at_def push_bit_eq_mult)

theorem elf_main_loads_witness:
  "\<exists>m'. elf_main (pio_disk demo_elf) 0 (blank 0x3000) = Inr (0x2000, m') \<and>
     loaded (image_sector demo_elf) 0 \<lparr>s_type = 1, s_offset = 0, s_paddr = 0x2000, s_filesz = 4, s_memsz = 8\<rparr> m'"
proof -
  let ?g = "\<lparr>s_type = 1, s_offset = 0, s_paddr = 0x2000, s_filesz = 4, s_memsz = 8\<rparr> :: segment"
  have g: "nth_segment (image_sector demo_elf) 0 64 0 = ?g"
    by (simp add: nth_segment_def demo_elf_fields)
  have "elf_ok loadable (image_sector demo_elf) 0 64 1 (msize (blank 0x3000))"
    by (simp add: elf_ok_def g fits_def msize_blank)
  then show ?thesis
    using elf_main_loads [of demo_elf 0 "blank 0x3000"]
    by (auto simp: demo_elf_fields g loadable_def PT_LOAD_def)
qed

end
