(* ===== verification/Gettext.thy ===== *)
theory Gettext
  imports Vmlinux
begin

text \<open>
  \<open>bootloader/gettext.c\<close>, the tool that cuts the executable segments out of an ELF file to make the
  sector images of the boot code. The two open files are the state \<open>f\<close>; \<open>lseek\<close>, \<open>read\<close> and \<open>write\<close>
  are a record of operations on it, and what the program relies on is the locale \<open>regular_files\<close>.
\<close>

unbundle bit_operations_syntax

section \<open>The program\<close>

record 'f file_ops =
  op_lseek :: "u64 \<Rightarrow> 'f \<Rightarrow> u64 \<times> 'f"
  op_read :: "nat \<Rightarrow> 'f \<Rightarrow> u8 list option \<times> 'f"
  op_write :: "u8 list \<Rightarrow> 'f \<Rightarrow> u64 \<times> 'f"

text \<open>A run of the tool either ends by \<open>perror\<close> and exit code 1 (\<open>Inl\<close>, with the text) or goes on.\<close>

type_synonym 'a run = "string + 'a"

definition thenX :: "'a run \<Rightarrow> ('a \<Rightarrow> 'b run) \<Rightarrow> 'b run" where
  "thenX r g = (case r of Inl e \<Rightarrow> Inl e | Inr x \<Rightarrow> g x)"

definition xreadat :: "'f file_ops \<Rightarrow> u64 \<Rightarrow> u64 \<Rightarrow> 'f \<Rightarrow> (u8 list \<times> 'f) run" where
  "xreadat ops offset count f =
     (let (r, f) = op_lseek ops offset f in
      if r \<noteq> offset then Inl ''seek''
      else case op_read ops (unat count) f of (None, f) \<Rightarrow> Inl ''read''
        | (Some bs, f) \<Rightarrow> if of_nat (length bs) \<noteq> count then Inl ''read'' else Inr (bs, f))"

function xfcopy :: "'f file_ops \<Rightarrow> u64 \<Rightarrow> u64 \<Rightarrow> 'f \<Rightarrow> 'f run" where
  "xfcopy ops count offset f =
     (if count = 0 then Inr f
      else
        let nr = (if 512 < count then 512 else count) in
        case xreadat ops offset nr f of Inl e \<Rightarrow> Inl e
        | Inr (buf, f) \<Rightarrow>
          case op_write ops buf f of (w, f) \<Rightarrow>
            if w \<noteq> nr then Inl ''write'' else xfcopy ops (count - nr) (offset + nr) f)"
  by pat_completeness auto
termination
proof (relation "measure (\<lambda>(ops, count, offset, f). unat count)")
  fix ops :: "'f file_ops" and count offset nr w :: u64 and f f' f'' :: 'f
  assume "count \<noteq> 0" "nr = (if 512 < count then 512 else count)"
  then have "0 < unat nr" "unat nr \<le> unat count"
    by (auto simp: unat_gt_0 word_less_nat_alt)
  then show "((ops, count - nr, offset + nr, f''), ops, count, offset, f) \<in> measure (\<lambda>(ops, count, offset, f). unat count)"
    by (simp add: unat_sub_ok)
qed simp

declare xfcopy.simps [simp del]

text \<open>A field of a structure that was read into a static buffer.\<close>

definition elf_field :: "layout \<Rightarrow> string \<Rightarrow> u8 list \<Rightarrow> 'a::len word" where
  "elf_field L f bs = le_dec (sub_bytes (offsetof L f) (field_size L f) bs)"

text \<open>The loop over the program headers, the same for both classes up to the structure.\<close>

primrec copy_phdrs :: "layout \<Rightarrow> 'f file_ops \<Rightarrow> u64 \<Rightarrow> nat list \<Rightarrow> 'f \<Rightarrow> 'f run" where
  "copy_phdrs L ops phoff [] f = Inr f"
| "copy_phdrs L ops phoff (i # is) f =
     (case xreadat ops (phoff + of_nat (struct_size L) * of_nat i) (of_nat (struct_size L)) f of Inl e \<Rightarrow> Inl e
      | Inr (ph, f) \<Rightarrow>
        thenX (if elf_field L ''p_flags'' ph AND PF_X \<noteq> 0 \<and> elf_field L ''p_type'' ph = PT_LOAD
               then xfcopy ops (elf_field L ''p_filesz'' ph) (elf_field L ''p_offset'' ph) f
               else Inr f)
          (copy_phdrs L ops phoff is))"

definition gettext_body :: "'f file_ops \<Rightarrow> 'f \<Rightarrow> 'f run" where
  "gettext_body ops f =
     (case xreadat ops 0 (of_nat (struct_size Elf32_Ehdr_layout)) f of Inl e \<Rightarrow> Inl e
      | Inr (e32, f) \<Rightarrow>
        if elf_field Elf32_Ehdr_layout ''e_machine'' e32 = EM_X86_64
        then
          case xreadat ops 0 (of_nat (struct_size Elf64_Ehdr_layout)) f of Inl e \<Rightarrow> Inl e
          | Inr (e64, f) \<Rightarrow>
            copy_phdrs Elf64_Phdr_layout ops (elf_field Elf64_Ehdr_layout ''e_phoff'' e64)
              [0..<unat (elf_field Elf64_Ehdr_layout ''e_phnum'' e64 :: u64)] f
        else
          copy_phdrs Elf32_Phdr_layout ops (elf_field Elf32_Ehdr_layout ''e_phoff'' e32)
            [0..<unat (elf_field Elf32_Ehdr_layout ''e_phnum'' e32 :: u64)] f)"

text \<open>
  \<open>main\<close>: the exit code and the files. \<open>opened\<close> is what opening the two paths gives: the text of the
  \<open>perror\<close> call, or the files with the output truncated.
\<close>

definition gettext_main :: "'f file_ops \<Rightarrow> (string \<Rightarrow> string \<Rightarrow> 'f run) \<Rightarrow> string list \<Rightarrow> int \<times> 'f option" where
  "gettext_main ops opened argv =
     (if length argv \<noteq> 3 then (1, None)
      else case thenX (opened (argv ! 1) (argv ! 2)) (gettext_body ops) of
        Inl e \<Rightarrow> (1, None) | Inr f \<Rightarrow> (0, Some f))"

section \<open>Regular files\<close>

text \<open>
  The documented behaviour of the calls on a regular file: seeking to an offset below 2 ^ 63 succeeds,
  a read delivers the bytes from the position up to the end of the file, and a write appends to the
  output.
\<close>

locale regular_files =
  fixes ops :: "'f file_ops" and pos :: "'f \<Rightarrow> nat" and src :: "'f \<Rightarrow> u8 list" and out :: "'f \<Rightarrow> u8 list"
  assumes seek_ok: "unat o1 < 2 ^ 63 \<Longrightarrow>
      \<exists>f'. op_lseek ops o1 f = (o1, f') \<and> pos f' = unat o1 \<and> src f' = src f \<and> out f' = out f"
    and read_ok: "\<exists>f'. op_read ops n f = (Some (take n (drop (pos f) (src f))), f') \<and> src f' = src f \<and> out f' = out f"
    and write_ok: "\<exists>f'. op_write ops bs f = (of_nat (length bs), f') \<and> src f' = src f \<and> out f' = out f @ bs"
begin

lemma xreadat_ok:
  assumes "unat offset + unat count \<le> length (src f)" and "length (src f) < 2 ^ 63"
  shows "\<exists>f'. xreadat ops offset count f = Inr (sub_bytes (unat offset) (unat count) (src f), f') \<and>
    src f' = src f \<and> out f' = out f"
proof -
  obtain f1 where f1: "op_lseek ops offset f = (offset, f1)" "pos f1 = unat offset" "src f1 = src f" "out f1 = out f"
    using seek_ok [of offset f] assms by auto
  obtain f2 where "op_read ops (unat count) f1 = (Some (take (unat count) (drop (pos f1) (src f1))), f2)"
      "src f2 = src f1" "out f2 = out f1"
    using read_ok [of "unat count" f1] by blast
  then show ?thesis
    using f1 assms(1) by (simp add: xreadat_def sub_bytes_def)
qed

lemma xfcopy_ok:
  "unat offset + unat count \<le> length (src f) \<Longrightarrow> length (src f) < 2 ^ 63 \<Longrightarrow>
   \<exists>f'. xfcopy ops count offset f = Inr f' \<and> src f' = src f \<and>
     out f' = out f @ sub_bytes (unat offset) (unat count) (src f)"
proof (induction "unat count" arbitrary: count offset f rule: less_induct)
  case less
  show ?case
  proof (cases "count = 0")
    case True
    then show ?thesis by (simp add: xfcopy.simps [of ops] sub_bytes_def)
  next
    case False
    let ?nr = "if 512 < count then 512 else count :: u64"
    have nr: "0 < unat ?nr" "unat ?nr \<le> unat count"
      using False by (auto simp: unat_gt_0 word_less_nat_alt)
    have sub: "unat (count - ?nr) = unat count - unat ?nr" using nr(2) by (rule unat_sub_ok)
    have add: "unat (offset + ?nr) = unat offset + unat ?nr"
      using nr(2) less.prems by (intro unat_add_ok) simp
    obtain f1 where f1: "xreadat ops offset ?nr f = Inr (sub_bytes (unat offset) (unat ?nr) (src f), f1)"
        "src f1 = src f" "out f1 = out f"
      using xreadat_ok [of offset ?nr f] less.prems nr(2) by auto
    obtain f2 where f2: "op_write ops (sub_bytes (unat offset) (unat ?nr) (src f)) f1 =
          (of_nat (length (sub_bytes (unat offset) (unat ?nr) (src f))), f2)"
        "src f2 = src f" "out f2 = out f @ sub_bytes (unat offset) (unat ?nr) (src f)"
      using write_ok [of "sub_bytes (unat offset) (unat ?nr) (src f)" f1] f1 by auto
    have len: "length (sub_bytes (unat offset) (unat ?nr) (src f)) = unat ?nr"
      using less.prems nr(2) by (simp add: sub_bytes_def)
    have "\<exists>f'. xfcopy ops (count - ?nr) (offset + ?nr) f2 = Inr f' \<and> src f' = src f2 \<and>
        out f' = out f2 @ sub_bytes (unat (offset + ?nr)) (unat (count - ?nr)) (src f2)"
      using less.prems nr f2(2) by (intro less.hyps) (auto simp: sub add)
    moreover have "xfcopy ops count offset f = xfcopy ops (count - ?nr) (offset + ?nr) f2"
      using False f1(1) f2(1) len by (simp add: xfcopy.simps [of ops count] Let_def)
    moreover have "sub_bytes (unat offset) (unat ?nr) (src f) @ sub_bytes (unat offset + unat ?nr) (unat count - unat ?nr) (src f) =
        sub_bytes (unat offset) (unat count) (src f)"
      using take_add [of "unat ?nr" "unat count - unat ?nr" "drop (unat offset) (src f)"] nr(2)
      by (simp add: sub_bytes_def add.commute)
    ultimately show ?thesis
      unfolding sub add using f2(2,3) by auto
  qed
qed

end

section \<open>Executable segments\<close>

text \<open>The specification: the contents of the executable loadable segments, in the order of their headers.\<close>

definition nth_phdr :: "layout \<Rightarrow> u8 list \<Rightarrow> u64 \<Rightarrow> nat \<Rightarrow> u8 list" where
  "nth_phdr L file_bytes phoff i = sub_bytes (unat phoff + struct_size L * i) (struct_size L) file_bytes"

definition executable :: "layout \<Rightarrow> u8 list \<Rightarrow> bool" where
  "executable L ph \<longleftrightarrow> elf_field L ''p_flags'' ph AND PF_X \<noteq> 0 \<and> elf_field L ''p_type'' ph = PT_LOAD"

definition segment_bytes :: "layout \<Rightarrow> u8 list \<Rightarrow> u64 \<Rightarrow> nat \<Rightarrow> u8 list" where
  "segment_bytes L file_bytes phoff i =
     (let ph = nth_phdr L file_bytes phoff i in
      if executable L ph
      then sub_bytes (unat (elf_field L ''p_offset'' ph :: u64)) (unat (elf_field L ''p_filesz'' ph :: u64)) file_bytes
      else [])"

definition phdr_inside :: "layout \<Rightarrow> u8 list \<Rightarrow> u64 \<Rightarrow> nat \<Rightarrow> bool" where
  "phdr_inside L file_bytes phoff i \<longleftrightarrow>
     unat phoff + struct_size L * i + struct_size L \<le> length file_bytes \<and>
     (let ph = nth_phdr L file_bytes phoff i in executable L ph \<longrightarrow>
        unat (elf_field L ''p_offset'' ph :: u64) + unat (elf_field L ''p_filesz'' ph :: u64) \<le> length file_bytes)"

text \<open>The tables of the two classes: where they are, how many headers they have and with which layout.\<close>

definition phdr_table :: "u8 list \<Rightarrow> layout \<times> u64 \<times> nat" where
  "phdr_table file_bytes =
     (if elf_field Elf32_Ehdr_layout ''e_machine'' (take 52 file_bytes) = EM_X86_64
      then (Elf64_Phdr_layout, elf_field Elf64_Ehdr_layout ''e_phoff'' (take 64 file_bytes),
        unat (elf_field Elf64_Ehdr_layout ''e_phnum'' (take 64 file_bytes) :: u64))
      else (Elf32_Phdr_layout, elf_field Elf32_Ehdr_layout ''e_phoff'' (take 52 file_bytes),
        unat (elf_field Elf32_Ehdr_layout ''e_phnum'' (take 52 file_bytes) :: u64)))"

definition elf_inside :: "u8 list \<Rightarrow> bool" where
  "elf_inside file_bytes \<longleftrightarrow> 64 \<le> length file_bytes \<and> length file_bytes < 2 ^ 63 \<and>
     (case phdr_table file_bytes of (L, phoff, n) \<Rightarrow> \<forall>i<n. phdr_inside L file_bytes phoff i)"

definition text_of :: "u8 list \<Rightarrow> u8 list" where
  "text_of file_bytes =
     (case phdr_table file_bytes of (L, phoff, n) \<Rightarrow> concat (map (segment_bytes L file_bytes phoff) [0..<n]))"

lemma thenX_simps [simp]: "thenX (Inr x) g = g x" "thenX (Inl e) g = Inl e"
  by (simp_all add: thenX_def)

context regular_files
begin

lemma copy_phdrs_ok:
  "\<forall>i\<in>set is. phdr_inside L (src f) phoff i \<Longrightarrow> length (src f) < 2 ^ 63 \<Longrightarrow>
   \<exists>f'. copy_phdrs L ops phoff is f = Inr f' \<and> src f' = src f \<and>
     out f' = out f @ concat (map (segment_bytes L (src f) phoff) is)"
proof (induction "is" arbitrary: f)
  case Nil
  then show ?case by simp
next
  case (Cons i js)
  let ?ph = "nth_phdr L (src f) phoff i" and ?o = "phoff + of_nat (struct_size L) * of_nat i :: u64"
  have inside: "unat phoff + struct_size L * i + struct_size L \<le> length (src f)"
    using Cons.prems(1) by (simp add: phdr_inside_def)
  have c: "unat (of_nat (struct_size L) :: u64) = struct_size L"
    using inside Cons.prems(2) by (intro unat_of_nat_ok) simp
  have "unat (of_nat (struct_size L * i) :: u64) = struct_size L * i"
    using inside Cons.prems(2) by (intro unat_of_nat_ok) simp
  then have o: "unat ?o = unat phoff + struct_size L * i"
    using inside Cons.prems(2) unat_add_ok [of phoff "of_nat (struct_size L * i)"] by simp
  obtain f1 where f1: "xreadat ops ?o (of_nat (struct_size L)) f = Inr (?ph, f1)" "src f1 = src f" "out f1 = out f"
    using xreadat_ok [of ?o "of_nat (struct_size L)" f] inside Cons.prems(2) unfolding o c nth_phdr_def by auto
  let ?step = "if executable L ?ph then xfcopy ops (elf_field L ''p_filesz'' ?ph) (elf_field L ''p_offset'' ?ph) f1 else Inr f1"
  obtain f2 where f2: "?step = Inr f2" "src f2 = src f" "out f2 = out f @ segment_bytes L (src f) phoff i"
    using xfcopy_ok [of "elf_field L ''p_offset'' ?ph" "elf_field L ''p_filesz'' ?ph" f1] Cons.prems f1(2,3)
    by (cases "executable L ?ph") (auto simp: phdr_inside_def segment_bytes_def Let_def)
  have "copy_phdrs L ops phoff (i # js) f = copy_phdrs L ops phoff js f2"
    using f1(1) f2(1) by (simp add: executable_def [symmetric])
  then show ?case
    using Cons.IH [of f2] Cons.prems f2(2,3) by auto
qed

lemma gettext_body_ok:
  assumes "elf_inside (src f)"
  shows "\<exists>f'. gettext_body ops f = Inr f' \<and> src f' = src f \<and> out f' = out f @ text_of (src f)"
proof -
  have len: "64 \<le> length (src f)" "length (src f) < 2 ^ 63" using assms by (simp_all add: elf_inside_def)
  obtain f1 where f1: "xreadat ops 0 52 f = Inr (take 52 (src f), f1)" "src f1 = src f" "out f1 = out f"
    using xreadat_ok [of 0 52 f] len by (auto simp: sub_bytes_def)
  obtain f2 where f2: "xreadat ops 0 64 f1 = Inr (take 64 (src f), f2)" "src f2 = src f" "out f2 = out f"
    using xreadat_ok [of 0 64 f1] len f1(2,3) by (auto simp: sub_bytes_def)
  obtain L phoff n where t: "phdr_table (src f) = (L, phoff, n)" by (metis prod_cases3)
  have ok: "\<exists>f'. copy_phdrs L ops phoff [0..<n] g = Inr f' \<and> src f' = src f \<and> out f' = out f @ text_of (src f)"
    if "src g = src f" "out g = out f" for g
    using copy_phdrs_ok [of "[0..<n]" L g phoff] that assms len by (simp add: elf_inside_def text_of_def t)
  show ?thesis
    using ok [OF f1(2,3)] ok [OF f2(2,3)] t f1(1) f2(1)
    by (auto simp: gettext_body_def phdr_table_def split: if_splits)
qed

lemma gettext_main_ok:
  assumes "opened i p = Inr f" and "elf_inside (src f)"
  shows "\<exists>f'. gettext_main ops opened [prog, i, p] = (0, Some f') \<and> src f' = src f \<and> out f' = out f @ text_of (src f)"
  using gettext_body_ok [OF assms(2)] assms(1) by (auto simp: gettext_main_def numeral_2_eq_2)

end

section \<open>Files in memory\<close>

text \<open>Two open files as their contents and a position, with the calls as the kernel implements them on regular files.\<close>

record open_files =
  src_bytes :: "u8 list"
  src_pos :: nat
  out_bytes :: "u8 list"

definition memory_ops :: "open_files file_ops" where
  "memory_ops =
     \<lparr>op_lseek = (\<lambda>o1 f. if unat o1 < 2 ^ 63 then (o1, f\<lparr>src_pos := unat o1\<rparr>) else (- 1, f)),
      op_read = (\<lambda>n f. (Some (take n (drop (src_pos f) (src_bytes f))),
        f\<lparr>src_pos := src_pos f + length (take n (drop (src_pos f) (src_bytes f)))\<rparr>)),
      op_write = (\<lambda>bs f. (of_nat (length bs), f\<lparr>out_bytes := out_bytes f @ bs\<rparr>))\<rparr>"

interpretation memory: regular_files memory_ops src_pos src_bytes out_bytes
  by unfold_locales (simp_all add: memory_ops_def)

section \<open>Properties\<close>

text \<open>
  C27: gettext extracts the executable segments. On regular files, when the input opens and its headers
  and executable segments lie inside it, the tool exits with 0 and has appended to the output exactly
  the contents of the loadable segments with the execute flag, in the order of the program headers, for
  both the 32-bit and the 64-bit class; the copy in pieces of 512 bytes does not show.
\<close>

theorem gettext_main_extracts:
  assumes "regular_files ops pos src out" and "opened i p = Inr f" and "elf_inside (src f)"
  shows "\<exists>f'. gettext_main ops opened [prog, i, p] = (0, Some f') \<and> src f' = src f \<and> out f' = out f @ text_of (src f)"
  by (rule regular_files.gettext_main_ok [where opened = opened, OF assms])

definition demo_text_elf :: "u8 list" where
  "demo_text_elf = replicate 18 0 @ [62, 0] @ replicate 12 0 @ [64, 0, 0, 0, 0, 0, 0, 0] @ replicate 16 0 @ [1, 0] @ replicate 6 0 @
     [1, 0, 0, 0] @ [5, 0, 0, 0] @ [120, 0, 0, 0, 0, 0, 0, 0] @ replicate 16 0 @ [3, 0, 0, 0, 0, 0, 0, 0] @ replicate 16 0 @
     [0x90, 0x90, 0xc3]"

definition demo_files :: open_files where
  "demo_files = \<lparr>src_bytes = demo_text_elf, src_pos = 0, out_bytes = []\<rparr>"

theorem gettext_main_extracts_witness:
  "\<exists>f. gettext_main memory_ops (\<lambda>i p. Inr demo_files) [''gettext'', ''mbr'', ''mbr.img''] = (0, Some f) \<and>
     out_bytes f = [0x90, 0x90, 0xc3]"
proof -
  have t: "phdr_table demo_text_elf = (Elf64_Phdr_layout, 64, 1)"
    by code_simp
  have i: "phdr_inside Elf64_Phdr_layout demo_text_elf 64 0" "length demo_text_elf = 123"
    "segment_bytes Elf64_Phdr_layout demo_text_elf 64 0 = [0x90, 0x90, 0xc3]"
    by code_simp+
  have "elf_inside demo_text_elf" "text_of demo_text_elf = [0x90, 0x90, 0xc3]"
    by (simp_all add: elf_inside_def text_of_def t i)
  then show ?thesis
    using gettext_main_extracts [OF memory.regular_files_axioms, of "\<lambda>i p. Inr demo_files" "''mbr''" "''mbr.img''" demo_files "''gettext''"]
    by (auto simp: demo_files_def)
qed

end
