(* ===== verification/Boot_Cpu.thy ===== *)
theory Boot_Cpu
  imports Disk
begin

text \<open>
  The 32-bit processor the boot code runs on, in real-address and in protected mode: general and segment
  registers with their hidden bases and limits, the descriptor table, and the instructions the assembly
  files of \<open>bootloader\<close> and \<open>bios\<close> use. The BIOS disk interrupt is a parameter.
\<close>

unbundle bit_operations_syntax

section \<open>State\<close>

text \<open>The registers, in the order of the list \<open>REGISTER32\<close> of \<open>x86.h\<close> (the ones a 32-bit processor has).\<close>

datatype reg32 = EAX | EBX | ECX | EDX | ESI | EDI | EBP | ESP

datatype sreg = CS | DS | ES | FS | GS | SS

text \<open>
  \<open>sbase\<close> and \<open>slim\<close> are the hidden base and limit of a segment register, \<open>dbit\<close> the default operand
  size of the code segment: whether the processor decodes what the assembler emitted under \<open>.code32\<close>.
\<close>

record pc =
  r32 :: "reg32 \<Rightarrow> u32"
  sel :: "sreg \<Rightarrow> u16"
  sbase :: "sreg \<Rightarrow> nat"
  slim :: "sreg \<Rightarrow> nat"
  dbit :: bool
  cr0 :: u32
  gdtb :: nat
  gdtl :: nat
  carry :: bool
  intr :: bool
  eip :: u32
  mm :: mem

definition CR0_PE :: u32 where
  "CR0_PE = 0x00000001"

definition protected :: "pc \<Rightarrow> bool" where
  "protected s \<longleftrightarrow> cr0 s AND CR0_PE \<noteq> 0"

text \<open>Interrupt 0x13: registers, \<open>ds\<close>, \<open>ss\<close> and memory give new registers, the carry flag and memory.\<close>

type_synonym bios = "(reg32 \<Rightarrow> u32) \<Rightarrow> u16 \<Rightarrow> u16 \<Rightarrow> mem \<Rightarrow> (reg32 \<Rightarrow> u32) \<times> bool \<times> mem"

section \<open>Instructions\<close>

datatype ea = Ind32 u32 reg32 | Ind16 u16 reg32 | Abs16 u16 | Abs32 u32

datatype ins =
    Movl_ld ea reg32 | Movl_st reg32 ea | Movw_st reg32 ea | Movb_st reg32 ea | Movw_sti u16 ea
  | Movl_i u32 reg32 | Movl_r reg32 reg32 | Movw_i u16 reg32 | Movb_lo u8 reg32 | Movb_hi u8 reg32
  | Xorl reg32 reg32 | Xorw reg32 reg32 | Incw reg32 | Addl_i u32 reg32 | Addw_i u16 reg32 | Andw_i u16 reg32
  | Shrl nat reg32 | Shrw nat reg32 | Andl_i u32 reg32 | Orl_i u32 reg32
  | Push reg32 | Pushl_i u32 | Pop reg32
  | Cli | Lgdt ea | Ljmp u16 u32 bool | Movs reg32 sreg | Cr0_get reg32 | Cr0_set reg32
  | Int13 | Calll u32 u32 | Retl | Jmpl reg32 | Jmpw reg32

definition setr :: "reg32 \<Rightarrow> u32 \<Rightarrow> pc \<Rightarrow> pc" where
  "setr r v s = s\<lparr>r32 := (r32 s)(r := v)\<rparr>"

definition low16 :: "u32 \<Rightarrow> u16 \<Rightarrow> u32" where
  "low16 w v = (w AND 0xffff0000) OR ucast v"

definition setw :: "reg32 \<Rightarrow> u16 \<Rightarrow> pc \<Rightarrow> pc" where
  "setw r v s = setr r (low16 (r32 s r) v) s"

definition getw :: "reg32 \<Rightarrow> pc \<Rightarrow> u16" where
  "getw r s = ucast (r32 s r)"

fun ea_offset :: "ea \<Rightarrow> pc \<Rightarrow> nat" where
  "ea_offset (Ind32 d r) s = unat (r32 s r + d)"
| "ea_offset (Ind16 d r) s = unat (getw r s + d)"
| "ea_offset (Abs16 a) s = unat a"
| "ea_offset (Abs32 a) s = unat a"

fun ea_seg :: "ea \<Rightarrow> sreg" where
  "ea_seg (Ind32 _ ESP) = SS"
| "ea_seg (Ind32 _ EBP) = SS"
| "ea_seg _ = DS"

text \<open>An access inside the limit of a segment, at its base.\<close>

definition in_seg :: "sreg \<Rightarrow> nat \<Rightarrow> nat \<Rightarrow> pc \<Rightarrow> nat res" where
  "in_seg sg off n s = (if off + n \<le> slim s sg + 1 then Inr (sbase s sg + off) else Inl WildAccess)"

definition load_seg :: "sreg \<Rightarrow> nat \<Rightarrow> nat \<Rightarrow> pc \<Rightarrow> u8 list res" where
  "load_seg sg off n s = bindE (in_seg sg off n s) (\<lambda>a. rd a n (mm s))"

definition store_seg :: "sreg \<Rightarrow> nat \<Rightarrow> u8 list \<Rightarrow> pc \<Rightarrow> pc res" where
  "store_seg sg off bs s =
     bindE (in_seg sg off (length bs) s) (\<lambda>a. bindE (wr a bs (mm s)) (\<lambda>m. Inr (s\<lparr>mm := m\<rparr>)))"

definition load_ea :: "ea \<Rightarrow> nat \<Rightarrow> pc \<Rightarrow> u8 list res" where
  "load_ea e n s = load_seg (ea_seg e) (ea_offset e s) n s"

definition store_ea :: "ea \<Rightarrow> u8 list \<Rightarrow> pc \<Rightarrow> pc res" where
  "store_ea e bs s = store_seg (ea_seg e) (ea_offset e s) bs s"

text \<open>Base and limit of a descriptor.\<close>

definition desc_base :: "u64 \<Rightarrow> nat" where
  "desc_base d =
     unat (bit_field SegmentDescriptor_bits ''base_low'' d OR
       push_bit 16 (bit_field SegmentDescriptor_bits ''base_mid'' d) OR
       push_bit 24 (bit_field SegmentDescriptor_bits ''base_high'' d))"

definition desc_limit :: "u64 \<Rightarrow> nat" where
  "desc_limit d =
     (let l = unat (bit_field SegmentDescriptor_bits ''seg_limit_low'' d OR
                push_bit 16 (bit_field SegmentDescriptor_bits ''seg_limit_high'' d))
      in if bit_field SegmentDescriptor_bits ''G'' d = 1 then l * 4096 + 4095 else l)"

definition descriptor :: "u16 \<Rightarrow> pc \<Rightarrow> u64 res" where
  "descriptor v s =
     (let i = 8 * unat (drop_bit 3 v) in
      if i + 7 \<le> gdtl s
      then bindE (rd (gdtb s + i) 8 (mm s)) (\<lambda>bs. let d = le_dec bs in
             if bit_field SegmentDescriptor_bits ''P'' d = 1 then Inr d else Inl WildAccess)
      else Inl WildAccess)"

text \<open>
  Loading a segment register: from the descriptor table in protected mode; in real-address mode the
  base is the selector times 16 and the limit stays what it was.
\<close>

definition set_seg :: "sreg \<Rightarrow> u16 \<Rightarrow> pc \<Rightarrow> pc res" where
  "set_seg sg v s =
     (if protected s
      then bindE (descriptor v s) (\<lambda>d.
        Inr (s\<lparr>sel := (sel s)(sg := v), sbase := (sbase s)(sg := desc_base d), slim := (slim s)(sg := desc_limit d),
               dbit := (if sg = CS then bit_field SegmentDescriptor_bits ''DB'' d = 1 else dbit s)\<rparr>))
      else Inr (s\<lparr>sel := (sel s)(sg := v), sbase := (sbase s)(sg := 16 * unat v)\<rparr>))"

definition pushl :: "u32 \<Rightarrow> pc \<Rightarrow> pc res" where
  "pushl v s = (let sp = r32 s ESP - 4 in store_seg SS (unat sp) (le_enc 4 v) (setr ESP sp s))"

text \<open>
  One instruction. A far jump names the segment, the offset and whether the code there is assembled
  for 32 bits; it faults when the processor would decode it otherwise. Near jumps, calls and returns
  set \<open>eip\<close>, and a block of code ends with them.
\<close>

fun exec :: "bios \<Rightarrow> ins \<Rightarrow> pc \<Rightarrow> pc res" where
  "exec bios (Movl_ld e r) s = bindE (load_ea e 4 s) (\<lambda>bs. Inr (setr r (le_dec bs) s))"
| "exec bios (Movl_st r e) s = store_ea e (le_enc 4 (r32 s r)) s"
| "exec bios (Movw_st r e) s = store_ea e (le_enc 2 (r32 s r)) s"
| "exec bios (Movb_st r e) s = store_ea e (le_enc 1 (r32 s r)) s"
| "exec bios (Movw_sti v e) s = store_ea e (le_enc 2 v) s"
| "exec bios (Movl_i v r) s = Inr (setr r v s)"
| "exec bios (Movl_r a b) s = Inr (setr b (r32 s a) s)"
| "exec bios (Movw_i v r) s = Inr (setw r v s)"
| "exec bios (Movb_lo v r) s = Inr (setr r ((r32 s r AND 0xffffff00) OR ucast v) s)"
| "exec bios (Movb_hi v r) s = Inr (setr r ((r32 s r AND 0xffff00ff) OR push_bit 8 (ucast v)) s)"
| "exec bios (Xorl a b) s = Inr (setr b (r32 s b XOR r32 s a) s)"
| "exec bios (Xorw a b) s = Inr (setw b (getw b s XOR getw a s) s)"
| "exec bios (Incw r) s = Inr (setw r (getw r s + 1) s)"
| "exec bios (Addl_i v r) s = Inr (setr r (r32 s r + v) s)"
| "exec bios (Addw_i v r) s = Inr (setw r (getw r s + v) s)"
| "exec bios (Andw_i v r) s = Inr (setw r (getw r s AND v) s)"
| "exec bios (Shrl n r) s = Inr (setr r (drop_bit n (r32 s r)) s)"
| "exec bios (Shrw n r) s = Inr (setw r (drop_bit n (getw r s)) s)"
| "exec bios (Andl_i v r) s = Inr (setr r (r32 s r AND v) s)"
| "exec bios (Orl_i v r) s = Inr (setr r (r32 s r OR v) s)"
| "exec bios (Push r) s = pushl (r32 s r) s"
| "exec bios (Pushl_i v) s = pushl v s"
| "exec bios (Pop r) s = bindE (load_seg SS (unat (r32 s ESP)) 4 s) (\<lambda>bs.
     Inr (setr r (le_dec bs) (setr ESP (r32 s ESP + 4) s)))"
| "exec bios Cli s = Inr (s\<lparr>intr := False\<rparr>)"
| "exec bios (Lgdt e) s = bindE (load_ea e 6 s) (\<lambda>bs.
     let b = le_dec (drop 2 bs) :: u32 in
     Inr (s\<lparr>gdtl := unat (le_dec (take 2 bs) :: u16), gdtb := unat (if dbit s then b else b AND 0xffffff)\<rparr>))"
| "exec bios (Ljmp v off c32) s = bindE (set_seg CS v s) (\<lambda>s.
     if dbit s = c32 \<and> unat off \<le> slim s CS then Inr (s\<lparr>eip := off\<rparr>) else Inl WildAccess)"
| "exec bios (Movs r sg) s = set_seg sg (getw r s) s"
| "exec bios (Cr0_get r) s = Inr (setr r (cr0 s) s)"
| "exec bios (Cr0_set r) s = Inr (s\<lparr>cr0 := r32 s r\<rparr>)"
| "exec bios Int13 s =
     (if protected s then Inl WildAccess
      else let (g, c, m) = bios (r32 s) (sel s DS) (sel s SS) (mm s) in Inr (s\<lparr>r32 := g, carry := c, mm := m\<rparr>))"
| "exec bios (Calll a ret) s = bindE (pushl ret s) (\<lambda>s. Inr (s\<lparr>eip := a\<rparr>))"
| "exec bios Retl s = bindE (load_seg SS (unat (r32 s ESP)) 4 s) (\<lambda>bs.
     Inr ((setr ESP (r32 s ESP + 4) s)\<lparr>eip := le_dec bs\<rparr>))"
| "exec bios (Jmpl r) s = Inr (s\<lparr>eip := r32 s r\<rparr>)"
| "exec bios (Jmpw r) s = Inr (s\<lparr>eip := ucast (getw r s)\<rparr>)"

definition run :: "bios \<Rightarrow> ins list \<Rightarrow> pc \<Rightarrow> pc res" where
  "run bios is s = foldE (exec bios) is s"

text \<open>The linear address of the next instruction.\<close>

definition next_linear :: "pc \<Rightarrow> nat" where
  "next_linear s = sbase s CS + unat (eip s)"

section \<open>Descriptors of the sources\<close>

definition GDT_ENTRY :: "u16 \<Rightarrow> u16" where
  "GDT_ENTRY n = push_bit 3 n"

definition SEG_NULLASM :: "u8 list" where
  "SEG_NULLASM = le_enc 2 (0 :: u16) @ le_enc 2 (0 :: u16) @ [0, 0, 0, 0]"

definition SEG_ASM :: "u32 \<Rightarrow> u32 \<Rightarrow> u32 \<Rightarrow> u8 list" where
  "SEG_ASM ty base lim =
     le_enc 2 (drop_bit 12 lim AND 0xffff) @ le_enc 2 (base AND 0xffff) @
     [ucast (drop_bit 16 base AND 0xff), ucast (0x90 OR ty), ucast (0xC0 OR (drop_bit 28 lim AND 0xf)),
      ucast (drop_bit 24 base AND 0xff)]"

text \<open>All four gigabytes from address 0.\<close>

definition flat :: "nat \<Rightarrow> nat \<Rightarrow> bool" where
  "flat base lim \<longleftrightarrow> base = 0 \<and> lim = 0xffffffff"

lemma setr_simps [simp]:
  "r32 (setr r v s) = (r32 s)(r := v)" "sel (setr r v s) = sel s" "sbase (setr r v s) = sbase s" "slim (setr r v s) = slim s"
  "dbit (setr r v s) = dbit s" "cr0 (setr r v s) = cr0 s" "gdtb (setr r v s) = gdtb s" "gdtl (setr r v s) = gdtl s"
  "carry (setr r v s) = carry s" "intr (setr r v s) = intr s" "eip (setr r v s) = eip s" "mm (setr r v s) = mm s"
  by (simp_all add: setr_def)

lemma run_simps [simp]: "run bios [] s = Inr s" "run bios (i # is) s = bindE (exec bios i s) (run bios is)"
  by (auto simp: run_def bindE_def split: sum.split)

lemma run_append: "run bios (xs @ ys) s = bindE (run bios xs s) (run bios ys)"
  by (auto simp: run_def foldE_append bindE_def split: sum.split)

lemma run_then: "run bios xs s = Inr t \<Longrightarrow> run bios (xs @ ys) s = run bios ys t"
  by (simp add: run_append)

text \<open>The descriptors as 64-bit numbers, and what the processor takes from such a number.\<close>

lemma SEG_ASM_values:
  "SEG_ASM 0xA 0 0xffffffff = le_enc 8 (0x00cf9a000000ffff :: u64)"
  "SEG_ASM 0x2 0 0xffffffff = le_enc 8 (0x00cf92000000ffff :: u64)"
  "SEG_NULLASM = le_enc 8 (0 :: u64)"
  by code_simp+

lemma bit_field_offsets:
  "bit_field SegmentDescriptor_bits ''seg_limit_low'' d = take_bit 16 d"
  "bit_field SegmentDescriptor_bits ''base_low'' d = take_bit 16 (drop_bit 16 d)"
  "bit_field SegmentDescriptor_bits ''base_mid'' d = take_bit 8 (drop_bit 32 d)"
  "bit_field SegmentDescriptor_bits ''P'' d = take_bit 1 (drop_bit 47 d)"
  "bit_field SegmentDescriptor_bits ''seg_limit_high'' d = take_bit 4 (drop_bit 48 d)"
  "bit_field SegmentDescriptor_bits ''DB'' d = take_bit 1 (drop_bit 54 d)"
  "bit_field SegmentDescriptor_bits ''G'' d = take_bit 1 (drop_bit 55 d)"
  "bit_field SegmentDescriptor_bits ''base_high'' d = take_bit 8 (drop_bit 56 d)"
  by (simp_all add: bit_field_def SegmentDescriptor_bits_def)

lemma descriptor_values [simp]:
  "desc_base 0x00cf9a000000ffff = 0" "desc_limit 0x00cf9a000000ffff = 0xffffffff"
  "desc_base 0x00cf92000000ffff = 0" "desc_limit 0x00cf92000000ffff = 0xffffffff"
  "desc_base 0x00009a000000ffff = 0" "desc_limit 0x00009a000000ffff = 0xffff"
  "desc_base 0x000092000000ffff = 0" "desc_limit 0x000092000000ffff = 0xffff"
  by (simp_all add: desc_base_def desc_limit_def bit_field_offsets)

lemma descriptor_bits [simp]:
  "bit_field SegmentDescriptor_bits ''P'' 0x00cf9a000000ffff = 1" "bit_field SegmentDescriptor_bits ''DB'' 0x00cf9a000000ffff = 1"
  "bit_field SegmentDescriptor_bits ''P'' 0x00cf92000000ffff = 1" "bit_field SegmentDescriptor_bits ''P'' 0x00009a000000ffff = 1"
  "bit_field SegmentDescriptor_bits ''DB'' 0x00009a000000ffff = 0" "bit_field SegmentDescriptor_bits ''P'' 0x000092000000ffff = 1"
  by (simp_all add: bit_field_offsets)

section \<open>Execution, step by step\<close>

lemma GDT_ENTRY_values [simp]:
  "GDT_ENTRY 1 = 8" "GDT_ENTRY 2 = 16" "GDT_ENTRY 3 = 24" "GDT_ENTRY 4 = 32"
  by (simp_all add: GDT_ENTRY_def)

lemma bit_high_half: "bit (0xffff0000 :: u32) n \<longleftrightarrow> 16 \<le> n \<and> n < 32"
proof -
  have "(0xffff0000 :: u32) = push_bit 16 (mask 16)" by (simp add: mask_eq_exp_minus_1)
  then show ?thesis by (simp only: bit_push_bit_iff bit_mask_iff) auto
qed

lemma bit_low16: "bit (low16 w v) n \<longleftrightarrow> (if n < 16 then bit v n else bit w n)"
  by (simp only: low16_def bit_and_iff bit_or_iff bit_unsigned_iff bit_high_half)
    (auto dest: bit_imp_le_length)

lemma low16_simps [simp]: "ucast (low16 w v) = v" "low16 (low16 w u) v = low16 w v" "low16 0 v = ucast v"
  by (rule bit_word_eqI; auto simp: bit_low16 bit_unsigned_iff dest: bit_imp_le_length)+

lemma pe_clear: "(w AND 0xfffffffe) AND 1 = (0 :: u32)"
  by (simp add: and.assoc)

lemma protected_simps [simp]:
  "protected (s\<lparr>r32 := x1\<rparr>) = protected s" "protected (s\<lparr>sel := x2\<rparr>) = protected s" "protected (s\<lparr>sbase := x3\<rparr>) = protected s"
  "protected (s\<lparr>slim := x4\<rparr>) = protected s" "protected (s\<lparr>dbit := x5\<rparr>) = protected s" "protected (s\<lparr>gdtb := x6\<rparr>) = protected s"
  "protected (s\<lparr>gdtl := x7\<rparr>) = protected s" "protected (s\<lparr>carry := x8\<rparr>) = protected s" "protected (s\<lparr>intr := x9\<rparr>) = protected s"
  "protected (s\<lparr>eip := y1\<rparr>) = protected s" "protected (s\<lparr>mm := y2\<rparr>) = protected s" "protected (setr r v s) = protected s"
  "protected (s\<lparr>cr0 := w OR CR0_PE\<rparr>)" "\<not> protected (s\<lparr>cr0 := w AND 0xfffffffe\<rparr>)"
  by (simp_all add: protected_def CR0_PE_def setr_def pe_clear)

lemma set_seg_real: "\<not> protected s \<Longrightarrow> set_seg sg v s = Inr (s\<lparr>sel := (sel s)(sg := v), sbase := (sbase s)(sg := 16 * unat v)\<rparr>)"
  by (simp add: set_seg_def)

text \<open>A selector of a table whose entry is known.\<close>

lemma set_seg_table:
  assumes "protected s" and "8 * unat (drop_bit 3 v) + 7 \<le> gdtl s" and "gdtb s + 8 * unat (drop_bit 3 v) + 8 \<le> msize (mm s)"
    and "peek (mm s) (gdtb s + 8 * unat (drop_bit 3 v)) 8 = le_enc 8 d" and "bit_field SegmentDescriptor_bits ''P'' d = 1"
  shows "set_seg sg v s =
    Inr (s\<lparr>sel := (sel s)(sg := v), sbase := (sbase s)(sg := desc_base d), slim := (slim s)(sg := desc_limit d),
      dbit := (if sg = CS then bit_field SegmentDescriptor_bits ''DB'' d = 1 else dbit s)\<rparr>)"
  using assms by (simp add: set_seg_def descriptor_def)

lemmas machine_simps = setr_def setw_def getw_def load_ea_def store_ea_def load_seg_def store_seg_def in_seg_def pushl_def Let_def

end
