(* ===== verification/Bzimage.thy ===== *)
theory Bzimage
  imports Disk
begin

text \<open>
  The boot protocol header of \<open>bootloader/bz_image.h\<close>, the kernel loader \<open>bzimage.c\<close> and the
  extractor \<open>getpayload.c\<close>. The loader works on physical memory and reads the disk through \<open>rdk\<close>;
  its serial port is \<open>io\<close>. What the operating system answers the extractor is the record \<open>payload_env\<close>.
\<close>

unbundle bit_operations_syntax

section \<open>The header\<close>

definition LINUX_SECTOR_SIZE :: u32 where
  "LINUX_SECTOR_SIZE = 512"

definition LOADED_HIGH :: u8 where
  "LOADED_HIGH = push_bit 0 1"

definition setup_data_layout :: layout where
  "setup_data_layout = [(''next'', 8), (''type'', 4), (''len'', 4)]"

definition header_legacy :: layout where
  "header_legacy =
     [(''unused'', 0x1f1), (''setup_sects'', 1), (''root_flags'', 2), (''syssize'', 4), (''ram_size'', 2),
      (''vid_mode'', 2), (''root_dev'', 2), (''boot_flag'', 2), (''jump'', 2), (''header'', 4), (''version'', 2),
      (''realmode_swtch'', 4), (''start_sys_seg'', 2), (''kernel_version'', 2), (''type_of_loader'', 1),
      (''loadflags'', 1), (''setup_move_size'', 2), (''code32_start'', 4), (''ramdisk_image'', 4),
      (''ramdisk_size'', 4), (''bootsect_kludge'', 4), (''heap_end_ptr'', 2), (''ext_loader_ver'', 1),
      (''ext_loader_type'', 1)]"

definition header_extended :: layout where
  "header_extended =
     [(''cmd_line_ptr'', 4), (''initrd_addr_max'', 4), (''kernel_alignment'', 4), (''relocatable_kernel'', 1),
      (''min_alignment'', 1), (''xloadflags'', 2), (''cmdline_size'', 4), (''hardware_subarch'', 4),
      (''hardware_subarch_data'', 8), (''payload_offset'', 4), (''payload_length'', 4), (''setup_data'', 8),
      (''pref_address'', 8), (''init_size'', 4), (''handover_offset'', 4), (''kernel_info_offset'', 4),
      (''unused2'', 2 * 512 - 0x26c)]"

definition KernelHeader_layout :: layout where
  "KernelHeader_layout = header_legacy @ header_extended"

definition bzimage_check :: bool where
  "bzimage_check \<longleftrightarrow> check_sizeof_int \<and>
     struct_size KernelHeader_layout = unat LINUX_SECTOR_SIZE * 2 \<and>
     offsetof KernelHeader_layout ''boot_flag'' = 0x1fe \<and>
     offsetof KernelHeader_layout ''kernel_info_offset'' = 0x268"

section \<open>The loader\<close>

definition LINUX_CMD_LINE :: "u8 list" where
  "LINUX_CMD_LINE = bytes ''init=/init trace_clock=local console=ttyS0 earlyprintk root=/dev/sda1 rw''"

definition code16 :: "u8 list" where
  "code16 =
     [0x31, 0xc0,
      0x05, 0x00, 0x02,
      0x8e, 0xd8,
      0x8e, 0xd0,
      0x8e, 0xc0,
      0x8e, 0xe0,
      0x8e, 0xe8,
      0x31, 0xc0,
      0xff, 0xe0]"

text \<open>How the loader ends: it prints a message and halts, or jumps with a base address and a heap end.\<close>

datatype boot_end = Halted | JumpToSetup nat u32

definition die :: "'s ports \<Rightarrow> 's \<Rightarrow> mem \<Rightarrow> (boot_end \<times> 's \<times> mem) res" where
  "die io s m = Inr (Halted, fold (putch io) (bytes ''DIE!'') s, m)"

text \<open>Consecutive sectors to consecutive addresses.\<close>

primrec read_run :: "(nat \<Rightarrow> u32 \<Rightarrow> mem \<Rightarrow> mem res) \<Rightarrow> u32 \<Rightarrow> nat list \<Rightarrow> nat \<Rightarrow> mem \<Rightarrow> mem res" where
  "read_run rdk sector [] load_addr m = Inr m"
| "read_run rdk sector (i # is) load_addr m =
     bindE (rdk load_addr (sector + of_nat i) m) (read_run rdk sector is (load_addr + unat LINUX_SECTOR_SIZE))"

text \<open>Constant bytes stored one by one.\<close>

definition store_bytes :: "nat \<Rightarrow> u8 list \<Rightarrow> mem \<Rightarrow> mem res" where
  "store_bytes addr bs m = foldE (\<lambda>i. wr (addr + i) [bs ! i]) [0..<length bs] m"

text \<open>What the loader tells the kernel: the fields of the header, the command line, the 16-bit code.\<close>

definition hand_over :: "nat \<Rightarrow> u32 \<Rightarrow> mem \<Rightarrow> mem res" where
  "hand_over load_start heap_end m =
     bindE (put_native Little KernelHeader_layout load_start ''type_of_loader'' 0xFF m) (\<lambda>m.
     bindE (put_native Little KernelHeader_layout load_start ''heap_end_ptr'' (ucast (heap_end - 0x200)) m) (\<lambda>m.
     bindE (get_native Little KernelHeader_layout load_start ''loadflags'' m) (\<lambda>flags.
     bindE (put_native Little KernelHeader_layout load_start ''loadflags'' (flags OR 0x80) m) (\<lambda>m.
     bindE (store_bytes (load_start + unat heap_end) LINUX_CMD_LINE m) (\<lambda>m.
     bindE (wr (load_start + unat heap_end + length LINUX_CMD_LINE) [0] m) (\<lambda>m.
     bindE (put_native Little KernelHeader_layout load_start ''cmd_line_ptr'' (of_nat (load_start + unat heap_end)) m) (\<lambda>m.
     store_bytes (load_start + 0x8000) code16 m)))))))"

text \<open>\<open>__elf_main\<close> of \<open>bzimage.c\<close>. The sector count of the setup code is an 8-bit variable.\<close>

definition setup_sectors :: "u8 \<Rightarrow> u8" where
  "setup_sectors n = (if n = 0 then 4 else n) + 1"

definition bz_main ::
  "'s ports \<Rightarrow> (nat \<Rightarrow> u32 \<Rightarrow> mem \<Rightarrow> mem res) \<Rightarrow> 's \<Rightarrow> mem \<Rightarrow> (boot_end \<times> 's \<times> mem) res" where
  "bz_main io rdk s m =
     (let sector = 539; load_start = 0x2000 in
      bindE (rdk load_start sector m) (\<lambda>m.
      bindE (rdk (load_start + unat LINUX_SECTOR_SIZE) (sector + 1) m) (\<lambda>m.
      bindE (get_native Little KernelHeader_layout load_start ''setup_sects'' m) (\<lambda>n.
      bindE (get_native Little KernelHeader_layout load_start ''boot_flag'' m) (\<lambda>boot_flag :: u16.
      bindE (get_native Little KernelHeader_layout load_start ''header'' m) (\<lambda>header :: u32.
      let setup_sects = setup_sectors n in
      if boot_flag \<noteq> 0xaa55 \<or> header \<noteq> 0x53726448 then die io s m
      else
        bindE (read_run rdk sector [2..<unat setup_sects] (load_start + unat (LINUX_SECTOR_SIZE * 2)) m) (\<lambda>m.
        bindE (get_native Little KernelHeader_layout load_start ''syssize'' m) (\<lambda>syssize :: u32.
        bindE (get_native Little KernelHeader_layout load_start ''version'' m) (\<lambda>protocol :: u16.
        bindE (get_native Little KernelHeader_layout load_start ''loadflags'' m) (\<lambda>loadflags :: u8.
        let img_size = ucast setup_sects * LINUX_SECTOR_SIZE + syssize * 16 in
        if loadflags AND LOADED_HIGH = 0 \<or> protocol < 0x0202 then die io s m
        else
          bindE (read_run rdk sector [unat setup_sects..<unat (img_size div LINUX_SECTOR_SIZE)] 0x100000 m) (\<lambda>m.
          bindE (hand_over load_start 0x10000 m) (\<lambda>m.
          Inr (JumpToSetup load_start 0x10000, s, m)))))))))))))"

text \<open>\<open>bzimage.S\<close>: the second sector of the loader, then its C code.\<close>

definition bzimage_start ::
  "'s ports \<Rightarrow> (nat \<Rightarrow> u32 \<Rightarrow> mem \<Rightarrow> mem res) \<Rightarrow> 's \<Rightarrow> mem \<Rightarrow> (boot_end \<times> 's \<times> mem) res" where
  "bzimage_start io rdk s m = bindE (rdk 0x1400 532 m) (bz_main io rdk s)"

section \<open>getpayload\<close>

definition BiCheck :: "nat \<Rightarrow> mem \<Rightarrow> u32 res" where
  "BiCheck khdr m =
     bindE (get_native Little KernelHeader_layout khdr ''boot_flag'' m) (\<lambda>boot_flag :: u16.
     if boot_flag \<noteq> 0xaa55 then Inr 1
     else
       bindE (get_native Little KernelHeader_layout khdr ''header'' m) (\<lambda>header :: u32.
       if header \<noteq> 0x53726448 then Inr 1 else Inr 0))"

text \<open>The offset of the payload in the file and its length, or NULL.\<close>

definition BiGetPayload :: "mem \<Rightarrow> (u64 \<times> u64) option res" where
  "BiGetPayload m =
     bindE (BiCheck 0 m) (\<lambda>bad.
     if bad \<noteq> 0 then Inr None
     else
       bindE (get_native Little KernelHeader_layout 0 ''setup_sects'' m) (\<lambda>n.
       bindE (get_native Little KernelHeader_layout 0 ''payload_length'' m) (\<lambda>payload_len :: u64.
       bindE (get_native Little KernelHeader_layout 0 ''payload_offset'' m) (\<lambda>offset :: u64.
       let skip_sects = setup_sectors n in
       Inr (Some (offset + ucast (LINUX_SECTOR_SIZE * ucast skip_sects), payload_len))))))"

text \<open>
  What the operating system answers: the size of the input, if it opens and \<open>fstat\<close> works; its contents
  mapped over a number of bytes; whether the output opens; and the result of writing a number of bytes
  of which the given ones are readable.
\<close>

record payload_env =
  in_opens :: bool
  in_size :: "u64 option"
  in_map :: "u64 \<Rightarrow> mem option"
  out_opens :: bool
  out_write :: "u64 \<Rightarrow> u8 list \<Rightarrow> u64"

definition readable :: "mem \<Rightarrow> nat \<Rightarrow> nat \<Rightarrow> u8 list" where
  "readable m off n = peek m off (min n (msize m - off))"

text \<open>The exit code, the name of the output and what was written to it.\<close>

definition getpayload_main :: "payload_env \<Rightarrow> string list \<Rightarrow> (int \<times> (string \<times> u8 list) option) res" where
  "getpayload_main env argv =
     (if length argv \<noteq> 2 \<and> length argv \<noteq> 3 then Inr (1, None)
      else
        let output = (if length argv = 3 then argv ! 2 else ''a.img'') in
        if \<not> in_opens env then Inr (1, None)
        else
          case in_size env of None \<Rightarrow> Inr (1, None)
          | Some file_size \<Rightarrow>
            let file_size = (file_size + 4095) div 4096 * 4096 in
            case in_map env file_size of None \<Rightarrow> Inr (1, None)
            | Some filedata \<Rightarrow>
              bindE (BiGetPayload filedata) (\<lambda>p. case p of None \<Rightarrow> Inr (1, None)
              | Some (addr, len) \<Rightarrow>
                let bs = readable filedata (unat addr) (unat len) in
                if \<not> out_opens env \<or> out_write env len bs \<noteq> len then Inr (1, None)
                else Inr (0, Some (output, bs))))"

section \<open>Reading the header\<close>

lemma kh_offsets:
  "offsetof KernelHeader_layout ''setup_sects'' = 0x1f1" "field_size KernelHeader_layout ''setup_sects'' = 1"
  "offsetof KernelHeader_layout ''syssize'' = 0x1f4" "field_size KernelHeader_layout ''syssize'' = 4"
  "offsetof KernelHeader_layout ''boot_flag'' = 0x1fe" "field_size KernelHeader_layout ''boot_flag'' = 2"
  "offsetof KernelHeader_layout ''header'' = 0x202" "field_size KernelHeader_layout ''header'' = 4"
  "offsetof KernelHeader_layout ''version'' = 0x206" "field_size KernelHeader_layout ''version'' = 2"
  "offsetof KernelHeader_layout ''type_of_loader'' = 0x210" "field_size KernelHeader_layout ''type_of_loader'' = 1"
  "offsetof KernelHeader_layout ''loadflags'' = 0x211" "field_size KernelHeader_layout ''loadflags'' = 1"
  "offsetof KernelHeader_layout ''heap_end_ptr'' = 0x224" "field_size KernelHeader_layout ''heap_end_ptr'' = 2"
  "offsetof KernelHeader_layout ''cmd_line_ptr'' = 0x228" "field_size KernelHeader_layout ''cmd_line_ptr'' = 4"
  "offsetof KernelHeader_layout ''payload_offset'' = 0x248" "field_size KernelHeader_layout ''payload_offset'' = 4"
  "offsetof KernelHeader_layout ''payload_length'' = 0x24c" "field_size KernelHeader_layout ''payload_length'' = 4"
  by (simp_all add: KernelHeader_layout_def header_legacy_def header_extended_def)

lemma bzimage_check_holds: bzimage_check
  by (simp add: bzimage_check_def check_sizeof_int_def struct_size_def KernelHeader_layout_def header_legacy_def
      header_extended_def LINUX_SECTOR_SIZE_def SegmentDescriptor_bits_def SegmentSelector_bits_def
      DescriptorTable32_layout_def DescriptorTable64_layout_def)

text \<open>A field of the header in a list of bytes.\<close>

definition kfield :: "u8 list \<Rightarrow> string \<Rightarrow> 'a::len word" where
  "kfield bs f = le_dec (sub_bytes (offsetof KernelHeader_layout f) (field_size KernelHeader_layout f) bs)"

lemma get_native_poke:
  assumes "offsetof L f + field_size L f \<le> length bs" and "p + length bs \<le> msize m"
  shows "get_native Little L p f (poke m p bs) = Inr (le_dec (sub_bytes (offsetof L f) (field_size L f) bs))"
  using assms by (simp add: get_native_def val_def sub_bytes_def peek_poke_inside)

lemma header_read:
  assumes "offsetof KernelHeader_layout f + field_size KernelHeader_layout f \<le> length bs" and "p + length bs \<le> msize m"
  shows "get_native Little KernelHeader_layout p f (poke m p bs) = Inr (kfield bs f)"
  unfolding kfield_def by (rule get_native_poke [OF assms])

lemma store_bytes_ok: "addr + length bs \<le> msize m \<Longrightarrow> store_bytes addr bs m = Inr (poke m addr bs)"
proof -
  assume room: "addr + length bs \<le> msize m"
  have "foldE (\<lambda>i. wr (addr + i) [bs ! i]) [0..<n] m = Inr (poke m addr (take n bs))" if "n \<le> length bs" for n
    using that
  proof (induction n)
    case (Suc n)
    have "poke (poke m addr (take n bs)) (addr + n) [bs ! n] = poke m addr (take n bs @ [bs ! n])"
      using poke_append [of m addr "take n bs" "[bs ! n]"] Suc.prems by simp
    then show ?case using Suc room by (simp add: foldE_append take_Suc_conv_app_nth)
  qed simp
  from this [of "length bs"] show ?thesis by (simp add: store_bytes_def)
qed

section \<open>Handing over\<close>

definition handed :: "mem \<Rightarrow> mem" where
  "handed m =
     poke (poke (poke (poke (poke (poke m 0x2210 [0xff]) 0x2224 [0x00, 0xfe]) 0x2211 [mbyte m 0x2211 OR 0x80])
       0x12000 (LINUX_CMD_LINE @ [0])) 0x2228 [0x00, 0x20, 0x01, 0x00]) 0xa000 code16"

definition handed_ranges :: "(nat \<times> nat) list" where
  "handed_ranges = [(0x2210, 2), (0x2224, 2), (0x2228, 4), (0xa000, length code16), (0x12000, length LINUX_CMD_LINE + 1)]"

lemma length_cmd_line: "length LINUX_CMD_LINE = 72" and length_code16: "length code16 = 19"
  by (simp_all add: LINUX_CMD_LINE_def bytes_def code16_def)

lemma hand_over_ok:
  assumes "0x13000 \<le> msize m"
  shows "hand_over 0x2000 0x10000 m = Inr (handed m)"
proof -
  have eqs: "obj Little (Suc 0) (0xff :: u64) = [0xff]" "obj Little 2 (0xfe00 :: u64) = [0x00, 0xfe]"
    "obj Little 4 (0x12000 :: u64) = [0x00, 0x20, 0x01, 0x00]"
    by code_simp+
  have flag: "obj Little (Suc 0) (ucast b OR 0x80 :: u64) = [b OR 0x80]" for b :: u8
    by (simp add: obj_def) (rule bit_word_eqI, auto simp: bit_simps)
  show ?thesis
    using assms poke_append [of _ "0x12000" LINUX_CMD_LINE "[0]"]
    by (simp add: hand_over_def kh_offsets eqs flag get_native_def val_def peek_def handed_def store_bytes_ok
        length_cmd_line length_code16)
qed

lemma handed_fields:
  assumes "0x13000 \<le> msize m"
  shows "get_native Little KernelHeader_layout 0x2000 ''type_of_loader'' (handed m) = Inr (0xff :: u8)"
    "get_native Little KernelHeader_layout 0x2000 ''heap_end_ptr'' (handed m) = Inr (0xfe00 :: u16)"
    "get_native Little KernelHeader_layout 0x2000 ''cmd_line_ptr'' (handed m) = Inr (0x12000 :: u32)"
    "get_native Little KernelHeader_layout 0x2000 ''loadflags'' (handed m) = Inr (mbyte m 0x2211 OR 0x80)"
    "peek (handed m) 0x12000 (length LINUX_CMD_LINE + 1) = LINUX_CMD_LINE @ [0]"
    "peek (handed m) 0xa000 (length code16) = code16"
    "only_changed handed_ranges m (handed m)"
  using assms
  by (simp_all add: get_native_def kh_offsets handed_def length_cmd_line length_code16 val_def push_bit_eq_mult)
    (auto simp: only_changed_def handed_ranges_def mbyte_poke length_cmd_line length_code16)

section \<open>Loading the image\<close>

lemma sub_bytes_file_range:
  assumes "p + n \<le> k"
  shows "sub_bytes p n (file_range sector start off k) = file_range sector start (off + p) n"
proof -
  have "[off..<off + k] = [off..<off + p] @ [off + p..<off + p + n] @ [off + p + n..<off + k]"
    using assms upt_add_eq_append [of off "off + p" "k - p"] upt_add_eq_append [of "off + p" "off + p + n" "k - p - n"]
    by (simp add: add.assoc)
  then show ?thesis by (simp add: sub_bytes_def file_range_def)
qed

lemma kfield_file_range:
  assumes "offsetof KernelHeader_layout f + field_size KernelHeader_layout f \<le> k" and "k \<le> n"
  shows "kfield (file_range sector start 0 n) f = kfield (file_range sector start 0 k) f"
  using assms by (simp add: kfield_def sub_bytes_file_range)

lemma header_prefix:
  assumes "offsetof KernelHeader_layout f + field_size KernelHeader_layout f \<le> 1024" and "2 \<le> k"
    and "0x2000 + 512 * k \<le> msize m"
  shows "get_native Little KernelHeader_layout 0x2000 f (poke m 0x2000 (file_range sector start 0 (512 * k))) =
    Inr (kfield (file_range sector start 0 1024) f)"
  using assms kfield_file_range [of f 1024 "512 * k" sector start, where 'a = 'a] by (simp add: header_read)

lemmas header_prefix_two = header_prefix [of _ 2, simplified]

text \<open>
  The sectors of the real-mode part by the boot protocol: the boot sector and \<open>setup_sects\<close> more, 4 if
  that field is 0. And the sectors the protected-mode part runs up to, as the loader computes it in 32 bits.
\<close>

definition real_mode_sectors :: "u8 \<Rightarrow> nat" where
  "real_mode_sectors n = 1 + (if n = 0 then 4 else unat n)"

definition image_sectors :: "u8 list \<Rightarrow> u32" where
  "image_sectors h = (of_nat (real_mode_sectors (kfield h ''setup_sects'')) * 512 + kfield h ''syssize'' * 16) div 512"

text \<open>The 8-bit variable of the programs holds that number unless the field is 255.\<close>

lemma setup_sectors_count:
  assumes "n \<noteq> 255"
  shows "unat (setup_sectors n) = real_mode_sectors n" "ucast (setup_sectors n) = (of_nat (real_mode_sectors n) :: 'a::len word)"
proof -
  have "unat n \<noteq> 255" using assms by (auto simp: word_unat_eq_iff)
  moreover have "unat n < 256" using unsigned_less [of n, where 'a = nat] by simp
  ultimately have "unat (n + 1) = unat n + 1" by (subst unat_add_ok) simp_all
  then show u: "unat (setup_sectors n) = real_mode_sectors n"
    by (simp add: setup_sectors_def real_mode_sectors_def)
  show "ucast (setup_sectors n) = (of_nat (real_mode_sectors n) :: 'a word)"
    by (simp flip: u)
qed

text \<open>The header of a kernel this loader supports; the setup code fits below the real-mode heap.\<close>

definition header_magic :: "u8 list \<Rightarrow> bool" where
  "header_magic h \<longleftrightarrow> kfield h ''boot_flag'' = (0xaa55 :: u16) \<and> kfield h ''header'' = (0x53726448 :: u32)"

definition header_supported :: "u8 list \<Rightarrow> bool" where
  "header_supported h \<longleftrightarrow> kfield h ''loadflags'' AND LOADED_HIGH \<noteq> 0 \<and> (0x0202 :: u16) \<le> kfield h ''version'' \<and>
     kfield h ''setup_sects'' \<le> (63 :: u8)"

lemma real_mode_sectors_bounds: "n \<le> 63 \<Longrightarrow> 2 \<le> real_mode_sectors n \<and> real_mode_sectors n \<le> 64"
  by (auto simp: real_mode_sectors_def word_le_nat_alt unat_gt_0 Suc_le_eq)

lemma one_sector: "(\<And>s. length (sector s) = 512) \<Longrightarrow> sector (start + of_nat k) = file_range sector start (512 * k) 512"
  by (simp add: file_range_sector)

lemma handed_agree:
  assumes "only_changed rs a m" and "outside rs 0x2211"
  shows "only_changed rs (handed a) (handed m)"
proof -
  have "mbyte m 0x2211 = mbyte a 0x2211" using assms by (simp add: only_changed_def)
  then show ?thesis unfolding handed_def by (simp add: only_changed_both [OF assms(1)] only_changed_both)
qed

lemma header_agree:
  assumes "only_changed rs a m" and "apart rs 0x2000 1024" and "offsetof KernelHeader_layout f + field_size KernelHeader_layout f \<le> 1024"
  shows "get_native Little KernelHeader_layout 0x2000 f m = get_native Little KernelHeader_layout 0x2000 f a"
proof -
  have "apart rs (0x2000 + offsetof KernelHeader_layout f) (field_size KernelHeader_layout f)"
    using assms(2,3) by (fastforce simp: apart_def)
  then have "peek m (0x2000 + offsetof KernelHeader_layout f) (field_size KernelHeader_layout f) =
      peek a (0x2000 + offsetof KernelHeader_layout f) (field_size KernelHeader_layout f)"
    by (rule only_changed_peek [OF assms(1)])
  then show ?thesis using assms(1) by (simp add: get_native_def rd_def only_changed_def)
qed

context scratch_source
begin

lemma read_run_refines:
  "only_changed scratch a m \<Longrightarrow> ready m \<Longrightarrow> addr + 512 * n \<le> msize m \<Longrightarrow> addr mod 16 = 0 \<Longrightarrow> apart scratch addr (512 * n) \<Longrightarrow>
   \<exists>m'. read_run rdk start [k..<k + n] addr m = Inr m' \<and>
     only_changed scratch (poke a addr (file_range sector start (512 * k) (512 * n))) m' \<and> ready m'"
proof (induction n arbitrary: k addr a m)
  case 0
  then show ?case by (simp add: file_range_def)
next
  case (Suc n)
  let ?bs = "file_range sector start (512 * k) 512"
  have ap: "apart scratch addr 512" "apart scratch (addr + 512) (512 * n)"
    using Suc.prems(5) by (auto simp: apart_def)
  obtain m1 where m1: "rdk addr (start + of_nat k) m = Inr m1" "only_changed scratch (poke a addr ?bs) m1" "ready m1"
    using rdk_refines [OF Suc.prems(1,2) _ Suc.prems(4) ap(1), of "start + of_nat k"] Suc.prems(3) one_sector [of sector start k, OF length_sector]
    by auto
  have sz: "msize m1 = msize m" using m1(2) Suc.prems(1) by (simp add: only_changed_def)
  obtain m2 where m2: "read_run rdk start [Suc k..<Suc k + n] (addr + 512) m1 = Inr m2"
    "only_changed scratch (poke (poke a addr ?bs) (addr + 512) (file_range sector start (512 * Suc k) (512 * n))) m2" "ready m2"
    using Suc.IH [OF m1(2,3) _ _ ap(2), of "Suc k"] Suc.prems(3,4) sz by auto
  have "poke (poke a addr ?bs) (addr + 512) (file_range sector start (512 * Suc k) (512 * n)) =
      poke a addr (file_range sector start (512 * k) (512 + 512 * n))"
    using poke_append [of a addr ?bs] by (simp add: file_range_append add.commute)
  then show ?case
    using m1(1) m2 by (simp add: upt_conv_Cons LINUX_SECTOR_SIZE_def del: upt_Suc)
qed

lemma boot_sectors:
  assumes "only_changed scratch a m" and "ready m" and "0x2400 \<le> msize m" and "apart scratch 0x2000 1024"
  obtains m1 m2 where "rdk 0x2000 start m = Inr m1" "rdk 0x2200 (start + 1) m1 = Inr m2"
    "only_changed scratch (poke a 0x2000 (file_range sector start 0 1024)) m2" "ready m2"
proof -
  have ap: "apart scratch 0x2000 512" "apart scratch 0x2200 512"
    by (rule apart_sub [OF assms(4)], simp, simp)+
  obtain m1 where m1: "rdk 0x2000 start m = Inr m1" "only_changed scratch (poke a 0x2000 (sector start)) m1" "ready m1"
    using rdk_refines [OF assms(1,2) _ _ ap(1), of start] assms(3) by auto
  have "msize m1 = msize m" using assms(1) m1(2) by (simp add: only_changed_def)
  with assms(3) have sz: "0x2200 + 512 \<le> msize m1" by simp
  obtain m2 where m2: "rdk 0x2200 (start + 1) m1 = Inr m2"
    "only_changed scratch (poke (poke a 0x2000 (sector start)) 0x2200 (sector (start + 1))) m2" "ready m2"
    using rdk_refines [OF m1(2,3) sz _ ap(2), of "start + 1"] by auto
  have "file_range sector start 0 (512 + 512) = sector start @ sector (start + 1)"
    unfolding file_range_append using one_sector [of sector start 0, OF length_sector] one_sector [of sector start 1, OF length_sector] by simp
  then have "only_changed scratch (poke a 0x2000 (file_range sector start 0 1024)) m2"
    using m2(2) poke_append [of a "0x2000" "sector start" "sector (start + 1)"] by (simp add: length_sector)
  with m1(1) m2(1,3) that show thesis by blast
qed

lemma real_mode_code:
  assumes "only_changed scratch (poke a 0x2000 (file_range sector start 0 1024)) m" and "ready m"
    and "2 \<le> s" and "0x2000 + 512 * s \<le> msize m" and "apart scratch 0x2000 (512 * s)"
  shows "\<exists>m'. read_run rdk start [2..<s] 0x2400 m = Inr m' \<and> only_changed scratch (poke a 0x2000 (file_range sector start 0 (512 * s))) m' \<and> ready m'"
proof -
  have ap: "apart scratch 0x2400 (512 * (s - 2))" and room: "0x2400 + 512 * (s - 2) \<le> msize m"
    using assms(3,4) by (auto intro: apart_sub [OF assms(5)])
  have s: "2 + (s - 2) = s" "1024 + 512 * (s - 2) = 512 * s" using assms(3) by simp_all
  obtain m' where m': "read_run rdk start [2..<s] 0x2400 m = Inr m'"
    "only_changed scratch (poke (poke a 0x2000 (file_range sector start 0 1024)) 0x2400 (file_range sector start (512 * 2) (512 * (s - 2)))) m'"
    "ready m'"
    using read_run_refines [OF assms(1,2) room _ ap, of start 2] unfolding s(1) by auto
  have "file_range sector start 0 (1024 + 512 * (s - 2)) = file_range sector start 0 1024 @ file_range sector start 1024 (512 * (s - 2))"
    by (simp add: file_range_append)
  then have "poke (poke a 0x2000 (file_range sector start 0 1024)) 0x2400 (file_range sector start (512 * 2) (512 * (s - 2))) =
      poke a 0x2000 (file_range sector start 0 (1024 + 512 * (s - 2)))"
    using poke_append [of a "0x2000" "file_range sector start 0 1024"] by simp
  then show ?thesis using m' by (simp add: s(2))
qed

lemma bz_main_refines:
  fixes m :: mem
  defines "h \<equiv> file_range sector 539 0 1024"
  defines "s \<equiv> real_mode_sectors (kfield h ''setup_sects'')" and "n \<equiv> unat (image_sectors h)"
  assumes magic: "header_magic h" and ok: "header_supported h" and room: "0x100000 + 512 * (n - s) \<le> msize m"
    and sim: "only_changed scratch a m" "ready m" "apart scratch 0x2000 (512 * s)" "apart scratch 0x100000 (512 * (n - s))"
  shows "\<exists>m'. bz_main io rdk st m = Inr (JumpToSetup 0x2000 0x10000, st, m') \<and> only_changed scratch
    (handed (poke (poke a 0x2000 (file_range sector 539 0 (512 * s))) 0x100000 (file_range sector 539 (512 * s) (512 * (n - s))))) m'"
proof -
  let ?r = "poke a 0x2000 (file_range sector 539 0 (512 * s))"
  have s: "2 \<le> s" "s \<le> 64"
    using real_mode_sectors_bounds ok unfolding s_def header_supported_def by auto
  have ap: "apart scratch 0x2000 1024" "outside scratch 0x2211"
    using sim(3) s(1) by (fastforce simp: apart_def outside_def)+
  have sa: "msize a = msize m" using sim(1) by (simp add: only_changed_def)
  obtain m1 m2 where two: "rdk 0x2000 539 m = Inr m1" "rdk 0x2200 540 m1 = Inr m2" "only_changed scratch (poke a 0x2000 h) m2" "ready m2"
    using boot_sectors [OF sim(1,2) _ ap(1), of 539] room unfolding h_def by auto
  have sz: "msize m2 = msize m" using two(3) sa by (simp add: only_changed_def)
  obtain m3 where real: "read_run rdk 539 [2..<s] 0x2400 m2 = Inr m3" "only_changed scratch ?r m3" "ready m3"
    using real_mode_code [OF two(3) [unfolded h_def] two(4) s(1) _ sim(3)] s(2) room sz by auto
  have fields: "get_native Little KernelHeader_layout 0x2000 ''setup_sects'' m2 = Inr (kfield h ''setup_sects'' :: u8)"
    "get_native Little KernelHeader_layout 0x2000 ''boot_flag'' m2 = Inr (kfield h ''boot_flag'' :: u16)"
    "get_native Little KernelHeader_layout 0x2000 ''header'' m2 = Inr (kfield h ''header'' :: u32)"
    "get_native Little KernelHeader_layout 0x2000 ''syssize'' m3 = Inr (kfield h ''syssize'' :: u32)"
    "get_native Little KernelHeader_layout 0x2000 ''version'' m3 = Inr (kfield h ''version'' :: u16)"
    "get_native Little KernelHeader_layout 0x2000 ''loadflags'' m3 = Inr (kfield h ''loadflags'' :: u8)"
    using s room sa by (simp_all add: h_def kh_offsets header_prefix header_prefix_two header_agree [OF two(3) ap(1)] header_agree [OF real(2) ap(1)])
  have "msize m3 = msize m" using real(2) sa by (simp add: only_changed_def)
  then obtain m4 where run: "read_run rdk 539 [s..<n] 0x100000 m3 = Inr m4" "msize m4 = msize m"
    "only_changed scratch (poke ?r 0x100000 (file_range sector 539 (512 * s) (512 * (n - s)))) m4"
    using read_run_refines [OF real(2,3) _ _ sim(4), of 539 s] room sa real
    by (cases "s \<le> n") (auto simp: file_range_def only_changed_def)
  have small: "kfield h ''setup_sects'' \<noteq> (255 :: u8)" using ok by (auto simp: header_supported_def)
  note count = setup_sectors_count [OF small, folded s_def]
  have img: "(ucast (setup_sectors (kfield h ''setup_sects'' :: u8)) * 512 + kfield h ''syssize'' * 16 :: u32) div 512 = image_sectors h"
    unfolding count image_sectors_def s_def ..
  have "bz_main io rdk st m = Inr (JumpToSetup 0x2000 0x10000, st, handed m4)"
    using magic ok room run(2)
    by (simp add: bz_main_def LINUX_SECTOR_SIZE_def two fields real run(1) img header_magic_def header_supported_def
        count(1) n_def [symmetric] hand_over_ok not_less [symmetric])
  then show ?thesis using handed_agree [OF run(3) ap(2)] by blast
qed

end

context sector_source
begin

lemma bz_main_ok:
  fixes m :: mem
  defines "h \<equiv> file_range sector 539 0 1024"
  defines "s \<equiv> real_mode_sectors (kfield h ''setup_sects'')" and "n \<equiv> unat (image_sectors h)"
  assumes "header_magic h" and "header_supported h" and "0x100000 + 512 * (n - s) \<le> msize m"
  shows "bz_main io rdk st m = Inr (JumpToSetup 0x2000 0x10000, st,
    handed (poke (poke m 0x2000 (file_range sector 539 0 (512 * s))) 0x100000 (file_range sector 539 (512 * s) (512 * (n - s)))))"
  using plain.bz_main_refines [of m m io st] assms by (auto simp: only_changed_nil apart_def)

end

section \<open>Extracting the payload\<close>

text \<open>A file of \<open>n\<close> bytes mapped over whole pages: its bytes and zeros.\<close>

definition map_file :: "u8 list \<Rightarrow> u64 \<Rightarrow> mem" where
  "map_file bs n = poke (blank (unat n)) 0 bs"

text \<open>Where the payload lies in a file with that header.\<close>

definition payload_start :: "u8 list \<Rightarrow> nat" where
  "payload_start h = unat (kfield h ''payload_offset'' :: u32) + 512 * real_mode_sectors (kfield h ''setup_sects'')"

definition payload_size :: "u8 list \<Rightarrow> nat" where
  "payload_size h = unat (kfield h ''payload_length'' :: u32)"

lemma page_round:
  assumes "unat (n :: u64) < 2 ^ 63"
  shows "unat n \<le> unat ((n + 4095) div 4096 * 4096)"
proof -
  have add: "unat (n + 4095) = unat n + 4095" using assms by (subst unat_add_ok) simp_all
  have le: "(unat n + 4095) div 4096 * 4096 \<le> unat n + 4095" by simp
  have "unat ((n + 4095) div 4096 * 4096) = (unat n + 4095) div 4096 * 4096"
    using assms le by (subst unat_mult_ok) (simp_all add: unat_div add)
  moreover have "unat n \<le> (unat n + 4095) div 4096 * 4096"
    using div_mult_mod_eq [of "unat n + 4095" 4096] mod_less_divisor [of 4096 "unat n + 4095"] by linarith
  ultimately show ?thesis by simp
qed

lemma BiGetPayload_cases:
  assumes "1024 \<le> length bs" and "length bs \<le> unat n" and "header_magic bs \<longrightarrow> kfield bs ''setup_sects'' \<noteq> (255 :: u8)"
  shows "BiGetPayload (map_file bs n) =
    Inr (if header_magic bs then Some (of_nat (payload_start bs), of_nat (payload_size bs)) else None)"
proof -
  have wide: "(kfield bs f :: u64) = of_nat (unat (kfield bs f :: u32))" if "field_size KernelHeader_layout f = 4" for f
  proof -
    have "length (sub_bytes (offsetof KernelHeader_layout f) 4 bs) \<le> 4" by (simp add: sub_bytes_def)
    then have "(ucast (kfield bs f :: u32) :: u64) = kfield bs f"
      unfolding kfield_def that by (intro ucast_le_dec) simp_all
    then show ?thesis by (metis of_nat_unat)
  qed
  have skip: "ucast (512 * ucast (setup_sectors n) :: u32) = (512 * of_nat (real_mode_sectors n) :: u64)" if "n \<noteq> 255" for n :: u8
  proof -
    have b: "real_mode_sectors n < 2 ^ 8"
      using unsigned_less [of "setup_sectors n", where 'a = nat] by (simp add: setup_sectors_count(1) [OF that])
    then have "unat (512 * of_nat (real_mode_sectors n) :: u32) = 512 * real_mode_sectors n"
      by (subst unat_mult_ok) (simp_all add: unat_of_nat_ok)
    then have "of_nat (unat (512 * of_nat (real_mode_sectors n) :: u32)) = (of_nat (512 * real_mode_sectors n) :: u64)" by (simp only:)
    then show ?thesis unfolding setup_sectors_count(2) [OF that] by simp
  qed
  show ?thesis
    using assms
    by (auto simp: BiGetPayload_def BiCheck_def header_magic_def map_file_def header_read msize_blank kh_offsets
        payload_start_def payload_size_def wide skip LINUX_SECTOR_SIZE_def)
qed

lemma third: "[a, b, c] ! 2 = c"
  by (simp add: numeral_2_eq_2)

lemma payload_bounds: "payload_start bs < 2 ^ 64" "payload_size bs < 2 ^ 64"
  using unsigned_less [of "kfield bs ''payload_offset'' :: u32", where 'a = nat]
    unsigned_less [of "kfield bs ''setup_sects'' :: u8", where 'a = nat]
    unsigned_less [of "kfield bs ''payload_length'' :: u32", where 'a = nat]
  by (simp_all add: payload_start_def payload_size_def real_mode_sectors_def)

section \<open>Properties\<close>

text \<open>A small kernel file: two setup sectors, two protected-mode sectors with a payload of five bytes.\<close>

definition demo_kernel :: "u8 list" where
  "demo_kernel = replicate 0x1f1 0 @ [1] @ [0, 0] @ [64, 0, 0, 0] @ replicate 6 0 @ [0x55, 0xaa] @ [0, 0] @
     [0x48, 0x64, 0x72, 0x53] @ [2, 2] @ replicate 9 0 @ [1] @ replicate 54 0 @ [16, 0, 0, 0] @ [5, 0, 0, 0] @ replicate 448 0 @
     [1, 2, 3, 4, 5]"

lemma length_demo_kernel: "length demo_kernel = 1045"
  by (simp add: demo_kernel_def)

lemma demo_kernel_bytes:
  "sub_bytes 0x1f1 1 demo_kernel = [1]" "sub_bytes 0x1f4 4 demo_kernel = [64, 0, 0, 0]"
  "sub_bytes 0x1fe 2 demo_kernel = [0x55, 0xaa]" "sub_bytes 0x202 4 demo_kernel = [0x48, 0x64, 0x72, 0x53]"
  "sub_bytes 0x206 2 demo_kernel = [2, 2]" "sub_bytes 0x211 1 demo_kernel = [1]"
  "sub_bytes 0x248 4 demo_kernel = [16, 0, 0, 0]" "sub_bytes 0x24c 4 demo_kernel = [5, 0, 0, 0]"
  by (simp_all add: sub_bytes_def demo_kernel_def)

lemma demo_kernel_fields:
  "kfield demo_kernel ''setup_sects'' = (1 :: u8)" "kfield demo_kernel ''syssize'' = (64 :: u32)"
  "kfield demo_kernel ''boot_flag'' = (0xaa55 :: u16)" "kfield demo_kernel ''header'' = (0x53726448 :: u32)"
  "kfield demo_kernel ''version'' = (0x0202 :: u16)" "kfield demo_kernel ''loadflags'' = (1 :: u8)"
  "kfield demo_kernel ''payload_offset'' = (16 :: u32)" "kfield demo_kernel ''payload_length'' = (5 :: u32)"
  using demo_kernel_bytes by (simp_all add: kfield_def kh_offsets push_bit_eq_mult)

definition demo_boot :: mem where
  "demo_boot = poke (blank 0) (512 * 539) demo_kernel"

lemma demo_boot_header: "file_range (image_sector demo_boot) 539 0 1024 = take 1024 demo_kernel"
  by (subst file_range_image) (simp_all add: demo_boot_def peek_poke_inside length_demo_kernel)

lemma kfield_take:
  "offsetof KernelHeader_layout f + field_size KernelHeader_layout f \<le> 1024 \<Longrightarrow> kfield (take 1024 bs) f = kfield bs f"
  by (simp add: kfield_def sub_bytes_def drop_take)

lemma demo_kernel_header:
  "header_magic (take 1024 demo_kernel)" "header_supported (take 1024 demo_kernel)"
  "image_sectors (take 1024 demo_kernel) = 4" "real_mode_sectors (kfield (take 1024 demo_kernel) ''setup_sects'') = 2"
  by (simp_all add: header_magic_def header_supported_def image_sectors_def real_mode_sectors_def kfield_take kh_offsets
      demo_kernel_fields LOADED_HIGH_def)

text \<open>
  C25: the kernel loader loads. When the sectors from 539 hold a kernel with the boot protocol header,
  version 2.02 or later, loaded high and with a setup code of at most 64 sectors, the loader jumps to
  the setup code with the real-mode part at 0x2000 and the whole sectors of the protected-mode part
  that the header announces at 0x100000; on top of them it changes only the loader fields of the
  header, the command line at 0x12000 and the 16-bit code at 0xa000, which have the documented values.
\<close>

theorem bz_main_loads:
  fixes m img :: mem
  defines "sector \<equiv> image_sector img"
  defines "h \<equiv> file_range sector 539 0 1024"
  defines "s \<equiv> real_mode_sectors (kfield h ''setup_sects'')" and "n \<equiv> unat (image_sectors h)"
  assumes "header_magic h" and "header_supported h" and "0x100000 + 512 * (n - s) \<le> msize m"
  shows "\<exists>m'. bz_main io (pio_disk img) st m = Inr (JumpToSetup 0x2000 0x10000, st, m') \<and>
    only_changed handed_ranges
      (poke (poke m 0x2000 (file_range sector 539 0 (512 * s))) 0x100000 (file_range sector 539 (512 * s) (512 * (n - s)))) m' \<and>
    get_native Little KernelHeader_layout 0x2000 ''type_of_loader'' m' = Inr (0xff :: u8) \<and>
    get_native Little KernelHeader_layout 0x2000 ''heap_end_ptr'' m' = Inr (0xfe00 :: u16) \<and>
    get_native Little KernelHeader_layout 0x2000 ''cmd_line_ptr'' m' = Inr (0x12000 :: u32) \<and>
    get_native Little KernelHeader_layout 0x2000 ''loadflags'' m' = Inr (kfield h ''loadflags'' OR 0x80 :: u8) \<and>
    peek m' 0x12000 (length LINUX_CMD_LINE + 1) = LINUX_CMD_LINE @ [0] \<and> peek m' 0xa000 (length code16) = code16"
proof -
  let ?m = "poke (poke m 0x2000 (file_range sector 539 0 (512 * s))) 0x100000 (file_range sector 539 (512 * s) (512 * (n - s)))"
  have s: "2 \<le> s" "s \<le> 64"
    using real_mode_sectors_bounds assms(6) unfolding s_def header_supported_def by auto
  have room: "0x13000 \<le> msize ?m" using assms(7) by simp
  have "get_native Little KernelHeader_layout 0x2000 ''loadflags'' ?m = Inr (kfield h ''loadflags'' :: u8)"
    using header_prefix [of "''loadflags''" s m sector 539, where 'a = 8] s assms(7)
    by (simp add: get_native_def kh_offsets h_def)
  then have flag: "mbyte ?m 0x2211 = kfield h ''loadflags''"
    using room by (simp add: get_native_def kh_offsets val_def peek_def)
  have "bz_main io (pio_disk img) st m = Inr (JumpToSetup 0x2000 0x10000, st, handed ?m)"
    using pio.bz_main_ok [of img m io st] assms unfolding sector_def h_def s_def n_def by blast
  then show ?thesis
    using handed_fields [OF room] unfolding flag by blast
qed

theorem bz_main_loads_witness:
  "\<exists>m'. bz_main (ata_drive demo_boot) (pio_disk demo_boot) drive_reset (blank 0x200000) =
     Inr (JumpToSetup 0x2000 0x10000, drive_reset, m') \<and> peek m' 0x12000 (length LINUX_CMD_LINE + 1) = LINUX_CMD_LINE @ [0]"
  using bz_main_loads [of demo_boot "blank 0x200000" "ata_drive demo_boot" drive_reset] demo_kernel_header
  by (auto simp: demo_boot_header msize_blank)

text \<open>
  The kernel loader refuses what it cannot boot. When the sectors at 539 lack the boot flag or the
  header magic, nothing but the two sectors at 0x2000 is loaded, the message DIE! goes to the serial
  port and the machine halts.
\<close>

theorem bz_main_refuses:
  assumes "\<not> header_magic (file_range (image_sector img) 539 0 1024)" and "0x2400 \<le> msize m"
  shows "bz_main io (pio_disk img) st m =
    Inr (Halted, fold (\<lambda>c. p_outb io 0x3f8 c) (bytes ''DIE!'') st, poke m 0x2000 (file_range (image_sector img) 539 0 1024))"
proof -
  have putch: "putch io = (\<lambda>c. p_outb io 0x3f8 c)"
    by (simp add: fun_eq_iff putch_def outb_def)
  have "pio_disk img 0x2000 539 m = Inr (poke m 0x2000 (image_sector img 539))"
    "pio_disk img 0x2200 540 (poke m 0x2000 (image_sector img 539)) =
       Inr (poke m 0x2000 (file_range (image_sector img) 539 0 1024))"
    using pio.plain.boot_sectors [of m m img 539] assms(2) pio.rdk_ok [of "0x2000" m img 539]
    by (auto simp: only_changed_nil apart_def)
  then show ?thesis
    using assms
    by (auto simp: bz_main_def LINUX_SECTOR_SIZE_def header_prefix_two kh_offsets header_magic_def die_def putch)
qed

theorem bz_main_refuses_witness:
  "\<exists>s m. bz_main (ata_drive (blank 0)) (pio_disk (blank 0)) drive_reset (blank 0x3000) = Inr (Halted, s, m)"
proof -
  have "file_range (image_sector (blank 0)) 539 0 1024 = replicate 1024 0"
    by (subst file_range_image) (simp_all add: peek_blank)
  then have "\<not> header_magic (file_range (image_sector (blank 0)) 539 0 1024)"
    by (simp add: header_magic_def kfield_def kh_offsets sub_bytes_def le_dec_zeros)
  then show ?thesis
    using bz_main_refuses [of "blank 0" "blank 0x3000" "ata_drive (blank 0)" drive_reset] by (auto simp: msize_blank)
qed

text \<open>
  C26: getpayload extracts the payload. For a file with the boot protocol magic whose payload lies
  inside it, with the system calls succeeding, exactly the payload_length bytes at payload_offset after
  the real-mode sectors (the boot sector and setup_sects more, 4 for a field of 0) are written to the
  output (a.img when none is named) and the exit code is 0; a file without the magic gives exit code 1
  and no output. A field of 255 is excluded: the 8-bit count of the program wraps to 0 there.
\<close>

theorem getpayload_main_extracts:
  fixes env :: payload_env and bs :: "u8 list"
  assumes "in_opens env" and "in_size env = Some (of_nat (length bs))" and "length bs < 2 ^ 63" and "1024 \<le> length bs"
    and "\<And>n. in_map env n = Some (map_file bs n)" and "argv = [prog, input] \<or> argv = [prog, input, out]"
    and "header_magic bs \<longrightarrow> kfield bs ''setup_sects'' \<noteq> (255 :: u8) \<and> payload_start bs + payload_size bs \<le> length bs"
    and "out_opens env" and "\<And>ds len. length ds = unat len \<Longrightarrow> out_write env len ds = len"
  shows "getpayload_main env argv =
    Inr (if header_magic bs
         then (0, Some (if length argv = 3 then out else ''a.img'', sub_bytes (payload_start bs) (payload_size bs) bs))
         else (1, None))"
proof (cases "header_magic bs")
  case False
  let ?n = "(of_nat (length bs) + 4095) div 4096 * 4096 :: u64"
  have "unat (of_nat (length bs) :: u64) = length bs"
    using assms(3) by (intro unat_of_nat_ok) simp
  then have "length bs \<le> unat ?n"
    using page_round [of "of_nat (length bs)"] assms(3) by simp
  then have b: "BiGetPayload (map_file bs ?n) = Inr None"
    using BiGetPayload_cases [OF assms(4)] False by simp
  from assms(6) show ?thesis
    by (elim disjE) (simp_all add: getpayload_main_def assms(1,2,5) b False third)
next
  case True
  have at: "kfield bs ''setup_sects'' \<noteq> (255 :: u8)" "payload_start bs + payload_size bs \<le> length bs"
    using assms(7) True by blast+
  let ?n = "(of_nat (length bs) + 4095) div 4096 * 4096 :: u64"
  have len: "unat (of_nat (length bs) :: u64) = length bs"
    using assms(3) by (intro unat_of_nat_ok) simp
  have n: "length bs \<le> unat ?n"
    using page_round [of "of_nat (length bs)"] assms(3) unfolding len by simp
  have r: "readable (map_file bs ?n) (payload_start bs) (payload_size bs) = sub_bytes (payload_start bs) (payload_size bs) bs"
    using at(2) n by (simp add: readable_def map_file_def msize_blank sub_bytes_def peek_poke_inside min_def)
  have "length (sub_bytes (payload_start bs) (payload_size bs) bs) = payload_size bs"
    using at(2) by (simp add: sub_bytes_def)
  then have w: "out_write env (of_nat (payload_size bs)) (sub_bytes (payload_start bs) (payload_size bs) bs) = of_nat (payload_size bs)"
    using payload_bounds by (intro assms(9)) (simp add: unat_of_nat_ok)
  have u: "unat (of_nat (payload_start bs) :: u64) = payload_start bs" "unat (of_nat (payload_size bs) :: u64) = payload_size bs"
    using payload_bounds by (intro unat_of_nat_ok, simp)+
  from assms(6) show ?thesis
    by (elim disjE) (simp_all add: getpayload_main_def assms(1,2,5,8) BiGetPayload_cases [OF assms(4) n] at(1) True u r w third)
qed

definition demo_env :: payload_env where
  "demo_env = \<lparr>in_opens = True, in_size = Some 1045, in_map = (\<lambda>n. Some (map_file demo_kernel n)), out_opens = True,
     out_write = (\<lambda>len ds. if length ds = unat len then len else 0)\<rparr>"

theorem getpayload_main_extracts_witness:
  "getpayload_main demo_env [''getpayload'', ''bzImage''] = Inr (0, Some (''a.img'', [1, 2, 3, 4, 5]))"
proof -
  have at: "payload_start demo_kernel = 1040" "payload_size demo_kernel = 5" "header_magic demo_kernel"
    by (simp_all add: payload_start_def payload_size_def demo_kernel_fields real_mode_sectors_def header_magic_def)
  have "sub_bytes 1040 5 demo_kernel = [1, 2, 3, 4, 5]"
    by (simp add: sub_bytes_def demo_kernel_def)
  then show ?thesis
    using getpayload_main_extracts [of demo_env demo_kernel "[''getpayload'', ''bzImage'']" "''getpayload''" "''bzImage''" "[]"]
    by (simp add: demo_env_def at length_demo_kernel demo_kernel_fields)
qed

end
