(* ===== verification/Start.thy ===== *)
theory Start
  imports Boot_Cpu Bzimage
begin

text \<open>
  The assembly around the loaders: \<open>mbr.S\<close>, which takes the machine from the BIOS into flat 32-bit code,
  \<open>bzsetup.S\<close>, which takes it back to real-address mode, and the 16-bit code that \<open>bzimage.c\<close> stores for
  the last jump, decoded from its bytes.
\<close>

section \<open>From the BIOS to 32-bit code\<close>

text \<open>The table and the pseudo-descriptor behind it; the labels are parameters.\<close>

definition mbr_gdt :: "u8 list" where
  "mbr_gdt = SEG_NULLASM @ SEG_ASM 0xA 0x0 0xffffffff @ SEG_ASM 0x2 0x0 0xffffffff"

definition mbr_table :: "u32 \<Rightarrow> u8 list" where
  "mbr_table gdt = mbr_gdt @ le_enc 2 (of_nat (length mbr_gdt) - 1 :: u16) @ le_enc 4 gdt"

definition mbr_entry16 :: "u16 \<Rightarrow> u32 \<Rightarrow> ins list" where
  "mbr_entry16 gdtdesc start32 =
     [Cli, Xorw EAX EAX, Movs EAX DS, Movs EAX ES, Movs EAX SS,
      Lgdt (Abs16 gdtdesc), Cr0_get EAX, Orl_i CR0_PE EAX, Cr0_set EAX, Ljmp (GDT_ENTRY 1) start32 True]"

definition mbr_entry32 :: "u32 \<Rightarrow> u32 \<Rightarrow> ins list" where
  "mbr_entry32 elf_start ret =
     [Movw_i (GDT_ENTRY 2) EAX, Movs EAX DS, Movs EAX ES, Movs EAX SS, Movl_i 0xa000 ESP, Calll elf_start ret]"

text \<open>How the BIOS enters a boot sector: 16-bit code in real-address mode, 64 KiB segments.\<close>

definition bios_entry :: "pc \<Rightarrow> bool" where
  "bios_entry s \<longleftrightarrow> \<not> protected s \<and> \<not> dbit s \<and> (\<forall>sg. slim s sg = 0xffff)"

lemma mbr_table_parts:
  assumes "peek m gdt 30 = mbr_table w"
  shows "peek m (gdt + 8) 8 = le_enc 8 (0x00cf9a000000ffff :: u64)" "peek m (gdt + 16) 8 = le_enc 8 (0x00cf92000000ffff :: u64)"
    "peek m (gdt + 24) 6 = le_enc 2 (23 :: u16) @ le_enc 4 w"
  using assms peek_concat [of 30 "[le_enc 8 (0 :: u64), le_enc 8 (0x00cf9a000000ffff :: u64), le_enc 8 (0x00cf92000000ffff :: u64),
      le_enc 2 (23 :: u16) @ le_enc 4 w]" m gdt]
  by (simp_all add: mbr_table_def mbr_gdt_def SEG_ASM_values add.assoc)

lemma unat_low24: "n < 2 ^ 24 \<Longrightarrow> unat (of_nat n AND 0xffffff :: u32) = n"
proof -
  assume "n < 2 ^ 24"
  moreover have "(of_nat n AND 0xffffff :: u32) = take_bit 24 (of_nat n)"
    by (simp add: take_bit_eq_mask mask_eq_exp_minus_1)
  ultimately show ?thesis by (simp add: unsigned_take_bit_eq take_bit_nat_eq_self unat_ok)
qed

lemma mbr_entry16_flat:
  assumes "bios_entry s" and "gdt + 30 \<le> 0x10000" and "0x10000 \<le> msize (mm s)"
    and "peek (mm s) gdt 30 = mbr_table (of_nat gdt)" and "unat start32 < 0x10000"
  shows "run bios (mbr_entry16 (of_nat (gdt + 24)) start32) s =
    Inr (s\<lparr>r32 := (r32 s)(EAX := cr0 s OR CR0_PE), sel := (sel s)(DS := 0, ES := 0, SS := 0, CS := 8),
      sbase := (sbase s)(DS := 0, ES := 0, SS := 0, CS := 0), slim := (slim s)(CS := 0xffffffff), dbit := True,
      cr0 := cr0 s OR CR0_PE, gdtb := gdt, gdtl := 23, intr := False, eip := start32\<rparr>)"
proof -
  have g: "unat (of_nat (gdt + 24) :: u16) = gdt + 24" "unat (of_nat gdt AND 0xffffff :: u32) = gdt"
    using assms(2) by (auto simp: unat_ok unat_low24)
  show ?thesis
    using assms mbr_table_parts [OF assms(4)] g
    by (simp add: mbr_entry16_def bios_entry_def machine_simps set_seg_real set_seg_table)
qed

lemma mbr_entry32_flat:
  assumes "protected s" and "gdtb s + 30 \<le> msize (mm s)" and "gdtl s = 23" and "0xa000 \<le> msize (mm s)"
    and "peek (mm s) (gdtb s) 30 = mbr_table w"
  shows "run bios (mbr_entry32 elf_start ret) s =
    Inr (s\<lparr>r32 := (r32 s)(EAX := low16 (r32 s EAX) 16, ESP := 0x9ffc), sel := (sel s)(DS := 16, ES := 16, SS := 16),
      sbase := (sbase s)(DS := 0, ES := 0, SS := 0), slim := (slim s)(DS := 0xffffffff, ES := 0xffffffff, SS := 0xffffffff),
      eip := elf_start, mm := poke (mm s) 0x9ffc (le_enc 4 ret)\<rparr>)"
  using assms mbr_table_parts [OF assms(5)]
  by (simp add: mbr_entry32_def machine_simps set_seg_table)

section \<open>From the loader to the kernel's setup code\<close>

text \<open>The table of \<open>bzsetup.S\<close>: a null entry and a code and a data segment of 64 KiB for real-address mode.\<close>

definition setup_descriptors :: "u8 list" where
  "setup_descriptors =
     le_enc 4 (0 :: u32) @ le_enc 4 (0 :: u32) @
     le_enc 2 (0xffff :: u16) @ le_enc 2 (0 :: u16) @ [0x00, 0x9a, 0x00, 0x00] @
     le_enc 2 (0xffff :: u16) @ le_enc 2 (0 :: u16) @ [0x00, 0x92, 0x00, 0x00]"

definition setup_table :: "u32 \<Rightarrow> u8 list" where
  "setup_table descriptors = le_enc 2 (of_nat (length setup_descriptors) - 1 :: u16) @ le_enc 4 descriptors"

definition jump_to_setup :: "u32 \<Rightarrow> u32 \<Rightarrow> ins list" where
  "jump_to_setup table nxt =
     [Pop EAX, Pop EDI, Pop EDX, Movl_r EDX ESP, Push EAX,
      Cli, Lgdt (Abs32 table), Ljmp (GDT_ENTRY 1) nxt False,
      Movl_i (ucast (GDT_ENTRY 2)) EAX, Movs EAX DS, Movs EAX ES, Movs EAX FS, Movs EAX GS, Movs EAX SS,
      Cr0_get EAX, Andl_i 0xfffffffe EAX, Cr0_set EAX,
      Ljmp 0x220 (0xa000 - 0x2200) False]"

lemma setup_descriptors_value:
  "setup_descriptors = le_enc 8 (0 :: u64) @ le_enc 8 (0x00009a000000ffff :: u64) @ le_enc 8 (0x000092000000ffff :: u64)"
  by code_simp

lemma setup_parts:
  assumes "peek m d 24 = setup_descriptors"
  shows "peek m (d + 8) 8 = le_enc 8 (0x00009a000000ffff :: u64)" "peek m (d + 16) 8 = le_enc 8 (0x000092000000ffff :: u64)"
  using assms peek_concat [of 24 "[le_enc 8 (0 :: u64), le_enc 8 (0x00009a000000ffff :: u64), le_enc 8 (0x000092000000ffff :: u64)]" m d]
  by (simp_all add: setup_descriptors_value add.assoc)

text \<open>The call \<open>jump_to_setup(base_ptr, heap_end)\<close> from flat 32-bit code.\<close>

definition setup_call :: "nat \<Rightarrow> nat \<Rightarrow> u32 \<Rightarrow> u32 \<Rightarrow> pc \<Rightarrow> bool" where
  "setup_call descr table base_ptr heap_end s \<longleftrightarrow>
     protected s \<and> dbit s \<and> (\<forall>sg\<in>{DS, SS}. flat (sbase s sg) (slim s sg)) \<and>
     unat (r32 s ESP) + 12 \<le> msize (mm s) \<and> msize (mm s) \<le> 2 ^ 32 \<and>
     peek (mm s) (unat (r32 s ESP) + 4) 4 = le_enc 4 base_ptr \<and> peek (mm s) (unat (r32 s ESP) + 8) 4 = le_enc 4 heap_end \<and>
     peek (mm s) descr 24 = setup_descriptors \<and> peek (mm s) table 6 = setup_table (of_nat descr) \<and>
     descr + 24 \<le> msize (mm s) \<and> table + 6 \<le> msize (mm s) \<and>
     4 \<le> unat heap_end \<and> unat heap_end \<le> msize (mm s) \<and> apart [(unat heap_end - 4, 4)] descr 24 \<and> apart [(unat heap_end - 4, 4)] table 6"

lemma all_segs: "g(CS := a, DS := b, ES := b, FS := b, GS := b, SS := b) = (\<lambda>_. b)(CS := a)"
proof
  fix x show "(g(CS := a, DS := b, ES := b, FS := b, GS := b, SS := b)) x = ((\<lambda>_. b)(CS := a)) x"
    by (cases x) simp_all
qed

lemma const_upd: "(\<lambda>_. b)(x := b) = (\<lambda>_. b)"
  by auto

text \<open>The switch itself, the same in \<open>bzsetup.S\<close> and in \<open>bios.S\<close>.\<close>

definition to_real :: "u32 \<Rightarrow> ins list" where
  "to_real nxt =
     [Ljmp (GDT_ENTRY 1) nxt False,
      Movl_i (ucast (GDT_ENTRY 2)) EAX, Movs EAX DS, Movs EAX ES, Movs EAX FS, Movs EAX GS, Movs EAX SS,
      Cr0_get EAX, Andl_i 0xfffffffe EAX, Cr0_set EAX]"

lemma to_real_run:
  assumes "protected s" and "23 \<le> gdtl s" and "gdtb s + 24 \<le> msize (mm s)"
    and "peek (mm s) (gdtb s) 24 = setup_descriptors" and "unat nxt \<le> 0xffff"
  shows "run bios (to_real nxt) s =
    Inr (s\<lparr>r32 := (r32 s)(EAX := cr0 s AND 0xfffffffe), sel := (\<lambda>_. 16)(CS := 8), sbase := (\<lambda>_. 0), slim := (\<lambda>_. 0xffff),
      dbit := False, cr0 := cr0 s AND 0xfffffffe, eip := nxt\<rparr>)"
proof -
  have cs: "set_seg CS 8 u = Inr (u\<lparr>sel := (sel u)(CS := 8), sbase := (sbase u)(CS := 0), slim := (slim u)(CS := 0xffff), dbit := False\<rparr>)"
    if "protected u" "gdtb u = gdtb s" "gdtl u = gdtl s" "mm u = mm s" for u
    using set_seg_table [of u 8 "0x00009a000000ffff" CS] that assms(2-4) setup_parts by simp
  have ds: "set_seg sg 16 u = Inr (u\<lparr>sel := (sel u)(sg := 16), sbase := (sbase u)(sg := 0), slim := (slim u)(sg := 0xffff)\<rparr>)"
    if "protected u" "gdtb u = gdtb s" "gdtl u = gdtl s" "mm u = mm s" "sg \<noteq> CS" for u sg
    using set_seg_table [of u 16 "0x000092000000ffff" sg] that assms(2-4) setup_parts by simp
  show ?thesis
    using assms(1,5) by (simp add: to_real_def machine_simps cs ds all_segs const_upd)
qed

lemma jump_to_setup_parts:
  "jump_to_setup table nxt =
     [Pop EAX, Pop EDI, Pop EDX, Movl_r EDX ESP, Push EAX, Cli, Lgdt (Abs32 table)] @ to_real nxt @ [Ljmp 0x220 0x7e00 False]"
  by (simp add: jump_to_setup_def to_real_def)

lemma jump_to_setup_run:
  assumes "setup_call descr table base_ptr heap_end s" and "unat nxt \<le> 0xffff"
  shows "run bios (jump_to_setup (of_nat table) nxt) s =
    Inr (s\<lparr>r32 := (r32 s)(EAX := cr0 s AND 0xfffffffe, EDI := base_ptr, EDX := heap_end, ESP := heap_end - 4),
      sel := (\<lambda>_. 16)(CS := 0x220), sbase := (\<lambda>_. 0)(CS := 0x2200), slim := (\<lambda>_. 0xffff), dbit := False,
      cr0 := cr0 s AND 0xfffffffe, gdtb := descr, gdtl := 23, intr := False, eip := 0x7e00,
      mm := poke (mm s) (unat heap_end - 4) (peek (mm s) (unat (r32 s ESP)) 4)\<rparr>)"
proof -
  note call = assms(1) [unfolded setup_call_def]
  have u: "unat (4 + r32 s ESP) = unat (r32 s ESP) + 4" "unat (8 + r32 s ESP) = unat (r32 s ESP) + 8"
    "unat (r32 s ESP + 4) = unat (r32 s ESP) + 4" "unat heap_end - 4 \<le> 0xfffffffc"
    "unat (heap_end - 4) = unat heap_end - 4" "unat (of_nat table :: u32) = table" "unat (of_nat descr :: u32) = descr"
    using call by (auto simp: unat_ok)
  let ?m = "poke (mm s) (unat heap_end - 4) (peek (mm s) (unat (r32 s ESP)) 4)"
  have m: "peek ?m descr 24 = setup_descriptors" "peek ?m table 6 = setup_table (of_nat descr)"
    using call by (auto simp: apart_def)
  let ?t = "s\<lparr>r32 := (r32 s)(EAX := le_dec (peek (mm s) (unat (r32 s ESP)) 4), EDI := base_ptr, EDX := heap_end, ESP := heap_end - 4),
      gdtb := descr, gdtl := 23, intr := False, mm := ?m\<rparr>"
  have stack: "run bios [Pop EAX, Pop EDI, Pop EDX, Movl_r EDX ESP, Push EAX, Cli, Lgdt (Abs32 (of_nat table))] s = Inr ?t"
    using call u m
    by (simp add: machine_simps flat_def le_enc_dec_eq setup_table_def setup_descriptors_def fun_upd_twist)
  have switch: "run bios (to_real nxt) ?t =
    Inr (?t\<lparr>r32 := (r32 ?t)(EAX := cr0 s AND 0xfffffffe), sel := (\<lambda>_. 16)(CS := 8), sbase := (\<lambda>_. 0), slim := (\<lambda>_. 0xffff),
      dbit := False, cr0 := cr0 s AND 0xfffffffe, eip := nxt\<rparr>)"
    using to_real_run [of ?t nxt bios] call m(1) assms(2) by simp
  show ?thesis
    unfolding jump_to_setup_parts run_then [OF stack] run_then [OF switch]
    by (simp add: set_seg_real fun_upd_twist)
qed

section \<open>The 16-bit code\<close>

text \<open>The instructions the bytes stand for; the three-byte one has a 16-bit operand.\<close>

fun decode16 :: "u8 list \<Rightarrow> ins list option" where
  "decode16 [] = Some []"
| "decode16 [a] = None"
| "decode16 [a, b] =
     (if a = 0x31 \<and> b = 0xc0 then Some [Xorw EAX EAX] else if a = 0xff \<and> b = 0xe0 then Some [Jmpw EAX] else None)"
| "decode16 (a # b # c # bs) =
     (if a = 0x31 \<and> b = 0xc0 then map_option (Cons (Xorw EAX EAX)) (decode16 (c # bs))
      else if a = 0x05 then map_option (Cons (Addw_i (le_dec [b, c]) EAX)) (decode16 bs)
      else if a = 0x8e \<and> b = 0xd8 then map_option (Cons (Movs EAX DS)) (decode16 (c # bs))
      else if a = 0x8e \<and> b = 0xd0 then map_option (Cons (Movs EAX SS)) (decode16 (c # bs))
      else if a = 0x8e \<and> b = 0xc0 then map_option (Cons (Movs EAX ES)) (decode16 (c # bs))
      else if a = 0x8e \<and> b = 0xe0 then map_option (Cons (Movs EAX FS)) (decode16 (c # bs))
      else if a = 0x8e \<and> b = 0xe8 then map_option (Cons (Movs EAX GS)) (decode16 (c # bs))
      else None)"

text \<open>Running the \<open>n\<close> bytes of 16-bit code at the next instruction.\<close>

definition run_bytes :: "bios \<Rightarrow> nat \<Rightarrow> pc \<Rightarrow> pc res" where
  "run_bytes bios n s =
     (case decode16 (peek (mm s) (next_linear s) n) of
        None \<Rightarrow> Inl WildAccess
      | Some is \<Rightarrow> if dbit s then Inl WildAccess else run bios is s)"

definition to_setup :: "bios \<Rightarrow> u32 \<Rightarrow> u32 \<Rightarrow> nat \<Rightarrow> pc \<Rightarrow> pc res" where
  "to_setup bios table nxt n s = bindE (run bios (jump_to_setup table nxt) s) (run_bytes bios n)"

lemma decode_code16:
  "decode16 code16 =
     Some [Xorw EAX EAX, Addw_i 0x200 EAX, Movs EAX DS, Movs EAX SS, Movs EAX ES, Movs EAX FS, Movs EAX GS, Xorw EAX EAX, Jmpw EAX]"
  by (simp add: code16_def)

lemma data_segs: "g(DS := b, SS := b, ES := b, FS := b, GS := b) = (\<lambda>_. b)(CS := g CS)"
proof
  fix x show "(g(DS := b, SS := b, ES := b, FS := b, GS := b)) x = ((\<lambda>_. b)(CS := g CS)) x" by (cases x) simp_all
qed

lemma run_code16:
  assumes "\<not> protected s"
  shows "run bios [Xorw EAX EAX, Addw_i 0x200 EAX, Movs EAX DS, Movs EAX SS, Movs EAX ES, Movs EAX FS, Movs EAX GS, Xorw EAX EAX, Jmpw EAX] s =
    Inr (s\<lparr>r32 := (r32 s)(EAX := low16 (r32 s EAX) 0), sel := (\<lambda>_. 0x200)(CS := sel s CS),
      sbase := (\<lambda>_. 0x2000)(CS := sbase s CS), eip := 0\<rparr>)"
  using assms by (simp add: machine_simps set_seg_real data_segs)

lemma setup_reached:
  assumes "setup_call descr table base_ptr heap_end s" and "unat nxt \<le> 0xffff"
    and "peek (mm s) 0xa000 (length code16) = code16" and "apart [(unat heap_end - 4, 4)] 0xa000 (length code16)"
  shows "\<exists>t. to_setup bios (of_nat table) nxt (length code16) s = Inr t \<and> \<not> protected t \<and> \<not> dbit t \<and> \<not> intr t \<and>
    next_linear t = 0x2200 \<and> sel t CS = 0x220 \<and> (\<forall>sg. sg \<noteq> CS \<longrightarrow> sel t sg = 0x200 \<and> sbase t sg = 0x2000) \<and>
    (\<forall>sg. slim t sg = 0xffff) \<and> r32 t ESP = heap_end - 4 \<and> r32 t EDI = base_ptr \<and>
    mm t = poke (mm s) (unat heap_end - 4) (peek (mm s) (unat (r32 s ESP)) 4)"
proof -
  obtain u where u: "run bios (jump_to_setup (of_nat table) nxt) s = Inr u" "\<not> protected u" "\<not> dbit u" "\<not> intr u"
    "sel u CS = 0x220" "sbase u CS = 0x2200" "slim u = (\<lambda>_. 0xffff)" "eip u = 0x7e00" "r32 u ESP = heap_end - 4"
    "r32 u EDI = base_ptr" "mm u = poke (mm s) (unat heap_end - 4) (peek (mm s) (unat (r32 s ESP)) 4)"
    using jump_to_setup_run [OF assms(1,2), of bios] by simp
  have at: "peek (mm u) (next_linear u) (length code16) = code16"
    using assms(3,4) by (auto simp: next_linear_def u apart_def)
  have "run_bytes bios (length code16) u =
    Inr (u\<lparr>r32 := (r32 u)(EAX := low16 (r32 u EAX) 0), sel := (\<lambda>_. 0x200)(CS := sel u CS), sbase := (\<lambda>_. 0x2000)(CS := sbase u CS), eip := 0\<rparr>)"
    using run_code16 [OF u(2), of bios] u(3) by (simp add: run_bytes_def at decode_code16)
  then show ?thesis
    using u by (simp add: to_setup_def next_linear_def)
qed

section \<open>Properties\<close>

text \<open>
  C29: the boot sector's first instructions. Entered by the BIOS in real-address mode, mbr.S reaches the
  C entry point with interrupts off, in 32-bit protected mode, with code, data, extra and stack segments
  that all cover the four gigabytes from address 0: the flat memory in which the C loaders are written.
  The stack starts below 0xa000, and memory changes only in the pushed return address.
\<close>

theorem mbr_enters_flat_code:
  assumes "bios_entry s" and "gdt + 30 \<le> 0x10000" and "0x10000 \<le> msize (mm s)"
    and "peek (mm s) gdt 30 = mbr_table (of_nat gdt)" and "unat start32 < 0x10000"
  shows "\<exists>t. run bios (mbr_entry16 (of_nat (gdt + 24)) start32 @ mbr_entry32 elf_start ret) s = Inr t \<and>
    protected t \<and> dbit t \<and> \<not> intr t \<and> (\<forall>sg\<in>{CS, DS, ES, SS}. flat (sbase t sg) (slim t sg)) \<and>
    next_linear t = unat elf_start \<and> r32 t ESP = 0x9ffc \<and> mm t = poke (mm s) 0x9ffc (le_enc 4 ret)"
  unfolding run_then [OF mbr_entry16_flat [OF assms]]
  by (subst mbr_entry32_flat [of _ "of_nat gdt"]) (use assms in \<open>simp_all add: flat_def next_linear_def\<close>)

text \<open>
  C28: entering the kernel's setup code. Called from flat 32-bit code with a base address and a heap end,
  jump_to_setup switches to real-address mode and runs the 19 bytes that the loader stored at 0xa000;
  they end at linear address 0x2200 with cs = 0x220 and all other segments 0x200, 64 KiB limits, interrupts
  off and the stack four bytes below the heap end, which is the state the boot protocol asks for at the
  setup entry point when the base address is 0x2000.
\<close>

theorem setup_entered:
  assumes "setup_call descr table base_ptr heap_end s" and "unat nxt \<le> 0xffff"
    and "peek (mm s) 0xa000 (length code16) = code16" and "apart [(unat heap_end - 4, 4)] 0xa000 (length code16)"
  shows "\<exists>t. to_setup bios (of_nat table) nxt (length code16) s = Inr t \<and> \<not> protected t \<and> \<not> dbit t \<and> \<not> intr t \<and>
    next_linear t = 0x2200 \<and> sel t CS = 0x220 \<and> (\<forall>sg. sg \<noteq> CS \<longrightarrow> sel t sg = 0x200 \<and> sbase t sg = 0x2000) \<and>
    (\<forall>sg. slim t sg = 0xffff) \<and> r32 t ESP = heap_end - 4 \<and> r32 t EDI = base_ptr \<and>
    mm t = poke (mm s) (unat heap_end - 4) (peek (mm s) (unat (r32 s ESP)) 4)"
  by (rule setup_reached [OF assms])

text \<open>Concrete machines: one as the BIOS leaves it, one at the call of \<open>jump_to_setup\<close>.\<close>

definition boot_pc :: "mem \<Rightarrow> pc" where
  "boot_pc m = \<lparr>r32 = (\<lambda>_. 0), sel = (\<lambda>_. 0), sbase = (\<lambda>_. 0), slim = (\<lambda>_. 0xffff), dbit = False, cr0 = 0, gdtb = 0, gdtl = 0,
     carry = False, intr = True, eip = 0x7c00, mm = m\<rparr>"

definition flat_pc :: "u32 \<Rightarrow> mem \<Rightarrow> pc" where
  "flat_pc sp m = (boot_pc m)\<lparr>r32 := (\<lambda>_. 0)(ESP := sp), slim := (\<lambda>_. 0xffffffff), dbit := True, cr0 := 1\<rparr>"

lemma flat_pc_simps [simp]:
  "protected (flat_pc sp m)" "dbit (flat_pc sp m)" "sbase (flat_pc sp m) sg = 0" "slim (flat_pc sp m) sg = 0xffffffff"
  "r32 (flat_pc sp m) ESP = sp" "mm (flat_pc sp m) = m"
  by (simp_all add: flat_pc_def boot_pc_def protected_def CR0_PE_def)

definition no_bios :: bios where
  "no_bios g ds ss m = (g, True, m)"

theorem mbr_enters_flat_code_witness:
  "\<exists>t. run no_bios (mbr_entry16 (of_nat (0x7c40 + 24)) 0x7c20 @ mbr_entry32 0x7c80 0x7c3c)
       (boot_pc (poke (blank 0x10000) 0x7c40 (mbr_table (of_nat 0x7c40)))) = Inr t \<and> protected t \<and> next_linear t = 0x7c80"
proof -
  have "length (mbr_table w) = 30" for w by (simp add: mbr_table_def mbr_gdt_def SEG_ASM_def SEG_NULLASM_def)
  then show ?thesis
    using mbr_enters_flat_code [of "boot_pc (poke (blank 0x10000) 0x7c40 (mbr_table (of_nat 0x7c40)))" "0x7c40" "0x7c20" no_bios "0x7c80" "0x7c3c"]
    by (auto simp: bios_entry_def boot_pc_def protected_def msize_blank)
qed

definition handoff_mem :: mem where
  "handoff_mem = poke (poke (poke (poke (blank 0x20000) 0x1300 setup_descriptors) 0x1320 (setup_table 0x1300)) 0x9000
     (le_enc 4 (0 :: u32) @ le_enc 4 (0x2000 :: u32) @ le_enc 4 (0x10000 :: u32))) 0xa000 code16"

theorem setup_entered_witness:
  "\<exists>t. to_setup no_bios (of_nat 0x1320) 0x1400 (length code16) (flat_pc 0x9000 handoff_mem) = Inr t \<and>
     \<not> protected t \<and> next_linear t = 0x2200 \<and> r32 t ESP = 0xfffc"
proof -
  have len: "length setup_descriptors = 24" "length (setup_table w) = 6" for w
    by (simp_all add: setup_descriptors_value setup_table_def)
  have frame: "peek handoff_mem 0x9000 12 = concat [le_enc 4 (0 :: u32), le_enc 4 (0x2000 :: u32), le_enc 4 (0x10000 :: u32)]"
    by (simp add: handoff_mem_def length_code16)
  then have "setup_call 0x1300 0x1320 0x2000 0x10000 (flat_pc 0x9000 handoff_mem)"
    unfolding setup_call_def
    using peek_concat [of 12 "[le_enc 4 (0 :: u32), le_enc 4 (0x2000 :: u32), le_enc 4 (0x10000 :: u32)]" handoff_mem "0x9000"]
    by (simp add: flat_def apart_def) (simp add: handoff_mem_def len length_code16 msize_blank)
  from setup_entered [OF this, of "0x1400" no_bios] show ?thesis
    by (auto simp: apart_def length_code16 handoff_mem_def)
qed

end
