(* ===== verification/Bios.thy ===== *)
theory Bios
  imports Start
begin

text \<open>
  \<open>bios/bios.S\<close>: reading a sector through the BIOS from 32-bit code, instruction by instruction: saving the
  registers, leaving protected mode, filling in the disk address packet, the interrupt, and the way back.
\<close>

section \<open>The routine\<close>

text \<open>The labels: the packet, its neighbours \<open>mode\<close>, \<open>ksector\<close> and \<open>ksector_high\<close>, the descriptors and the table.\<close>

record bios_labels =
  disk_address_packet :: u32
  table_label :: u32
  step2 :: u32
  do_read_disk :: u32
  restore :: u32

definition ksector :: "bios_labels \<Rightarrow> u32" where
  "ksector L = disk_address_packet L + 14"

definition ksector_high :: "bios_labels \<Rightarrow> u32" where
  "ksector_high L = disk_address_packet L + 18"

definition bios_save :: "bios_labels \<Rightarrow> ins list" where
  "bios_save L =
     [Movl_ld (Ind32 4 ESP) EAX, Push EBX, Movl_ld (Ind32 12 ESP) EBX,
      Push ECX, Push EDX, Push ESI, Push EDI, Push EBP,
      Movl_i (ksector L) ECX, Movl_st EAX (Ind32 0 ECX), Shrl 4 EBX,
      Movl_i (disk_address_packet L) ECX, Addl_i 6 ECX, Movw_st EBX (Ind32 0 ECX),
      Cli, Lgdt (Abs32 (table_label L))]"

definition bios_packet :: "bios_labels \<Rightarrow> ins list" where
  "bios_packet L =
     [Xorl EAX EAX, Movs EAX DS, Movs EAX ES, Movs EAX FS, Movs EAX GS, Movs EAX SS,
      Movw_i (ucast (disk_address_packet L)) ESI, Xorw EAX EAX, Movw_st EAX (Ind16 4 ESI), Incw EAX,
      Movb_st EAX (Ind16 (- 1) ESI), Movw_st EAX (Ind16 2 ESI), Movw_sti 0x0010 (Ind16 0 ESI),
      Movl_ld (Abs16 (ucast (ksector L))) EBX, Movl_st EBX (Ind16 8 ESI),
      Movl_ld (Abs16 (ucast (ksector_high L))) EBX, Movl_st EBX (Ind16 12 ESI),
      Movb_hi 0x42 EAX, Movb_lo 0x80 EDX]"

definition bios_back :: "bios_labels \<Rightarrow> ins list" where
  "bios_back L = [Shrw 8 EAX, Cr0_get EBX, Orl_i CR0_PE EBX, Cr0_set EBX, Ljmp (GDT_ENTRY 3) (restore L) True]"

definition bios_restore :: "ins list" where
  "bios_restore =
     [Cli, Movl_i (ucast (GDT_ENTRY 4)) EBX, Movs EBX DS, Movs EBX ES, Movs EBX FS, Movs EBX GS, Movs EBX SS,
      Pop EBP, Pop EDI, Pop ESI, Pop EDX, Pop ECX, Pop EBX, Retl]"

definition bios_read_disk :: "bios_labels \<Rightarrow> ins list" where
  "bios_read_disk L =
     bios_save L @ to_real (step2 L) @ [Ljmp 0 (do_read_disk L) False] @ bios_packet L @ [Int13] @ bios_back L @ bios_restore"

text \<open>The descriptors behind the code: the two of \<open>bzsetup.S\<close>, then flat 32-bit code and data.\<close>

definition bios_descriptors :: "u8 list" where
  "bios_descriptors =
     setup_descriptors @
     le_enc 2 (0xffff :: u16) @ le_enc 2 (0 :: u16) @ [0x00, 0x9a, 0xcf, 0x00] @
     le_enc 2 (0xffff :: u16) @ le_enc 2 (0 :: u16) @ [0x00, 0x92, 0xcf, 0x00]"

definition bios_table :: "u32 \<Rightarrow> u8 list" where
  "bios_table descriptors = le_enc 2 (of_nat (length bios_descriptors) - 1 :: u16) @ le_enc 4 descriptors"

text \<open>
  The data of the routine in memory: the packet with its neighbours from \<open>pkt - 1\<close>, the descriptors on the
  next multiple of 16 and the table on the one after them.
\<close>

definition bios_data :: "nat \<Rightarrow> nat \<Rightarrow> mem \<Rightarrow> bool" where
  "bios_data pkt descr m \<longleftrightarrow>
     1 \<le> pkt \<and> pkt + 22 \<le> descr \<and> descr + 54 \<le> 0x10000 \<and> 0x10000 \<le> msize m \<and> msize m \<le> 2 ^ 32 \<and>
     peek m (pkt + 18) 4 = [0, 0, 0, 0] \<and> peek m descr 40 = bios_descriptors \<and> peek m (descr + 48) 6 = bios_table (of_nat descr)"

definition bios_label_ok :: "bios_labels \<Rightarrow> nat \<Rightarrow> nat \<Rightarrow> bool" where
  "bios_label_ok L pkt descr \<longleftrightarrow>
     disk_address_packet L = of_nat pkt \<and> table_label L = of_nat (descr + 48) \<and>
     unat (step2 L) \<le> 0xffff \<and> unat (do_read_disk L) \<le> 0xffff \<and> unat (restore L) \<le> 0xffff"

lemma bios_descriptors_value:
  "bios_descriptors = concat [le_enc 8 (0 :: u64), le_enc 8 (0x00009a000000ffff :: u64), le_enc 8 (0x000092000000ffff :: u64),
     le_enc 8 (0x00cf9a000000ffff :: u64), le_enc 8 (0x00cf92000000ffff :: u64)]"
  by code_simp

lemma bios_parts:
  assumes "peek m d 40 = bios_descriptors"
  shows "peek m d 24 = setup_descriptors" "peek m (d + 24) 8 = le_enc 8 (0x00cf9a000000ffff :: u64)"
    "peek m (d + 32) 8 = le_enc 8 (0x00cf92000000ffff :: u64)"
proof -
  have "pieces_at m d [setup_descriptors, le_enc 8 (0x00cf9a000000ffff :: u64), le_enc 8 (0x00cf92000000ffff :: u64)]"
    using assms peek_concat [of 40 "[setup_descriptors, le_enc 8 (0x00cf9a000000ffff :: u64), le_enc 8 (0x00cf92000000ffff :: u64)]" m d]
    by (simp add: bios_descriptors_value setup_descriptors_value)
  then show "peek m d 24 = setup_descriptors" "peek m (d + 24) 8 = le_enc 8 (0x00cf9a000000ffff :: u64)"
    "peek m (d + 32) 8 = le_enc 8 (0x00cf92000000ffff :: u64)"
    by (simp_all add: setup_descriptors_value add.commute)
qed

section \<open>Step by step\<close>

text \<open>The registers on the stack, lowest address first.\<close>

definition saved :: "(reg32 \<Rightarrow> u32) \<Rightarrow> u8 list" where
  "saved g = concat (map (le_enc 4) (map g [EBP, EDI, ESI, EDX, ECX, EBX]))"

lemma bios_push_run:
  assumes "sbase s SS = 0" "slim s SS = 0xffffffff" and "unat (r32 s ESP) = b + 24" and "b + 36 \<le> msize (mm s)" "msize (mm s) \<le> 2 ^ 32"
    and "peek (mm s) (b + 28) 4 = le_enc 4 sect" and "peek (mm s) (b + 32) 4 = le_enc 4 addr"
  shows "run bios [Movl_ld (Ind32 4 ESP) EAX, Push EBX, Movl_ld (Ind32 12 ESP) EBX, Push ECX, Push EDX, Push ESI, Push EDI, Push EBP] s =
    Inr (s\<lparr>r32 := (r32 s)(EAX := sect, EBX := addr, ESP := r32 s ESP - 24), mm := poke (mm s) b (saved (r32 s))\<rparr>)"
proof -
  have sp: "unat (r32 s ESP - 4) = b + 20" "unat (r32 s ESP - 8) = b + 16" "unat (r32 s ESP - 12) = b + 12"
    "unat (r32 s ESP - 16) = b + 8" "unat (r32 s ESP - 20) = b + 4" "unat (r32 s ESP - 24) = b"
    "unat (r32 s ESP + 4) = b + 28" "unat (8 + r32 s ESP) = b + 32"
    using assms(3-5) by (simp_all add: unat_ok)
  show ?thesis
    using assms by (simp add: machine_simps sp saved_def poke_before fun_upd_twist)
qed

lemma bios_patch_run:
  assumes "sbase s DS = 0" "slim s DS = 0xffffffff" and "dbit s" and "bios_label_ok L pkt descr"
    and "pkt + 22 \<le> descr" "descr + 54 \<le> 0x10000" "0x10000 \<le> msize (mm s)" "peek (mm s) (descr + 48) 6 = bios_table (of_nat descr)"
  shows "run bios [Movl_i (ksector L) ECX, Movl_st EAX (Ind32 0 ECX), Shrl 4 EBX,
      Movl_i (disk_address_packet L) ECX, Addl_i 6 ECX, Movw_st EBX (Ind32 0 ECX), Cli, Lgdt (Abs32 (table_label L))] s =
    Inr (s\<lparr>r32 := (r32 s)(EBX := drop_bit 4 (r32 s EBX), ECX := of_nat (pkt + 6)),
      gdtb := descr, gdtl := 39, intr := False,
      mm := poke (poke (mm s) (pkt + 14) (le_enc 4 (r32 s EAX))) (pkt + 6) (le_enc 2 (drop_bit 4 (r32 s EBX)))\<rparr>)"
proof -
  have lb: "unat (of_nat pkt + 14 :: u32) = pkt + 14" "unat (of_nat pkt + 6 :: u32) = pkt + 6" "unat (of_nat descr + 48 :: u32) = descr + 48"
    "unat (of_nat descr :: u32) = descr" "length bios_descriptors = 40"
    using assms(5,6) by (simp_all add: unat_ok bios_descriptors_value)
  show ?thesis
    using assms by (simp add: machine_simps lb bios_label_ok_def ksector_def bios_table_def fun_upd_twist)
qed

text \<open>The packet for one block: size, count, buffer offset and segment, and the 64-bit block number.\<close>

definition packet :: "u16 \<Rightarrow> u64 \<Rightarrow> u8 list" where
  "packet sg n = [0x10, 0, 1, 0, 0, 0] @ le_enc 2 sg @ le_enc 8 n"

lemma const_segs: "g(DS := b, ES := b, FS := b, GS := b, SS := b) = (\<lambda>_. b)(CS := g CS)"
proof
  fix x show "(g(DS := b, ES := b, FS := b, GS := b, SS := b)) x = ((\<lambda>_. b)(CS := g CS)) x" by (cases x) simp_all
qed

lemma u16_label: "n < 2 ^ 32 \<Longrightarrow> ucast (of_nat n :: u32) = (of_nat n :: u16)"
  by (simp add: unsigned_of_nat take_bit_nat_eq_self)

lemma le_enc_8_u32: "le_enc 8 (ucast (w :: u32) :: u64) = le_enc 4 w @ le_enc 4 (0 :: u32)"
proof -
  have "drop_bit 32 (ucast w :: u64) = 0"
    by (rule bit_word_eqI) (auto simp: bit_simps dest: bit_imp_le_length)
  then show ?thesis using le_enc_add [of 4 4 "ucast w :: u64"] by (simp add: le_enc_zero)
qed

lemma packet_parts:
  fixes sect :: u32
  shows "packet sg (ucast sect) =
     concat [le_enc 2 (16 :: u16), le_enc 2 (1 :: u16), le_enc 2 (0 :: u16), le_enc 2 sg, le_enc 4 sect, le_enc 4 (0 :: u32)]"
proof -
  have two: "[0x10, 0, 1, 0, 0, 0] = le_enc 2 (16 :: u16) @ le_enc 2 (1 :: u16) @ le_enc 2 (0 :: u16)"
    by code_simp
  show ?thesis unfolding packet_def le_enc_8_u32 using two by simp
qed

lemma ucast_low8: "ucast ((w AND 0xffffff00) OR 0x80 :: u32) = (0x80 :: u8)"
proof -
  have "(0xffffff00 :: u32) = push_bit 8 (mask 24)" by (simp add: mask_eq_exp_minus_1)
  then have "ucast (w AND 0xffffff00) = (0 :: u8)"
    by (intro bit_word_eqI) (simp only: bit_unsigned_iff bit_and_iff bit_push_bit_iff, simp)
  then show ?thesis by (simp add: unsigned_or_eq)
qed

lemma bios_packet_run:
  fixes sect :: u32 and sg :: u16
  assumes "\<not> protected s" and "\<And>sg. slim s sg = 0xffff" and "0x10000 \<le> msize (mm s)"
    and "disk_address_packet L = of_nat pkt" and "1 \<le> pkt" "pkt + 22 \<le> 0x10000"
    and "peek (mm s) (pkt + 6) 2 = le_enc 2 sg" and "peek (mm s) (pkt + 14) 4 = le_enc 4 sect" and "peek (mm s) (pkt + 18) 4 = [0, 0, 0, 0]"
  shows "\<exists>m g. run bios (bios_packet L) s =
    Inr (s\<lparr>r32 := g, sel := (\<lambda>_. 0)(CS := sel s CS), sbase := (\<lambda>_. 0)(CS := sbase s CS), mm := m\<rparr>) \<and>
    g EAX = 0x4201 \<and> ucast (g EDX) = (0x80 :: u8) \<and> ucast (g ESI) = (of_nat pkt :: u16) \<and> g ESP = r32 s ESP \<and>
    peek m pkt 16 = packet sg (ucast sect) \<and> only_changed [(pkt - 1, 17)] (mm s) m"
proof -
  have lb: "ucast (of_nat pkt + 14 :: u32) = (of_nat (pkt + 14) :: u16)"
    "ucast (of_nat pkt + 18 :: u32) = (of_nat (pkt + 18) :: u16)" "ucast (of_nat pkt :: u32) = (of_nat pkt :: u16)"
    using assms(6) u16_label [of "pkt + 14"] u16_label [of "pkt + 18"] u16_label [of pkt] by simp_all
  have ad: "unat (of_nat pkt :: u16) = pkt" "unat (of_nat pkt + 4 :: u16) = pkt + 4" "unat (of_nat pkt - 1 :: u16) = pkt - 1"
    "unat (of_nat pkt + 2 :: u16) = pkt + 2" "unat (of_nat pkt + 8 :: u16) = pkt + 8" "unat (of_nat pkt + 12 :: u16) = pkt + 12"
    "unat (of_nat pkt + 14 :: u16) = pkt + 14" "unat (of_nat pkt + 18 :: u16) = pkt + 18"
    using assms(5,6) by (simp_all add: unat_ok)
  let ?m = "poke (poke (poke (poke (poke (poke (mm s) (pkt + 4) (le_enc 2 (0 :: u16))) (pkt - 1) [1]) (pkt + 2) (le_enc 2 (1 :: u16)))
     pkt (le_enc 2 (16 :: u16))) (pkt + 8) (le_enc 4 sect)) (pkt + 12) (le_enc 4 (0 :: u32))"
  let ?g = "(r32 s)(ESI := low16 (r32 s ESI) (of_nat pkt), EBX := 0, EAX := 0x4201, EDX := r32 s EDX AND 0xffffff00 OR 0x80)"
  have zero: "le_enc 2 (0 :: u32) = le_enc 2 (0 :: u16)" "le_enc 2 (1 :: u32) = le_enc 2 (1 :: u16)"
    by code_simp+
  have run: "run bios (bios_packet L) s = Inr (s\<lparr>r32 := ?g, sel := (\<lambda>_. 0)(CS := sel s CS), sbase := (\<lambda>_. 0)(CS := sbase s CS), mm := ?m\<rparr>)"
    using assms
    by (simp add: bios_packet_def machine_simps set_seg_real const_segs ksector_def ksector_high_def lb ad zero)
  have pk: "peek ?m pkt 16 = packet sg (ucast sect)"
    unfolding packet_parts using assms(5,7)
    by (subst peek_concat) (simp_all add: add.assoc del: add_2_eq_Suc add_2_eq_Suc')
  have oc: "only_changed [(pkt - 1, 17)] (mm s) ?m"
    using assms(5) by (auto simp: only_changed_def mbyte_poke)
  show ?thesis
    by (rule exI [of _ ?m], rule exI [of _ ?g]) (use run pk oc in \<open>simp add: ucast_low8\<close>)
qed

lemma ax_simps [simp]: "low16 (ucast (u :: u16)) v = ucast v" "ucast (ucast v :: u32) = (v :: u16)"
  by (rule bit_word_eqI; auto simp: bit_low16 bit_unsigned_iff dest: bit_imp_le_length)+

lemma bios_back_run:
  assumes "\<not> protected s" and "gdtl s = 39" and "gdtb s + 40 \<le> msize (mm s)" and "peek (mm s) (gdtb s) 40 = bios_descriptors"
    and "unat (restore L) \<le> 0xffff" and "r32 s EAX = low16 0 ax"
  shows "run bios (bios_back L) s =
    Inr (s\<lparr>r32 := (r32 s)(EAX := ucast (drop_bit 8 ax), EBX := cr0 s OR CR0_PE), sel := (sel s)(CS := 24), sbase := (sbase s)(CS := 0),
      slim := (slim s)(CS := 0xffffffff), dbit := True, cr0 := cr0 s OR CR0_PE, eip := restore L\<rparr>)"
  using assms bios_parts [OF assms(4)]
  by (simp add: bios_back_def machine_simps set_seg_table)

lemma bios_pop_run:
  assumes "sbase s SS = 0" "slim s SS = 0xffffffff"
    and "unat (r32 s ESP) = b" and "b + 28 \<le> msize (mm s)" "msize (mm s) \<le> 2 ^ 32" and "peek (mm s) b 24 = saved g"
  shows "run bios [Pop EBP, Pop EDI, Pop ESI, Pop EDX, Pop ECX, Pop EBX, Retl] s =
    Inr (s\<lparr>r32 := (r32 s)(EBP := g EBP, EDI := g EDI, ESI := g ESI, EDX := g EDX, ECX := g ECX, EBX := g EBX, ESP := 28 + r32 s ESP),
      eip := le_dec (peek (mm s) (b + 24) 4)\<rparr>)"
proof -
  have sp: "unat (r32 s ESP + 4) = b + 4" "unat (8 + r32 s ESP) = b + 8" "unat (12 + r32 s ESP) = b + 12" "unat (16 + r32 s ESP) = b + 16"
    "unat (20 + r32 s ESP) = b + 20" "unat (24 + r32 s ESP) = b + 24"
    using assms(3-5) by (simp_all add: unat_ok)
  have pieces: "peek (mm s) b 4 = le_enc 4 (g EBP)" "peek (mm s) (b + 4) 4 = le_enc 4 (g EDI)" "peek (mm s) (b + 8) 4 = le_enc 4 (g ESI)"
    "peek (mm s) (b + 12) 4 = le_enc 4 (g EDX)" "peek (mm s) (b + 16) 4 = le_enc 4 (g ECX)" "peek (mm s) (b + 20) 4 = le_enc 4 (g EBX)"
    using assms(6) peek_concat [of 24 "map (le_enc 4) (map g [EBP, EDI, ESI, EDX, ECX, EBX])" "mm s" b] by (simp_all add: saved_def add.assoc)
  show ?thesis
    using assms(1-5) by (simp add: machine_simps sp pieces)
qed

section \<open>What the BIOS has to do\<close>

text \<open>
  The documented behaviour of interrupt 0x13, function 0x42, on drive 0x80: for a packet of one block it
  stores the block at the buffer, reports status 0 in \<open>ah\<close> and a clear carry flag and keeps the other
  registers; besides the buffer it uses at most \<open>K\<close> bytes of stack below \<open>ss:sp\<close>.
\<close>

definition bios_reads :: "bios \<Rightarrow> (u64 \<Rightarrow> u8 list) \<Rightarrow> nat \<Rightarrow> bool" where
  "bios_reads bios sector K \<longleftrightarrow>
     (\<forall>g ds ss m sg n c.
        drop_bit 8 (ucast (g EAX) :: u16) = 0x42 \<and> (ucast (g EDX) :: u8) = 0x80 \<and>
        peek m (16 * unat ds + unat (ucast (g ESI) :: u16)) 16 = packet sg n \<and> 16 * unat sg + 512 \<le> msize m \<and>
        16 * unat ss + unat (ucast (g ESP) :: u16) = c + K \<and> apart [(c, K)] (16 * unat sg) 512 \<longrightarrow>
        (\<exists>ax m'. bios g ds ss m = (g(EAX := low16 (g EAX) ax), False, m') \<and> drop_bit 8 ax = 0 \<and>
           peek m' (16 * unat sg) 512 = sector n \<and> only_changed [(16 * unat sg, 512), (c, K)] m m'))"

text \<open>A call of the routine from flat 32-bit code; \<open>c\<close> is the lowest stack address in use.\<close>

definition bios_call :: "nat \<Rightarrow> nat \<Rightarrow> nat \<Rightarrow> nat \<Rightarrow> u32 \<Rightarrow> u32 \<Rightarrow> pc \<Rightarrow> bool" where
  "bios_call pkt descr c K sect addr s \<longleftrightarrow>
     protected s \<and> dbit s \<and> flat (sbase s DS) (slim s DS) \<and> flat (sbase s SS) (slim s SS) \<and> bios_data pkt descr (mm s) \<and>
     unat (r32 s ESP) = c + K + 24 \<and> c + K + 36 \<le> 0x10000 \<and>
     peek (mm s) (c + K + 28) 4 = le_enc 4 sect \<and> peek (mm s) (c + K + 32) 4 = le_enc 4 addr \<and>
     addr AND 0xf = 0 \<and> unat addr < 0x100000 \<and> unat addr + 512 \<le> msize (mm s) \<and>
     (c + K + 36 < pkt \<or> descr + 54 \<le> c) \<and> apart [(c, K + 36), (pkt - 1, descr + 55 - pkt)] (unat addr) 512"

lemma segment_of:
  assumes "addr AND 0xf = 0" and "unat addr < 0x100000"
  shows "16 * unat (ucast (drop_bit 4 addr :: u32) :: u16) = unat addr"
proof -
  have "take_bit 4 addr = 0"
    using assms(1) by (simp add: take_bit_eq_mask mask_eq_exp_minus_1)
  then have "take_bit 4 (unat addr) = 0"
    by (metis unsigned_0 unsigned_take_bit_eq)
  then have "unat addr mod 16 = 0"
    by (simp add: take_bit_eq_mod)
  moreover have "unat (ucast (drop_bit 4 addr) :: u16) = unat addr div 16"
    using assms(2) by (simp add: unsigned_ucast_eq drop_bit_eq_div unat_div take_bit_nat_eq_self)
  ultimately show ?thesis by auto
qed

section \<open>The whole call\<close>

text \<open>Up to the interrupt: real-address mode, the packet filled in, the registers saved.\<close>

lemma bios_to_interrupt:
  assumes "bios_call pkt descr c K sect addr s" and "bios_label_ok L pkt descr"
  obtains u where "run bios (bios_save L @ to_real (step2 L) @ [Ljmp 0 (do_read_disk L) False] @ bios_packet L) s = Inr u"
    "\<not> protected u" "gdtb u = descr" "gdtl u = 39" "cr0 u = cr0 s AND 0xfffffffe" "sel u DS = 0" "sel u SS = 0"
    "r32 u EAX = 0x4201" "(ucast (r32 u EDX) :: u8) = 0x80" "ucast (r32 u ESI) = (of_nat pkt :: u16)" "r32 u ESP = r32 s ESP - 24"
    "peek (mm u) pkt 16 = packet (ucast (drop_bit 4 addr)) (ucast sect)"
    "only_changed [(pkt - 1, 19), (c + K, 24)] (mm s) (mm u)" "peek (mm u) (c + K) 24 = saved (r32 s)"
proof -
  note call = assms(1) [unfolded bios_call_def flat_def bios_data_def]
  let ?b = "c + K"
  let ?m1 = "poke (mm s) ?b (saved (r32 s))"
  let ?m2 = "poke (poke ?m1 (pkt + 14) (le_enc 4 sect)) (pkt + 6) (le_enc 2 (drop_bit 4 addr))"
  have len: "length (saved g) = 24" for g by (simp add: saved_def)
  let ?s1 = "s\<lparr>r32 := (r32 s)(EAX := sect, EBX := addr, ESP := r32 s ESP - 24), mm := ?m1\<rparr>"
  have p1: "run bios [Movl_ld (Ind32 4 ESP) EAX, Push EBX, Movl_ld (Ind32 12 ESP) EBX, Push ECX, Push EDX, Push ESI, Push EDI, Push EBP] s = Inr ?s1"
    using call by (intro bios_push_run) auto
  have t1: "peek ?m1 (descr + 48) 6 = bios_table (of_nat descr)" "peek ?m1 descr 40 = bios_descriptors" "peek ?m1 (pkt + 18) 4 = [0, 0, 0, 0]"
    using call by (auto simp: len)
  let ?s2 = "?s1\<lparr>r32 := (r32 ?s1)(EBX := drop_bit 4 (r32 ?s1 EBX), ECX := of_nat (pkt + 6)), gdtb := descr, gdtl := 39, intr := False, mm := ?m2\<rparr>"
  have p2: "run bios [Movl_i (ksector L) ECX, Movl_st EAX (Ind32 0 ECX), Shrl 4 EBX,
      Movl_i (disk_address_packet L) ECX, Addl_i 6 ECX, Movw_st EBX (Ind32 0 ECX), Cli, Lgdt (Abs32 (table_label L))] ?s1 = Inr ?s2"
    using bios_patch_run [of ?s1 L pkt descr bios] call assms(2) t1(1) by simp
  have save: "run bios (bios_save L) s = Inr ?s2"
    using run_then [OF p1] p2 by (simp add: bios_save_def)
  have m2: "peek ?m2 descr 40 = bios_descriptors" "peek ?m2 (pkt + 18) 4 = [0, 0, 0, 0]" "peek ?m2 (pkt + 14) 4 = le_enc 4 sect"
    "peek ?m2 (pkt + 6) 2 = le_enc 2 (drop_bit 4 addr)" "msize ?m2 = msize (mm s)"
    using t1 call by auto
  let ?s3 = "?s2\<lparr>r32 := (r32 ?s2)(EAX := cr0 s AND 0xfffffffe), sel := (\<lambda>_. 16)(CS := 8), sbase := (\<lambda>_. 0), slim := (\<lambda>_. 0xffff),
      dbit := False, cr0 := cr0 s AND 0xfffffffe, eip := step2 L\<rparr>"
  have real: "run bios (to_real (step2 L)) ?s2 = Inr ?s3"
    using to_real_run [of ?s2 "step2 L" bios] call bios_parts(1) [OF m2(1)] assms(2) by (simp add: bios_label_ok_def)
  let ?s4 = "?s3\<lparr>sel := (\<lambda>_. 16)(CS := 0), sbase := (\<lambda>_. 0), eip := do_read_disk L\<rparr>"
  have jump: "run bios [Ljmp 0 (do_read_disk L) False] ?s3 = Inr ?s4"
    using assms(2) by (simp add: set_seg_real bios_label_ok_def const_upd)
  have sg: "le_enc 2 (drop_bit 4 addr) = le_enc 2 (ucast (drop_bit 4 addr) :: u16)"
    using le_enc_ucast [of 2 "drop_bit 4 addr", where 'b = 16] by simp
  obtain m g where mg: "run bios (bios_packet L) ?s4 =
    Inr (?s4\<lparr>r32 := g, sel := (\<lambda>_. 0)(CS := sel ?s4 CS), sbase := (\<lambda>_. 0)(CS := sbase ?s4 CS), mm := m\<rparr>)"
    "g EAX = 0x4201" "(ucast (g EDX) :: u8) = 0x80" "ucast (g ESI) = (of_nat pkt :: u16)" "g ESP = r32 s ESP - 24"
    "peek m pkt 16 = packet (ucast (drop_bit 4 addr)) (ucast sect)" "only_changed [(pkt - 1, 17)] ?m2 m"
    using bios_packet_run [of ?s4 L pkt "ucast (drop_bit 4 addr)" sect bios] call assms(2) m2 sg by (auto simp: bios_label_ok_def)
  have oc: "only_changed [(pkt - 1, 19), (?b, 24)] (mm s) m"
    using mg(7) call by (auto simp: only_changed_def mbyte_poke len)
  have "peek m ?b 24 = peek ?m2 ?b 24"
    using mg(7) call by (intro only_changed_peek) (auto simp: apart_def)
  also have "\<dots> = saved (r32 s)"
    using call by (auto simp: len)
  finally show thesis
    using that [of "?s4\<lparr>r32 := g, sel := (\<lambda>_. 0)(CS := sel ?s4 CS), sbase := (\<lambda>_. 0)(CS := sbase ?s4 CS), mm := m\<rparr>"] mg oc
    unfolding run_then [OF save] run_then [OF real] run_then [OF jump] by simp
qed

text \<open>Behind the interrupt: back in flat 32-bit code with the caller's registers.\<close>

lemma bios_return:
  assumes "\<not> protected s" and "gdtl s = 39" and "gdtb s + 40 \<le> msize (mm s)" and "peek (mm s) (gdtb s) 40 = bios_descriptors"
    and "unat (restore L) \<le> 0xffff" and "r32 s EAX = low16 0 ax" and "unat (r32 s ESP) = b" and "b + 28 \<le> msize (mm s)"
    and "msize (mm s) \<le> 2 ^ 32" and "peek (mm s) b 24 = saved g"
  obtains t where "run bios (bios_back L @ bios_restore) s = Inr t" "protected t" "dbit t" "\<not> intr t"
    "\<forall>sg. flat (sbase t sg) (slim t sg)" "eip t = le_dec (peek (mm s) (b + 24) 4)" "mm t = mm s"
    "r32 t = g(EAX := ucast (drop_bit 8 ax), ESP := 28 + r32 s ESP)"
proof -
  let ?s1 = "s\<lparr>r32 := (r32 s)(EAX := ucast (drop_bit 8 ax), EBX := cr0 s OR CR0_PE), sel := (sel s)(CS := 24), sbase := (sbase s)(CS := 0),
      slim := (slim s)(CS := 0xffffffff), dbit := True, cr0 := cr0 s OR CR0_PE, eip := restore L\<rparr>"
  have bk: "run bios (bios_back L) s = Inr ?s1"
    by (rule bios_back_run [OF assms(1-6)])
  let ?s2 = "?s1\<lparr>r32 := (r32 ?s1)(EBX := 32), sel := (\<lambda>_. 32)(CS := 24), sbase := (\<lambda>_. 0), slim := (\<lambda>_. 0xffffffff), intr := False\<rparr>"
  have segs: "run bios [Cli, Movl_i (ucast (GDT_ENTRY 4)) EBX, Movs EBX DS, Movs EBX ES, Movs EBX FS, Movs EBX GS, Movs EBX SS] ?s1 = Inr ?s2"
    using assms(2,3) bios_parts [OF assms(4)]
    by (simp add: machine_simps set_seg_table const_segs all_segs const_upd)
  let ?s3 = "?s2\<lparr>r32 := (r32 ?s2)(EBP := g EBP, EDI := g EDI, ESI := g ESI, EDX := g EDX, ECX := g ECX, EBX := g EBX, ESP := 28 + r32 ?s2 ESP),
      eip := le_dec (peek (mm ?s2) (b + 24) 4)\<rparr>"
  have pops: "run bios [Pop EBP, Pop EDI, Pop ESI, Pop EDX, Pop ECX, Pop EBX, Retl] ?s2 = Inr ?s3"
    using assms(7-10) by (intro bios_pop_run) simp_all
  have rest: "bios_restore = [Cli, Movl_i (ucast (GDT_ENTRY 4)) EBX, Movs EBX DS, Movs EBX ES, Movs EBX FS, Movs EBX GS, Movs EBX SS] @
      [Pop EBP, Pop EDI, Pop ESI, Pop EDX, Pop ECX, Pop EBX, Retl]"
    by (simp add: bios_restore_def)
  have regs: "r32 ?s3 = g(EAX := ucast (drop_bit 8 ax), ESP := 28 + r32 s ESP)"
  proof
    fix r show "r32 ?s3 r = (g(EAX := ucast (drop_bit 8 ax), ESP := 28 + r32 s ESP)) r" by (cases r) simp_all
  qed
  show thesis
    using that [of ?s3] regs unfolding run_then [OF bk] rest run_then [OF segs] pops by (simp add: flat_def)
qed

lemma bios_read_disk_ok:
  assumes "bios_reads bios sector K" and "bios_call pkt descr c K sect addr s" and "bios_label_ok L pkt descr"
  shows "\<exists>t. run bios (bios_read_disk L) s = Inr t \<and> protected t \<and> dbit t \<and> \<not> intr t \<and> (\<forall>sg. flat (sbase t sg) (slim t sg)) \<and>
    eip t = le_dec (peek (mm s) (c + K + 24) 4) \<and> r32 t = (r32 s)(EAX := 0, ESP := r32 s ESP + 4) \<and>
    peek (mm t) (unat addr) 512 = sector (ucast sect) \<and>
    only_changed [(unat addr, 512), (pkt - 1, 19), (c, K + 24)] (mm s) (mm t)"
proof -
  note call = assms(2) [unfolded bios_call_def flat_def bios_data_def]
  obtain u where u: "run bios (bios_save L @ to_real (step2 L) @ [Ljmp 0 (do_read_disk L) False] @ bios_packet L) s = Inr u"
    "\<not> protected u" "gdtb u = descr" "gdtl u = 39" "cr0 u = cr0 s AND 0xfffffffe" "sel u DS = 0" "sel u SS = 0"
    "r32 u EAX = 0x4201" "(ucast (r32 u EDX) :: u8) = 0x80" "ucast (r32 u ESI) = (of_nat pkt :: u16)" "r32 u ESP = r32 s ESP - 24"
    "peek (mm u) pkt 16 = packet (ucast (drop_bit 4 addr)) (ucast sect)"
    "only_changed [(pkt - 1, 19), (c + K, 24)] (mm s) (mm u)" "peek (mm u) (c + K) 24 = saved (r32 s)"
    by (rule bios_to_interrupt [OF assms(2,3)])
  have sz: "msize (mm u) = msize (mm s)" using u(13) by (simp add: only_changed_def)
  have sp: "unat (r32 u ESP) = c + K" "unat (ucast (r32 u ESP) :: u16) = c + K" "unat (of_nat pkt :: u16) = pkt"
    using call unfolding u(11) by (simp_all add: unat_ok unsigned_ucast_eq take_bit_nat_eq_self)
  have seg: "16 * unat (ucast (drop_bit 4 addr) :: u16) = unat addr"
    using call by (intro segment_of) auto
  obtain ax m where bios: "bios (r32 u) 0 0 (mm u) = ((r32 u)(EAX := low16 (r32 u EAX) ax), False, m)" "drop_bit 8 ax = 0"
      "peek m (unat addr) 512 = sector (ucast sect)" "only_changed [(unat addr, 512), (c, K)] (mm u) m"
    using assms(1) [unfolded bios_reads_def, rule_format, of "r32 u" "mm u" 0 "ucast (drop_bit 4 addr)" "ucast sect" 0 c] u(8-12) sp sz seg call
    by (auto simp: apart_def)
  have high: "low16 0x4201 ax = low16 0 ax"
    by (simp only: low16_def) simp
  let ?v = "u\<lparr>r32 := (r32 u)(EAX := low16 (r32 u EAX) ax), carry := False, mm := m\<rparr>"
  have int: "run bios [Int13] u = Inr ?v"
    using u(2,6,7) bios(1) by simp
  have ocs: "only_changed [(unat addr, 512), (pkt - 1, 19), (c, K + 24)] (mm s) m"
    using u(13) bios(4) by (auto simp: only_changed_def)
  have keep: "peek m descr 40 = bios_descriptors" "peek m (c + K) 24 = saved (r32 s)" "peek m (c + K + 24) 4 = peek (mm s) (c + K + 24) 4"
  proof -
    have "apart [(unat addr, 512), (pkt - 1, 19), (c, K + 24)] descr 40" "apart [(unat addr, 512), (pkt - 1, 19), (c, K + 24)] (c + K + 24) 4"
      "apart [(unat addr, 512), (c, K)] (c + K) 24"
      using call unfolding apart_def by (simp_all add: list.set) linarith+
    then show "peek m descr 40 = bios_descriptors" "peek m (c + K) 24 = saved (r32 s)" "peek m (c + K + 24) 4 = peek (mm s) (c + K + 24) 4"
      using call u(14) by (simp_all add: only_changed_peek [OF ocs] only_changed_peek [OF bios(4)])
  qed
  obtain t where t: "run bios (bios_back L @ bios_restore) ?v = Inr t" "protected t" "dbit t" "\<not> intr t"
    "\<forall>sg. flat (sbase t sg) (slim t sg)" "eip t = le_dec (peek (mm ?v) (c + K + 24) 4)" "mm t = mm ?v"
    "r32 t = (r32 s)(EAX := ucast (drop_bit 8 ax), ESP := 28 + r32 ?v ESP)"
  proof (rule bios_return [of ?v L ax "c + K" "r32 s" bios])
    show "\<not> protected ?v" "gdtl ?v = 39" "peek (mm ?v) (gdtb ?v) 40 = bios_descriptors" "unat (r32 ?v ESP) = c + K"
      "peek (mm ?v) (c + K) 24 = saved (r32 s)"
      using u(2-4) keep sp by simp_all
    show "unat (restore L) \<le> 0xffff" using assms(3) by (simp add: bios_label_ok_def)
    have "msize m = msize (mm s)" using ocs by (simp add: only_changed_def)
    then show "gdtb ?v + 40 \<le> msize (mm ?v)" "c + K + 28 \<le> msize (mm ?v)" "msize (mm ?v) \<le> 2 ^ 32"
      using call u(3) by simp_all
    show "r32 ?v EAX = low16 0 ax"
      using u(8) high by simp
  qed
  have "bios_read_disk L = (bios_save L @ to_real (step2 L) @ [Ljmp 0 (do_read_disk L) False] @ bios_packet L) @ [Int13] @ bios_back L @ bios_restore"
    by (simp add: bios_read_disk_def)
  then have "run bios (bios_read_disk L) s = Inr t"
    using run_then [OF u(1)] run_then [OF int] t(1) by simp
  moreover have "r32 t = (r32 s)(EAX := 0, ESP := r32 s ESP + 4)"
    using t(8) u(11) bios(2) by (simp add: add.commute)
  ultimately show ?thesis
    using t ocs bios(3) keep(3) by (intro exI [of _ t]) simp
qed

section \<open>The routine as a C function\<close>

text \<open>
  The call \<open>bios_read_disk(sector, addr)\<close> from compiled code: the arguments and the return address are
  pushed, then the routine runs.
\<close>

definition bios_function :: "bios \<Rightarrow> bios_labels \<Rightarrow> u32 \<Rightarrow> u32 \<Rightarrow> pc \<Rightarrow> u32 \<Rightarrow> nat \<Rightarrow> mem \<Rightarrow> mem res" where
  "bios_function bios L entry ret s sect addr m =
     bindE (run bios [Pushl_i (of_nat addr), Pushl_i sect, Calll entry ret] (s\<lparr>mm := m\<rparr>)) (\<lambda>s.
     bindE (run bios (bios_read_disk L) s) (\<lambda>s. Inr (mm s)))"

text \<open>Compiled code with room for the frame, the saved registers and the BIOS on its stack.\<close>

definition bios_caller :: "nat \<Rightarrow> nat \<Rightarrow> nat \<Rightarrow> nat \<Rightarrow> pc \<Rightarrow> bool" where
  "bios_caller pkt descr c K s \<longleftrightarrow>
     protected s \<and> dbit s \<and> flat (sbase s DS) (slim s DS) \<and> flat (sbase s SS) (slim s SS) \<and>
     unat (r32 s ESP) = c + K + 36 \<and> c + K + 36 \<le> 0x10000 \<and> (c + K + 36 < pkt \<or> descr + 54 \<le> c)"

lemma bios_function_ok:
  assumes "bios_reads bios sector K" and "bios_caller pkt descr c K s" and "bios_label_ok L pkt descr" and "bios_data pkt descr m"
    and "addr mod 16 = 0" and "addr < 0x100000" and "addr + 512 \<le> msize m" and "apart [(c, K + 36), (pkt - 1, descr + 55 - pkt)] addr 512"
  shows "\<exists>m'. bios_function bios L entry ret s sect addr m = Inr m' \<and> peek m' addr 512 = sector (ucast sect) \<and>
    only_changed [(addr, 512), (pkt - 1, 19), (c, K + 36)] m m'"
proof -
  note caller = assms(2) [unfolded bios_caller_def flat_def]
  note data = assms(4) [unfolded bios_data_def]
  let ?frame = "le_enc 4 ret @ le_enc 4 sect @ le_enc 4 (of_nat addr :: u32)"
  let ?m = "poke m (c + K + 24) ?frame"
  let ?s = "s\<lparr>r32 := (r32 s)(ESP := r32 s ESP - 12), eip := entry, mm := ?m\<rparr>"
  have sp: "unat (r32 s ESP - 4) = c + K + 32" "unat (r32 s ESP - 8) = c + K + 28" "unat (r32 s ESP - 12) = c + K + 24"
    using caller by (simp_all add: unat_ok)
  have push: "run bios [Pushl_i (of_nat addr), Pushl_i sect, Calll entry ret] (s\<lparr>mm := m\<rparr>) = Inr ?s"
    using caller data by (simp add: machine_simps sp poke_before)
  have a: "unat (of_nat addr :: u32) = addr"
    using assms(6) by (simp add: unat_ok)
  have "of_nat addr AND 0xf = (0 :: u32)"
  proof -
    have "take_bit 4 (of_nat addr :: u32) = of_nat (take_bit 4 addr)" by (simp add: take_bit_of_nat)
    also have "take_bit 4 addr = 0" using assms(5) by (simp add: take_bit_eq_mod)
    finally show ?thesis by (simp add: take_bit_eq_mask mask_eq_exp_minus_1)
  qed
  moreover have "peek ?m (c + K + 28) 4 = le_enc 4 sect" "peek ?m (c + K + 32) 4 = le_enc 4 (of_nat addr :: u32)"
    by (simp_all add: peek_poke_inside)
  moreover have "bios_data pkt descr ?m"
    using caller data by (auto simp: bios_data_def)
  ultimately have "bios_call pkt descr c K sect (of_nat addr) ?s"
    using caller assms(6-8) by (simp add: bios_call_def flat_def sp a)
  from bios_read_disk_ok [OF assms(1) this assms(3)]
  obtain t where t: "run bios (bios_read_disk L) ?s = Inr t" "peek (mm t) addr 512 = sector (ucast sect)"
    "only_changed [(addr, 512), (pkt - 1, 19), (c, K + 24)] ?m (mm t)"
    by (auto simp: a)
  have "only_changed [(addr, 512), (pkt - 1, 19), (c, K + 36)] m (mm t)"
    using t(3) by (auto simp: only_changed_def)
  then show ?thesis
    using t push by (simp add: bios_function_def)
qed

text \<open>\<open>read_disk\<close> of the BIOS build over any such function.\<close>

lemma read_disk_bios_frame:
  assumes "bios sect (low_buffer buf) m = Inr m1" and "peek m1 (low_buffer buf) 512 = bs"
    and "only_changed ((low_buffer buf, 512) # rs) m m1" and "buf + 512 \<le> msize m"
  shows "\<exists>m'. read_disk_bios bios buf sect m = Inr m' \<and> peek m' buf 512 = bs \<and>
    only_changed ((buf, 512) # (low_buffer buf, 512) # rs) m m'"
proof (cases "1024 * 1024 \<le> buf")
  case True
  have low: "low_buffer buf = 0x1000" using True by (simp add: low_buffer_def)
  have sz: "msize m1 = msize m" using assms(3) by (simp add: only_changed_def)
  have "foldE (\<lambda>i m. bindE (rd (0x1000 + 4 * i) 4 m) (\<lambda>w. wr (buf + 4 * i) w m)) [0..<128] m1 = Inr (poke m1 buf (peek m1 0x1000 (4 * 128)))"
    using True assms(4) sz by (intro bounce_copy) simp_all
  then have "read_disk_bios bios buf sect m = Inr (poke m1 buf bs)"
    using assms(1,2) True by (simp add: read_disk_bios_def low SECTSIZE_def)
  moreover have "length bs = 512" using assms(2) by auto
  moreover have "only_changed ((buf, 512) # (low_buffer buf, 512) # rs) m (poke m1 buf bs)"
    using assms(3) calculation(2) by (auto simp: only_changed_def)
  ultimately show ?thesis by simp
next
  case False
  then have "read_disk_bios bios buf sect m = Inr m1" "low_buffer buf = buf"
    using assms(1) by (simp_all add: read_disk_bios_def low_buffer_def)
  then show ?thesis using assms(2,3) by (auto simp: only_changed_def)
qed

lemma bios_data_frame:
  assumes "bios_data pkt descr m" and "only_changed rs m m'" and "apart rs (pkt + 18) (descr + 36 - pkt)"
  shows "bios_data pkt descr m'"
proof -
  have "apart rs (pkt + 18) 4" "apart rs descr 40" "apart rs (descr + 48) 6"
    by (rule apart_sub [OF assms(3)], use assms(1) in \<open>simp_all add: bios_data_def\<close>)+
  then show ?thesis
    using assms(1,2) by (simp add: bios_data_def only_changed_peek [OF assms(2)]) (simp add: only_changed_def)
qed

lemma bios_data_kept:
  assumes "bios_data pkt descr m" and "only_changed [(addr, 512), (pkt - 1, 19), (c, n)] m m'"
    and "c + n < pkt \<or> descr + 54 \<le> c" and "apart [(pkt - 1, descr + 55 - pkt)] addr 512"
  shows "bios_data pkt descr m'"
  by (rule bios_data_frame [OF assms(1,2)]) (use assms in \<open>auto simp: bios_data_def apart_def\<close>)

text \<open>
  \<open>read_disk\<close> of the BIOS build as a source of sectors: the bounce sector, the packet with the tables behind
  it and the part of the stack below the compiled code are its own.
\<close>

definition bios_scratch :: "nat \<Rightarrow> nat \<Rightarrow> nat \<Rightarrow> nat \<Rightarrow> (nat \<times> nat) list" where
  "bios_scratch pkt descr lo n = [(0x1000, 512), (pkt - 1, descr + 55 - pkt), (lo, n)]"

lemma bios_read_scratch:
  assumes "bios_reads bios sector K" and "bios_caller pkt descr c K s" and "bios_label_ok L pkt descr" and "bios_data pkt descr m"
    and "lo \<le> c" and "c + K + 36 \<le> lo + n" and "apart [(lo, n), (pkt - 1, descr + 55 - pkt)] 0x1000 512"
    and "buf + 512 \<le> msize m" and "buf mod 16 = 0" and "apart (bios_scratch pkt descr lo n) buf 512"
  shows "\<exists>m'. read_disk_bios (bios_function bios L entry ret s) buf sect m = Inr m' \<and> peek m' buf 512 = sector (ucast sect) \<and>
    only_changed ((buf, 512) # bios_scratch pkt descr lo n) m m' \<and> bios_data pkt descr m'"
proof -
  have low: "low_buffer buf mod 16 = 0" "low_buffer buf < 0x100000" "low_buffer buf + 512 \<le> msize m"
    "apart [(c, K + 36), (pkt - 1, descr + 55 - pkt)] (low_buffer buf) 512"
    using assms(4-10) by (auto simp: low_buffer_def bios_data_def apart_def bios_scratch_def)
  obtain m1 where m1: "bios_function bios L entry ret s sect (low_buffer buf) m = Inr m1" "peek m1 (low_buffer buf) 512 = sector (ucast sect)"
    "only_changed [(low_buffer buf, 512), (pkt - 1, 19), (c, K + 36)] m m1"
    using bios_function_ok [OF assms(1-4) low] by blast
  obtain m' where m': "read_disk_bios (bios_function bios L entry ret s) buf sect m = Inr m'" "peek m' buf 512 = sector (ucast sect)"
    "only_changed [(buf, 512), (low_buffer buf, 512), (pkt - 1, 19), (c, K + 36)] m m'"
    using read_disk_bios_frame [of "bios_function bios L entry ret s", OF m1 assms(8)] by blast
  have "only_changed ((buf, 512) # bios_scratch pkt descr lo n) m m'"
    by (rule only_changed_weaken [OF m'(3)]) (use assms(4-6) in \<open>auto simp: bios_scratch_def low_buffer_def bios_data_def\<close>)
  moreover have "bios_data pkt descr m'"
    by (rule bios_data_frame [OF assms(4) m'(3)])
      (use assms(2,4,10) low(4) in \<open>auto simp: bios_caller_def bios_data_def apart_def bios_scratch_def\<close>)
  ultimately show ?thesis using m' by blast
qed

lemma bios_scratch_source:
  assumes "bios_reads bios sector K" and "\<And>k. length (sector k) = 512" and "bios_caller pkt descr c K s" and "bios_label_ok L pkt descr"
    and "lo \<le> c" and "c + K + 36 \<le> lo + n" and "apart [(lo, n), (pkt - 1, descr + 55 - pkt)] 0x1000 512"
  shows "scratch_source (read_disk_bios (bios_function bios L entry ret s)) (\<lambda>k. sector (ucast k)) (bios_scratch pkt descr lo n) (bios_data pkt descr)"
  by unfold_locales (use assms(2) bios_read_scratch [OF assms(1,3,4) _ assms(5-7)] in auto)

section \<open>The start of the BIOS build\<close>

text \<open>\<open>biosboot.S\<close>: the second and third sector of the loader, then its C code.\<close>

definition biosboot_start :: "(u32 \<Rightarrow> nat \<Rightarrow> mem \<Rightarrow> mem res) \<Rightarrow> (mem \<Rightarrow> 'a res) \<Rightarrow> mem \<Rightarrow> 'a res" where
  "biosboot_start bios_read elf_main m =
     bindE (bios_read 532 0x1400 m) (\<lambda>m. bindE (bios_read 533 0x1600 m) elf_main)"

lemma biosboot_loads:
  assumes "bios_reads bios sector K" and "bios_caller pkt descr c K s" and "bios_label_ok L pkt descr" and "bios_data pkt descr m"
    and "pkt > 0x1200" "descr + 54 \<le> 0x1400" and "0x1800 \<le> c"
  shows "\<exists>m'. biosboot_start (bios_function bios L entry ret s) elf_main m = elf_main m' \<and>
    peek m' 0x1400 1024 = sector 532 @ sector 533 \<and> only_changed [(0x1400, 1024), (pkt - 1, 19), (c, K + 36)] m m'"
proof -
  have sz: "0x10000 \<le> msize m" using assms(4) by (simp add: bios_data_def)
  have ap: "apart [(c, K + 36), (pkt - 1, descr + 55 - pkt)] 0x1400 512" "apart [(c, K + 36), (pkt - 1, descr + 55 - pkt)] 0x1600 512"
    using assms(4-7) by (auto simp: apart_def bios_data_def)
  obtain m1 where m1: "bios_function bios L entry ret s 532 0x1400 m = Inr m1" "peek m1 0x1400 512 = sector 532"
    "only_changed [(0x1400, 512), (pkt - 1, 19), (c, K + 36)] m m1"
    using bios_function_ok [OF assms(1-4), of "0x1400" entry ret 532] ap(1) sz by auto
  have "bios_data pkt descr m1"
    using assms(2,4,5,6) by (intro bios_data_kept [OF assms(4) m1(3)]) (auto simp: bios_caller_def bios_data_def apart_def)
  then obtain m2 where m2: "bios_function bios L entry ret s 533 0x1600 m1 = Inr m2" "peek m2 0x1600 512 = sector 533"
    "only_changed [(0x1600, 512), (pkt - 1, 19), (c, K + 36)] m1 m2"
    using bios_function_ok [OF assms(1-3), of m1 "0x1600" entry ret 533] ap(2) sz m1(3) by (auto simp: only_changed_def)
  have "peek m2 0x1400 512 = sector 532"
    using only_changed_peek [OF m2(3), of "0x1400" 512] assms(4-7) m1(2) by (auto simp: apart_def bios_data_def)
  then have "peek m2 0x1400 1024 = sector 532 @ sector 533"
    using peek_append [of m2 "0x1400" 512 512] m2(2) by simp
  moreover have "only_changed [(0x1400, 1024), (pkt - 1, 19), (c, K + 36)] m m2"
  proof (rule only_changed_trans [OF _ _ subset_refl subset_refl])
    show "only_changed [(0x1400, 1024), (pkt - 1, 19), (c, K + 36)] m m1" "only_changed [(0x1400, 1024), (pkt - 1, 19), (c, K + 36)] m1 m2"
      by (rule only_changed_weaken [OF m1(3)], auto) (rule only_changed_weaken [OF m2(3)], auto)
  qed
  ultimately show ?thesis
    using m1(1) m2(1) by (auto simp: biosboot_start_def)
qed

text \<open>\<open>testbios.S\<close> reads one sector and halts; the result is the memory at the halt.\<close>

definition testbios_start :: "(u32 \<Rightarrow> nat \<Rightarrow> mem \<Rightarrow> mem res) \<Rightarrow> mem \<Rightarrow> mem res" where
  "testbios_start bios_read m = bios_read 539 0x1400 m"

lemma testbios_loads:
  assumes "bios_reads bios sector K" and "bios_caller pkt descr c K s" and "bios_label_ok L pkt descr" and "bios_data pkt descr m"
    and "pkt > 0x1200" "descr + 54 \<le> 0x1400" and "0x1600 \<le> c"
  shows "\<exists>m'. testbios_start (bios_function bios L entry ret s) m = Inr m' \<and> peek m' 0x1400 512 = sector 539 \<and>
    only_changed [(0x1400, 512), (pkt - 1, 19), (c, K + 36)] m m'"
proof -
  have "0x10000 \<le> msize m" using assms(4) by (simp add: bios_data_def)
  moreover have "apart [(c, K + 36), (pkt - 1, descr + 55 - pkt)] 0x1400 512"
    using assms(4-7) by (auto simp: apart_def bios_data_def)
  ultimately show ?thesis
    using bios_function_ok [OF assms(1-4), of "0x1400" entry ret 539] by (auto simp: testbios_start_def)
qed

section \<open>Properties\<close>

text \<open>
  Reading a sector through the BIOS. On any BIOS with the documented behaviour, a call of
  bios_read_disk from flat 32-bit code goes to real-address mode and back and returns to its caller with
  result 0, flat segments, interrupts off and every other register as before. The buffer, at a multiple
  of 16 below one mebibyte, holds the sector asked for; besides it only the packet and the stack below
  the caller's frame have changed.
\<close>

theorem bios_read_disk_returns:
  assumes "bios_reads bios sector K" and "bios_call pkt descr c K sect addr s" and "bios_label_ok L pkt descr"
  shows "\<exists>t. run bios (bios_read_disk L) s = Inr t \<and> protected t \<and> dbit t \<and> \<not> intr t \<and> (\<forall>sg. flat (sbase t sg) (slim t sg)) \<and>
    eip t = le_dec (peek (mm s) (c + K + 24) 4) \<and> r32 t = (r32 s)(EAX := 0, ESP := r32 s ESP + 4) \<and>
    peek (mm t) (unat addr) 512 = sector (ucast sect) \<and>
    only_changed [(unat addr, 512), (pkt - 1, 19), (c, K + 24)] (mm s) (mm t)"
  by (rule bios_read_disk_ok [OF assms])

text \<open>
  C30: read_disk of the BIOS build. Compiled with __BIOS__, read_disk over that routine stores the sector
  at its buffer, for a buffer above one mebibyte by way of the sector at 0x1000; it changes nothing but
  the buffer, that bounce sector, the packet and the stack.
\<close>

theorem bios_build_reads_sector:
  assumes "bios_reads bios sector K" and "bios_caller pkt descr c K s" and "bios_label_ok L pkt descr" and "bios_data pkt descr m"
    and "low_buffer buf mod 16 = 0" and "buf + 512 \<le> msize m" and "0x1200 \<le> msize m"
    and "apart [(c, K + 36), (pkt - 1, descr + 55 - pkt)] (low_buffer buf) 512"
  shows "\<exists>m'. read_disk_bios (bios_function bios L entry ret s) buf sect m = Inr m' \<and> peek m' buf 512 = sector (ucast sect) \<and>
    only_changed [(buf, 512), (low_buffer buf, 512), (pkt - 1, 19), (c, K + 36)] m m'"
proof -
  have "low_buffer buf < 0x100000" "low_buffer buf + 512 \<le> msize m"
    using assms(6,7) by (auto simp: low_buffer_def)
  with bios_function_ok [OF assms(1-5) _ _ assms(8)] obtain m1 where
    "bios_function bios L entry ret s sect (low_buffer buf) m = Inr m1" "peek m1 (low_buffer buf) 512 = sector (ucast sect)"
    "only_changed [(low_buffer buf, 512), (pkt - 1, 19), (c, K + 36)] m m1"
    by blast
  from read_disk_bios_frame [of "bios_function bios L entry ret s", OF this assms(6)] show ?thesis .
qed

text \<open>A BIOS that serves the sectors of an image and leaves the stack alone, and a machine that calls the routine.\<close>

definition image_bios :: "(u64 \<Rightarrow> u8 list) \<Rightarrow> bios" where
  "image_bios sector g ds ss m =
     (let p = 16 * unat ds + unat (ucast (g ESI) :: u16); sg = le_dec (peek m (p + 6) 2) :: u16; n = le_dec (peek m (p + 8) 8) :: u64
      in (g(EAX := low16 (g EAX) 0), False, poke m (16 * unat sg) (sector n)))"

lemma image_bios_reads:
  assumes "\<And>n. length (sector n) = 512"
  shows "bios_reads (image_bios sector) sector K"
  unfolding bios_reads_def
proof (intro allI impI, elim conjE)
  fix g :: "reg32 \<Rightarrow> u32" and ds ss sg :: u16 and m :: mem and n :: u64 and c :: nat
  let ?p = "16 * unat ds + unat (ucast (g ESI) :: u16)"
  assume p: "peek m ?p 16 = packet sg n"
  have f: "peek m (?p + 6) 2 = le_enc 2 sg" "peek m (?p + 8) 8 = le_enc 8 n"
    using sub_bytes_peek [of 6 2 16 m ?p] sub_bytes_peek [of 8 8 16 m ?p] unfolding p by (simp_all add: sub_bytes_def packet_def)
  have "image_bios sector g ds ss m = (g(EAX := low16 (g EAX) 0), False, poke m (16 * unat sg) (sector n))"
    unfolding image_bios_def Let_def f by simp
  moreover have "only_changed [(16 * unat sg, 512), (c, K)] m (poke m (16 * unat sg) (sector n))"
    using assms by (auto simp: only_changed_def)
  ultimately show "\<exists>ax m'. image_bios sector g ds ss m = (g(EAX := low16 (g EAX) ax), False, m') \<and> drop_bit 8 ax = 0 \<and>
      peek m' (16 * unat sg) 512 = sector n \<and> only_changed [(16 * unat sg, 512), (c, K)] m m'"
    using assms by (intro exI [of _ 0] exI [of _ "poke m (16 * unat sg) (sector n)"]) simp
qed

definition demo_labels :: bios_labels where
  "demo_labels = \<lparr>disk_address_packet = 0x1301, table_label = 0x1350, step2 = 0x1240, do_read_disk = 0x1260, restore = 0x12c0\<rparr>"

definition demo_loader :: mem where
  "demo_loader = poke (poke (blank 0x200000) 0x1320 bios_descriptors) 0x1350 (bios_table 0x1320)"

definition demo_sector :: "u64 \<Rightarrow> u8 list" where
  "demo_sector n = replicate 512 (ucast n)"

lemma demo_bios:
  "bios_reads (image_bios demo_sector) demo_sector 64" "bios_label_ok demo_labels 0x1301 0x1320" "bios_data 0x1301 0x1320 demo_loader"
proof -
  have len: "length bios_descriptors = 40" "length (bios_table w) = 6" for w
    by (simp_all add: bios_descriptors_value bios_table_def)
  show "bios_reads (image_bios demo_sector) demo_sector 64"
    by (rule image_bios_reads) (simp add: demo_sector_def)
  show "bios_label_ok demo_labels 0x1301 0x1320"
    by (simp add: bios_label_ok_def demo_labels_def)
  show "bios_data 0x1301 0x1320 demo_loader"
    by (simp add: bios_data_def demo_loader_def len peek_blank msize_blank)
      (simp add: numeral_eq_Suc)
qed

theorem bios_build_reads_sector_witness:
  "\<exists>m'. read_disk_bios (bios_function (image_bios demo_sector) demo_labels 0x1210 0x1500 (flat_pc 0x9000 (blank 0))) 0x100000 7 demo_loader = Inr m' \<and>
     peek m' 0x100000 512 = replicate 512 7"
proof -
  have "bios_caller 0x1301 0x1320 0x8f9c 64 (flat_pc 0x9000 (blank 0))"
    by (simp add: bios_caller_def flat_def)
  from bios_build_reads_sector [OF demo_bios(1) this demo_bios(2,3), of "0x100000" "0x1210" "0x1500" 7]
  show ?thesis
    by (auto simp: low_buffer_def apart_def demo_loader_def msize_blank demo_sector_def)
qed

theorem bios_read_disk_returns_witness:
  "\<exists>t. run (image_bios demo_sector) (bios_read_disk demo_labels)
       (flat_pc 0x9000 (poke demo_loader 0x9000 (le_enc 4 (0x1234 :: u32) @ le_enc 4 (7 :: u32) @ le_enc 4 (0x2000 :: u32)))) = Inr t \<and>
     eip t = 0x1234 \<and> peek (mm t) 0x2000 512 = replicate 512 7"
proof -
  let ?m = "poke demo_loader 0x9000 (le_enc 4 (0x1234 :: u32) @ le_enc 4 (7 :: u32) @ le_enc 4 (0x2000 :: u32))"
  have "bios_data 0x1301 0x1320 ?m"
    using demo_bios(3) by (simp add: bios_data_def)
  then have "bios_call 0x1301 0x1320 0x8fa8 64 7 0x2000 (flat_pc 0x9000 ?m)"
    by (simp add: bios_call_def flat_def apart_def peek_poke_inside) (simp add: demo_loader_def msize_blank)
  from bios_read_disk_returns [OF demo_bios(1) this demo_bios(2)] show ?thesis
    by (auto simp: peek_poke_inside demo_sector_def)
qed

end
