(* ===== verification/Biosmbr.thy ===== *)
theory Biosmbr
  imports Bios
begin

text \<open>
  \<open>bootloader/biosmbr.S\<close>: the boot sector of the BIOS build. It asks the BIOS for its disk extensions, reads
  sector 531 to 0x1200 and enters it in flat 32-bit code, or halts.
\<close>

unbundle bit_operations_syntax

section \<open>The boot sector\<close>

definition biosmbr_check :: "u16 \<Rightarrow> ins list" where
  "biosmbr_check pkt =
     [Cli, Movb_hi 0x41 EAX, Movw_i 0x55aa EBX, Movw_i 0x80 EDX, Movb_lo 0xff EAX, Movw_i pkt ESI, Int13]"

definition biosmbr_read :: "u16 \<Rightarrow> ins list" where
  "biosmbr_read pkt =
     [Xorw EAX EAX, Movw_st EAX (Ind16 4 ESI), Incw EAX, Movb_st EAX (Ind16 (- 1) ESI), Movw_st EAX (Ind16 2 ESI),
      Movw_sti 0x0010 (Ind16 0 ESI), Movl_ld (Abs16 (pkt + 14)) EBX, Movl_st EBX (Ind16 8 ESI),
      Movl_ld (Abs16 (pkt + 18)) EBX, Movl_st EBX (Ind16 12 ESI), Movw_sti 0x120 (Ind16 6 ESI), Movb_hi 0x42 EAX]"

definition biosmbr_enter :: "u16 \<Rightarrow> u32 \<Rightarrow> ins list" where
  "biosmbr_enter gdtdesc start32 =
     [Xorw EAX EAX, Movs EAX DS, Movs EAX ES, Movs EAX SS,
      Lgdt (Abs16 gdtdesc), Cr0_get EAX, Orl_i CR0_PE EAX, Cr0_set EAX, Ljmp (GDT_ENTRY 1) start32 True,
      Movw_i (GDT_ENTRY 2) EAX, Movs EAX DS, Movs EAX ES, Movs EAX SS, Movl_i 0xa000 ESP, Movl_i 0x1200 EAX, Jmpl EAX]"

text \<open>The three tests end in the halt loop \<open>.L1\<close>: no state.\<close>

definition biosmbr :: "bios \<Rightarrow> u16 \<Rightarrow> u16 \<Rightarrow> u32 \<Rightarrow> pc \<Rightarrow> pc option res" where
  "biosmbr bios pkt gdtdesc start32 s =
     bindE (run bios (biosmbr_check pkt) s) (\<lambda>s.
       if carry s then Inr None
       else if getw EBX s \<noteq> 0xaa55 then Inr None
       else bindE (run bios [Andw_i 1 ECX] s) (\<lambda>s.
         if getw ECX s = 0 then Inr None
         else bindE (run bios (biosmbr_read pkt @ [Int13] @ biosmbr_enter gdtdesc start32) s) (\<lambda>s. Inr (Some s))))"

text \<open>
  The documented behaviour of function 0x41 where the extensions are present: a clear carry flag, the
  swapped signature in \<open>bx\<close>, the low bit of \<open>cx\<close>; \<open>dl\<close>, \<open>si\<close> and \<open>esp\<close> are kept and at most \<open>K\<close> bytes
  of stack are used.
\<close>

definition bios_extended :: "bios \<Rightarrow> nat \<Rightarrow> bool" where
  "bios_extended bios K \<longleftrightarrow>
     (\<forall>g ds ss m c.
        drop_bit 8 (ucast (g EAX) :: u16) = 0x41 \<and> (ucast (g EBX) :: u16) = 0x55aa \<and> (ucast (g EDX) :: u8) = 0x80 \<and>
        16 * unat ss + unat (ucast (g ESP) :: u16) = c + K \<longrightarrow>
        (\<exists>g' m'. bios g ds ss m = (g', False, m') \<and> (ucast (g' EBX) :: u16) = 0xaa55 \<and> (ucast (g' ECX) :: u16) AND 1 \<noteq> 0 \<and>
           (ucast (g' EDX) :: u8) = 0x80 \<and> (ucast (g' ESI) :: u16) = ucast (g ESI) \<and> g' ESP = g ESP \<and> only_changed [(c, K)] m m'))"

section \<open>Step by step\<close>

lemma bit_mask_ah: "bit (0xffff00ff :: u32) n \<longleftrightarrow> n < 8 \<or> 16 \<le> n \<and> n < 32"
proof -
  have "(0xffff00ff :: u32) = mask 8 OR push_bit 16 (mask 16)" by (simp add: mask_eq_exp_minus_1)
  then show ?thesis by (simp only: bit_or_iff bit_push_bit_iff bit_mask_iff) auto
qed

lemma ah_set: "drop_bit 8 (ucast ((w AND 0xffff00ff) OR push_bit 8 (ucast (v :: u8)) :: u32) :: u16) = ucast v"
  by (rule bit_word_eqI)
    (simp only: bit_drop_bit_eq bit_unsigned_iff bit_or_iff bit_and_iff bit_push_bit_iff bit_mask_ah o_def, auto dest: bit_imp_le_length)

lemma bit_mask_al: "bit (0xffffff00 :: u32) n \<longleftrightarrow> 8 \<le> n \<and> n < 32"
proof -
  have "(0xffffff00 :: u32) = push_bit 8 (mask 24)" by (simp add: mask_eq_exp_minus_1)
  then show ?thesis by (simp only: bit_push_bit_iff bit_mask_iff) auto
qed

lemma ah_keep: "drop_bit 8 (ucast ((w AND 0xffffff00) OR ucast (v :: u8) :: u32) :: u16) = drop_bit 8 (ucast w)"
  by (rule bit_word_eqI)
    (simp only: bit_drop_bit_eq bit_unsigned_iff bit_or_iff bit_and_iff bit_mask_al o_def, auto dest: bit_imp_le_length)

lemma le_enc_low16: "le_enc 2 (low16 w v) = le_enc 2 v" "ucast (low16 w v) = (ucast v :: u8)"
proof -
  show "le_enc 2 (low16 w v) = le_enc 2 v"
    using le_enc_ucast [of 2 "low16 w v", where 'b = 16] by simp
  show "ucast (low16 w v) = (ucast v :: u8)"
    by (rule bit_word_eqI) (simp add: bit_unsigned_iff bit_low16)
qed

lemma biosmbr_read_run:
  fixes sect :: u32
  assumes "sbase s DS = 0" "slim s DS = 0xffff" and "0x10000 \<le> msize (mm s)" and "(ucast (r32 s ESI) :: u16) = of_nat pkt"
    and "1 \<le> pkt" "pkt + 22 \<le> 0x10000" and "peek (mm s) (pkt + 14) 4 = le_enc 4 sect" and "peek (mm s) (pkt + 18) 4 = [0, 0, 0, 0]"
  shows "\<exists>m g. run bios (biosmbr_read (of_nat pkt)) s = Inr (s\<lparr>r32 := g, mm := m\<rparr>) \<and>
    drop_bit 8 (ucast (g EAX) :: u16) = 0x42 \<and> g EDX = r32 s EDX \<and> g ESI = r32 s ESI \<and> g ESP = r32 s ESP \<and>
    peek m pkt 16 = packet 0x120 (ucast sect) \<and> only_changed [(pkt - 1, 17)] (mm s) m"
proof -
  have ad: "unat (of_nat pkt :: u16) = pkt" "unat (of_nat pkt + 4 :: u16) = pkt + 4" "unat (of_nat pkt - 1 :: u16) = pkt - 1"
    "unat (of_nat pkt + 2 :: u16) = pkt + 2" "unat (of_nat pkt + 8 :: u16) = pkt + 8" "unat (of_nat pkt + 12 :: u16) = pkt + 12"
    "unat (of_nat pkt + 14 :: u16) = pkt + 14" "unat (of_nat pkt + 18 :: u16) = pkt + 18" "unat (of_nat pkt + 6 :: u16) = pkt + 6"
    using assms(5,6) by (simp_all add: unat_ok)
  let ?m = "poke (poke (poke (poke (poke (poke (poke (mm s) (pkt + 4) (le_enc 2 (0 :: u16))) (pkt - 1) [1]) (pkt + 2) (le_enc 2 (1 :: u16)))
     pkt (le_enc 2 (16 :: u16))) (pkt + 8) (le_enc 4 sect)) (pkt + 12) (le_enc 4 (0 :: u32))) (pkt + 6) (le_enc 2 (0x120 :: u16))"
  let ?g = "(r32 s)(EBX := 0, EAX := (low16 (r32 s EAX) 1 AND 0xffff00ff) OR push_bit 8 (ucast (0x42 :: u8)))"
  have run: "run bios (biosmbr_read (of_nat pkt)) s = Inr (s\<lparr>r32 := ?g, mm := ?m\<rparr>)"
    using assms by (simp add: biosmbr_read_def machine_simps ad le_enc_low16)
  have pk: "peek ?m pkt 16 = packet 0x120 (ucast sect)"
    unfolding packet_parts using assms(5)
    by (subst peek_concat) (simp_all add: add.assoc del: add_2_eq_Suc add_2_eq_Suc')
  have oc: "only_changed [(pkt - 1, 17)] (mm s) ?m"
    using assms(5) by (auto simp: only_changed_def mbyte_poke)
  have "drop_bit 8 (ucast (?g EAX) :: u16) = ucast (0x42 :: u8)"
    unfolding fun_upd_same by (rule ah_set)
  then show ?thesis
    by (intro exI [of _ ?m] exI [of _ ?g] conjI run pk oc) simp_all
qed

lemma biosmbr_check_run:
  assumes "\<not> protected s" and "bios_extended bios K" and "16 * unat (sel s SS) + unat (ucast (r32 s ESP) :: u16) = c + K"
  obtains g m where "run bios (biosmbr_check pkt) s = Inr (s\<lparr>r32 := g, carry := False, intr := False, mm := m\<rparr>)"
    "(ucast (g EBX) :: u16) = 0xaa55" "(ucast (g ECX) :: u16) AND 1 \<noteq> 0" "(ucast (g EDX) :: u8) = 0x80" "(ucast (g ESI) :: u16) = pkt"
    "g ESP = r32 s ESP" "only_changed [(c, K)] (mm s) m"
proof -
  let ?a = "(((r32 s EAX AND 0xffff00ff) OR push_bit 8 (ucast (0x41 :: u8))) AND 0xffffff00) OR ucast (0xff :: u8)"
  let ?g = "(r32 s)(EAX := ?a, EBX := low16 (r32 s EBX) 0x55aa, EDX := low16 (r32 s EDX) 0x80, ESI := low16 (r32 s ESI) pkt)"
  have ah: "drop_bit 8 (ucast ?a :: u16) = 0x41"
    unfolding ah_keep ah_set by simp
  have dl: "(ucast (low16 w 0x80) :: u8) = 0x80" for w
    by (simp add: le_enc_low16(2))
  obtain g m where gm: "bios ?g (sel s DS) (sel s SS) (mm s) = (g, False, m)" "(ucast (g EBX) :: u16) = 0xaa55" "(ucast (g ECX) :: u16) AND 1 \<noteq> 0"
    "(ucast (g EDX) :: u8) = 0x80" "(ucast (g ESI) :: u16) = pkt" "g ESP = r32 s ESP" "only_changed [(c, K)] (mm s) m"
    using assms(2) [unfolded bios_extended_def, rule_format, of ?g "sel s SS" c "sel s DS" "mm s"] ah dl assms(3) by auto
  have "run bios (biosmbr_check pkt) s = Inr (s\<lparr>r32 := g, carry := False, intr := False, mm := m\<rparr>)"
    using assms(1) gm(1) by (simp add: biosmbr_check_def machine_simps fun_upd_twist)
  with gm that show thesis by blast
qed

lemma biosmbr_enter_run:
  assumes "bios_entry s" and "gdt + 30 \<le> 0x10000" and "0x10000 \<le> msize (mm s)"
    and "peek (mm s) gdt 30 = mbr_table (of_nat gdt)" and "unat start32 < 0x10000"
  obtains t where "run bios (biosmbr_enter (of_nat (gdt + 24)) start32) s = Inr t" "protected t" "dbit t"
    "\<forall>sg\<in>{CS, DS, ES, SS}. flat (sbase t sg) (slim t sg)" "next_linear t = 0x1200" "r32 t ESP = 0xa000" "mm t = mm s" "intr t = intr s"
proof -
  have g: "unat (of_nat (gdt + 24) :: u16) = gdt + 24" "unat (of_nat gdt AND 0xffffff :: u32) = gdt"
    using assms(2) by (auto simp: unat_ok unat_low24)
  let ?t = "s\<lparr>r32 := (r32 s)(ESP := 0xa000, EAX := 0x1200), sel := (sel s)(CS := 8, DS := 16, ES := 16, SS := 16),
      sbase := (sbase s)(CS := 0, DS := 0, ES := 0, SS := 0), slim := (slim s)(CS := 0xffffffff, DS := 0xffffffff, ES := 0xffffffff, SS := 0xffffffff),
      dbit := True, cr0 := cr0 s OR CR0_PE, gdtb := gdt, gdtl := 23, eip := 0x1200\<rparr>"
  have "run bios (biosmbr_enter (of_nat (gdt + 24)) start32) s = Inr ?t"
    using assms mbr_table_parts [OF assms(4)] g
    by (simp add: biosmbr_enter_def bios_entry_def machine_simps set_seg_real set_seg_table)
  with that [of ?t] show thesis by (simp add: flat_def next_linear_def)
qed

text \<open>The boot sector in memory: table, pseudo-descriptor and packet as \<open>biosmbr.S\<close> lays them out.\<close>

definition biosmbr_data :: "nat \<Rightarrow> mem \<Rightarrow> bool" where
  "biosmbr_data gdt m \<longleftrightarrow>
     peek m gdt 30 = mbr_table (of_nat gdt) \<and> peek m (gdt + 45) 4 = le_enc 4 (531 :: u32) \<and> peek m (gdt + 49) 4 = [0, 0, 0, 0] \<and>
     0x1400 \<le> gdt \<and> gdt + 53 \<le> 0x10000 \<and> 0x10000 \<le> msize m"

lemma biosmbr_ok:
  assumes "bios_entry s" and "sel s DS = 0" "sbase s DS = 0" and "biosmbr_data gdt (mm s)" and "unat start32 < 0x10000"
    and "bios_extended bios K" and "bios_reads bios sector K"
    and "16 * unat (sel s SS) + unat (ucast (r32 s ESP) :: u16) = c + K" and "c + K \<le> gdt" and "0x1400 \<le> c"
  shows "\<exists>t. biosmbr bios (of_nat (gdt + 31)) (of_nat (gdt + 24)) start32 s = Inr (Some t) \<and> protected t \<and> dbit t \<and> \<not> intr t \<and>
    (\<forall>sg\<in>{CS, DS, ES, SS}. flat (sbase t sg) (slim t sg)) \<and> next_linear t = 0x1200 \<and> r32 t ESP = 0xa000 \<and>
    peek (mm t) 0x1200 512 = sector 531 \<and> only_changed [(0x1200, 512), (gdt + 30, 17), (c, K)] (mm s) (mm t)"
proof -
  let ?p = "gdt + 31"
  note data = assms(4) [unfolded biosmbr_data_def]
  have np: "\<not> protected s" using assms(1) by (simp add: bios_entry_def)
  obtain g m where gm: "run bios (biosmbr_check (of_nat ?p)) s = Inr (s\<lparr>r32 := g, carry := False, intr := False, mm := m\<rparr>)"
    "(ucast (g EBX) :: u16) = 0xaa55" "(ucast (g ECX) :: u16) AND 1 \<noteq> 0" "(ucast (g EDX) :: u8) = 0x80" "(ucast (g ESI) :: u16) = of_nat ?p"
    "g ESP = r32 s ESP" "only_changed [(c, K)] (mm s) m"
    by (rule biosmbr_check_run [OF np assms(6,8)])
  let ?cx = "low16 (g ECX) (ucast (g ECX) AND 1)"
  let ?s1 = "s\<lparr>r32 := g(ECX := ?cx), carry := False, intr := False, mm := m\<rparr>"
  have m1: "peek m (?p + 14) 4 = le_enc 4 (531 :: u32)" "peek m (?p + 18) 4 = [0, 0, 0, 0]" "msize m = msize (mm s)"
    using data only_changed_peek [OF gm(7), of "?p + 14" 4] only_changed_peek [OF gm(7), of "?p + 18" 4] assms(9) gm(7)
    by (auto simp: apart_def only_changed_def add.commute)
  obtain m2 g2 where g2: "run bios (biosmbr_read (of_nat ?p)) ?s1 = Inr (?s1\<lparr>r32 := g2, mm := m2\<rparr>)"
    "drop_bit 8 (ucast (g2 EAX) :: u16) = 0x42" "g2 EDX = g EDX" "g2 ESI = g ESI" "g2 ESP = g ESP"
    "peek m2 ?p 16 = packet 0x120 (ucast (531 :: u32))" "only_changed [(?p - 1, 17)] m m2"
    using biosmbr_read_run [of ?s1 ?p "531" bios] m1 gm(5) assms(1,3) data by (auto simp: bios_entry_def)
  have sz2: "msize m2 = msize (mm s)" using g2(7) m1(3) by (simp add: only_changed_def)
  have pk: "unat (ucast (g2 ESI) :: u16) = ?p"
    using gm(5) g2(4) data by (simp add: unat_ok del: of_nat_add)
  obtain ax m3 where m3: "bios g2 0 (sel s SS) m2 = (g2(EAX := low16 (g2 EAX) ax), False, m3)" "peek m3 0x1200 512 = sector 531"
    "only_changed [(0x1200, 512), (c, K)] m2 m3"
    using assms(7) [unfolded bios_reads_def, rule_format, of g2 m2 0 "0x120" "531" "sel s SS" c] g2(2-6) gm(4,6) pk sz2 data assms(8,10)
    by (auto simp: apart_def)
  let ?s3 = "?s1\<lparr>r32 := g2(EAX := low16 (g2 EAX) ax), mm := m3\<rparr>"
  have int: "run bios [Int13] (?s1\<lparr>r32 := g2, mm := m2\<rparr>) = Inr ?s3"
    using np m3(1) assms(2) by simp
  have oc: "only_changed [(0x1200, 512), (gdt + 30, 17), (c, K)] (mm s) m3"
    using gm(7) g2(7) m3(3) by (auto simp: only_changed_def)
  have "peek m3 gdt 30 = mbr_table (of_nat gdt)" "bios_entry ?s3" "0x10000 \<le> msize m3"
    using data only_changed_peek [OF oc, of gdt 30] oc assms(1,9) by (auto simp: apart_def only_changed_def bios_entry_def)
  then obtain t where t: "run bios (biosmbr_enter (of_nat (gdt + 24)) start32) ?s3 = Inr t" "protected t" "dbit t"
    "\<forall>sg\<in>{CS, DS, ES, SS}. flat (sbase t sg) (slim t sg)" "next_linear t = 0x1200" "r32 t ESP = 0xa000" "mm t = m3" "intr t = False"
    using biosmbr_enter_run [of ?s3 gdt start32 bios thesis] data assms(5) by auto
  have "run bios (biosmbr_read (of_nat ?p) @ [Int13] @ biosmbr_enter (of_nat (gdt + 24)) start32) ?s1 = Inr t"
    using run_then [OF g2(1)] run_then [OF int] t(1) by simp
  moreover have "run bios [Andw_i 1 ECX] (s\<lparr>r32 := g, carry := False, intr := False, mm := m\<rparr>) = Inr ?s1"
    by (simp add: machine_simps)
  ultimately have "biosmbr bios (of_nat ?p) (of_nat (gdt + 24)) start32 s = Inr (Some t)"
    unfolding biosmbr_def using gm(1-3) by (simp add: getw_def)
  then show ?thesis using t m3(2) oc by (intro exI [of _ t]) simp
qed

section \<open>Properties\<close>

text \<open>
  C31: the boot sector of the BIOS build. Entered in real-address mode with ds = 0 on a machine whose
  BIOS has the disk extensions, biosmbr.S reads sector 531 of the disk to 0x1200 and jumps there in
  flat 32-bit protected mode with interrupts off and the stack at 0xa000; besides that sector only its
  packet and the BIOS's stack change. The code at that address is so the first sector of the loader.
\<close>

theorem biosmbr_enters_loader:
  assumes "bios_entry s" and "sel s DS = 0" "sbase s DS = 0" and "biosmbr_data gdt (mm s)" and "unat start32 < 0x10000"
    and "bios_extended bios K" and "bios_reads bios sector K"
    and "16 * unat (sel s SS) + unat (ucast (r32 s ESP) :: u16) = c + K" and "c + K \<le> gdt" and "0x1400 \<le> c"
  shows "\<exists>t. biosmbr bios (of_nat (gdt + 31)) (of_nat (gdt + 24)) start32 s = Inr (Some t) \<and> protected t \<and> dbit t \<and> \<not> intr t \<and>
    (\<forall>sg\<in>{CS, DS, ES, SS}. flat (sbase t sg) (slim t sg)) \<and> next_linear t = 0x1200 \<and> r32 t ESP = 0xa000 \<and>
    peek (mm t) 0x1200 512 = sector 531 \<and> only_changed [(0x1200, 512), (gdt + 30, 17), (c, K)] (mm s) (mm t)"
  by (rule biosmbr_ok [OF assms])

text \<open>A BIOS with both functions.\<close>

definition full_bios :: "(u64 \<Rightarrow> u8 list) \<Rightarrow> bios" where
  "full_bios sector g ds ss m =
     (if drop_bit 8 (ucast (g EAX) :: u16) = 0x41
      then (g(EBX := low16 (g EBX) 0xaa55, ECX := low16 (g ECX) 7), False, m)
      else image_bios sector g ds ss m)"

lemma full_bios_contracts:
  assumes "\<And>n. length (sector n) = 512"
  shows "bios_extended (full_bios sector) K" "bios_reads (full_bios sector) sector K"
proof -
  show "bios_extended (full_bios sector) K"
    by (auto simp: bios_extended_def full_bios_def only_changed_def)
  show "bios_reads (full_bios sector) sector K"
    using image_bios_reads [of sector K, OF assms] unfolding bios_reads_def
    by (simp add: full_bios_def)
qed

definition demo_mbr :: mem where
  "demo_mbr = poke (poke (blank 0x10000) 0x7c40 (mbr_table 0x7c40)) 0x7c6d (le_enc 4 (531 :: u32))"

theorem biosmbr_enters_loader_witness:
  "\<exists>t. biosmbr (full_bios demo_sector) (of_nat (0x7c40 + 31)) (of_nat (0x7c40 + 24)) 0x7c20
       ((boot_pc demo_mbr)\<lparr>r32 := (\<lambda>_. 0)(ESP := 0x7c00)\<rparr>) = Inr (Some t) \<and> next_linear t = 0x1200 \<and>
     peek (mm t) 0x1200 512 = replicate 512 0x13"
proof -
  let ?s = "(boot_pc demo_mbr)\<lparr>r32 := (\<lambda>_. 0)(ESP := 0x7c00)\<rparr>"
  have len: "length (mbr_table w) = 30" for w by (simp add: mbr_table_def mbr_gdt_def SEG_ASM_def SEG_NULLASM_def)
  have "biosmbr_data 0x7c40 (mm ?s)"
    by (simp add: biosmbr_data_def boot_pc_def demo_mbr_def len msize_blank peek_blank) (simp add: numeral_eq_Suc)
  moreover have "bios_entry ?s" "sel ?s DS = 0" "sbase ?s DS = 0" "16 * unat (sel ?s SS) + unat (ucast (r32 ?s ESP) :: u16) = 0x7bc0 + 64"
    by (simp_all add: bios_entry_def boot_pc_def protected_def)
  moreover have "bios_extended (full_bios demo_sector) 64" "bios_reads (full_bios demo_sector) demo_sector 64"
    by (rule full_bios_contracts, simp add: demo_sector_def)+
  ultimately show ?thesis
    using biosmbr_enters_loader [of ?s "0x7c40" "0x7c20" "full_bios demo_sector" 64 demo_sector "0x7bc0"] by (auto simp: demo_sector_def)
qed

end
