(* ===== verification/Machine.thy ===== *)
theory Machine
  imports Prelude
begin

text \<open>
  What the machines of the assembly files share: code at addresses, runs as the closure of a step
  function, and straight-line code executed as a block. The locale \<open>machine\<close> states what a machine has to
  provide for that; it is interpreted for x86-64 and for AArch64.
\<close>

section \<open>Code\<close>

text \<open>The instruction at an address and the address behind it.\<close>

type_synonym 'i program = "u64 \<Rightarrow> ('i \<times> u64) option"

text \<open>A sequence of instructions at an address, and the address behind it.\<close>

fun code_at :: "'i program \<Rightarrow> u64 \<Rightarrow> 'i list \<Rightarrow> u64 \<Rightarrow> bool" where
  "code_at c p [] q \<longleftrightarrow> p = q"
| "code_at c p (i # is) q \<longleftrightarrow> (case c p of None \<Rightarrow> False | Some (j, p') \<Rightarrow> j = i \<and> code_at c p' is q)"

text \<open>Four bytes per instruction: one placement among many, for concrete runs.\<close>

fun place :: "u64 \<Rightarrow> 'i list \<Rightarrow> 'i program" where
  "place p [] = (\<lambda>_. None)"
| "place p (i # is) = (place (p + 4) is)(p \<mapsto> (i, p + 4))"

lemma code_at_Cons: "code_at c p (i # is) q \<longleftrightarrow> (\<exists>r. c p = Some (i, r) \<and> code_at c r is q)"
  by (auto split: option.splits)

lemma code_at_append:
  "code_at c p (xs @ ys) q \<longleftrightarrow> (\<exists>r. code_at c p xs r \<and> code_at c r ys q)"
  by (induction xs arbitrary: p) (auto split: option.splits)

section \<open>Runs\<close>

inductive runs :: "('s \<Rightarrow> 's option) \<Rightarrow> 's \<Rightarrow> 's \<Rightarrow> bool" for f where
  here: "runs f s s"
| onward: "f s = Some s' \<Longrightarrow> runs f s' t \<Longrightarrow> runs f s t"

inductive_cases runsE: "runs f s t"

lemma runs_trans: "runs f s t \<Longrightarrow> runs f t u \<Longrightarrow> runs f s u"
  by (induction rule: runs.induct) (auto intro: runs.onward)

lemma runs_step: "f s = Some t \<Longrightarrow> runs f s t"
  by (blast intro: runs.intros)

text \<open>Steps are deterministic: of two states reached from one, one is on the way to the other.\<close>

lemma runs_linear: "runs f s t \<Longrightarrow> runs f s u \<Longrightarrow> runs f t u \<or> runs f u t"
proof (induction rule: runs.induct)
  case (here s)
  then show ?case by simp
next
  case (onward s s' t)
  from onward.prems show ?case
    by (cases rule: runs.cases) (use onward in \<open>auto intro: runs.onward\<close>)
qed

section \<open>Blocks\<close>

text \<open>
  A machine with a program counter: data instructions neither read nor write it, and a step over one of
  them has its effect and moves the counter behind it.
\<close>

locale machine =
  fixes pc :: "'s \<Rightarrow> u64"
    and set_pc :: "u64 \<Rightarrow> 's \<Rightarrow> 's"
    and eff :: "'i \<Rightarrow> 's \<Rightarrow> 's res"
    and data :: "'i \<Rightarrow> bool"
    and succ :: "'i program \<Rightarrow> 's \<Rightarrow> 's option"
  assumes pc_set_pc: "pc (set_pc a s) = a"
    and set_pc_idem: "set_pc a (set_pc b s) = set_pc a s"
    and set_pc_pc: "set_pc (pc s) s = s"
    and eff_set_pc: "data i \<Longrightarrow> eff i (set_pc a s) = bindE (eff i s) (\<lambda>t. Inr (set_pc a t))"
    and succ_data: "data i \<Longrightarrow> c (pc s) = Some (i, a) \<Longrightarrow> eff i s = Inr t \<Longrightarrow> succ c s = Some (set_pc a t)"
begin

lemma block_set_pc:
  "list_all data is \<Longrightarrow> foldE eff is (set_pc a s) = bindE (foldE eff is s) (\<lambda>t. Inr (set_pc a t))"
  by (induction "is" arbitrary: s) (auto simp: eff_set_pc bindE_def split: sum.split)

lemma run_block:
  assumes "code_at c p is q" and "list_all data is" and "pc s = p" and "foldE eff is s = Inr t"
  shows "runs (succ c) s (set_pc q t)"
  using assms
proof (induction "is" arbitrary: p s t)
  case Nil
  then show ?case using set_pc_pc [of t] by (auto intro: runs.here)
next
  case (Cons i "is")
  then obtain p' where c: "c p = Some (i, p')" "code_at c p' is q"
    by (auto split: option.splits)
  from Cons.prems obtain u where u: "eff i s = Inr u" "foldE eff is u = Inr t"
    by (auto simp: bindE_eq_Inr)
  have "foldE eff is (set_pc p' u) = Inr (set_pc p' t)"
    using block_set_pc [of "is" p' u] u(2) Cons.prems(2) by simp
  then have "runs (succ c) (set_pc p' u) (set_pc q t)"
    using Cons.IH [OF c(2), of "set_pc p' u" "set_pc p' t"] Cons.prems(2) by (simp add: pc_set_pc set_pc_idem)
  moreover have "succ c s = Some (set_pc p' u)"
    using succ_data [of i c s p' u] Cons.prems(2,3) c(1) u(1) by simp
  ultimately show ?case by (rule runs.onward [rotated])
qed

text \<open>A block and the instruction behind it, the form of every routine of the sources.\<close>

lemma run_block_then:
  assumes "code_at c p (is @ [i]) q" and "list_all data is" and "pc s = p" and "foldE eff is s = Inr t"
  shows "\<exists>a. runs (succ c) s (set_pc a t) \<and> c a = Some (i, q)"
proof -
  obtain a where "code_at c p is a" "c a = Some (i, q)"
    using assms(1) by (auto simp: code_at_append split: option.splits)
  with run_block [OF _ assms(2-4)] show ?thesis by blast
qed

end

end
