(* ===== verification/X86.thy ===== *)
theory X86
  imports Machine
begin

text \<open>
  The x86-64 machine that runs the assembly files of \<open>tlibc\<close>: the sixteen general registers, byte memory,
  the instructions the files use, and single steps over code at arbitrary addresses. System calls are
  served by a parameter. \<open>reaches\<close> is the closure of the steps; the interpretation \<open>amd\<close> of the locale
  \<open>machine\<close> gives the rules for straight-line code.
\<close>

unbundle bit_operations_syntax

section \<open>Registers, instructions and states\<close>

text \<open>The 64-bit registers, in the order of the list \<open>REGISTER64\<close> of \<open>x86.h\<close>.\<close>

datatype reg64 = RAX | RBX | RCX | RDX | RSI | RDI | RBP | RSP | R8 | R9 | R10 | R11 | R12 | R13 | R14 | R15

text \<open>Operands in the order of the source: source first, destination last.\<close>

datatype instr =
    MovStore reg64 u64 reg64
  | MovLoad u64 reg64 reg64
  | MovReg reg64 reg64
  | MovImm u64 reg64
  | AddImm u64 reg64
  | AddReg reg64 reg64
  | ShlImm nat reg64
  | XorReg reg64 reg64
  | Call u64
  | Ret
  | Syscall

record 'w cpu =
  rip :: u64
  gpr :: "reg64 \<Rightarrow> u64"
  cmem :: mem
  wld :: 'w

type_synonym code = "instr program"

text \<open>
  The kernel: the call number, the six argument registers, memory and the world give the result, the
  flags the processor left in r11, and the new memory and world; no answer if the call does not return.
\<close>

type_synonym 'w os = "u64 \<Rightarrow> u64 list \<Rightarrow> mem \<Rightarrow> 'w \<Rightarrow> (u64 \<times> u64 \<times> mem \<times> 'w) option"

section \<open>Execution\<close>

definition set_reg :: "reg64 \<Rightarrow> u64 \<Rightarrow> 'w cpu \<Rightarrow> 'w cpu" where
  "set_reg r v s = s\<lparr>gpr := (gpr s)(r := v)\<rparr>"

definition load64 :: "u64 \<Rightarrow> mem \<Rightarrow> u64 res" where
  "load64 a m = bindE (rd (unat a) 8 m) (\<lambda>bs. Inr (le_dec bs))"

definition store64 :: "u64 \<Rightarrow> u64 \<Rightarrow> mem \<Rightarrow> mem res" where
  "store64 a v m = wr (unat a) (le_enc 8 v) m"

text \<open>The instructions that only move data; the others change \<open>rip\<close> and are part of \<open>step\<close>.\<close>

fun effect :: "instr \<Rightarrow> 'w cpu \<Rightarrow> 'w cpu res" where
  "effect (MovStore r off b) s = bindE (store64 (gpr s b + off) (gpr s r) (cmem s)) (\<lambda>m. Inr (s\<lparr>cmem := m\<rparr>))"
| "effect (MovLoad off b r) s = bindE (load64 (gpr s b + off) (cmem s)) (\<lambda>v. Inr (set_reg r v s))"
| "effect (MovReg a b) s = Inr (set_reg b (gpr s a) s)"
| "effect (MovImm v r) s = Inr (set_reg r v s)"
| "effect (AddImm v r) s = Inr (set_reg r (gpr s r + v) s)"
| "effect (AddReg a b) s = Inr (set_reg b (gpr s b + gpr s a) s)"
| "effect (ShlImm n r) s = Inr (set_reg r (push_bit n (gpr s r)) s)"
| "effect (XorReg a b) s = Inr (set_reg b (gpr s b XOR gpr s a) s)"
| "effect _ s = Inl WildAccess"

fun is_data :: "instr \<Rightarrow> bool" where
  "is_data (Call _) = False"
| "is_data Ret = False"
| "is_data Syscall = False"
| "is_data _ = True"

text \<open>One step: the next state, a call the kernel does not return from, or a fault.\<close>

datatype 'w outcome = Go "'w cpu" | Stop u64 "u64 list" "'w cpu" | Bad fault

definition go :: "'w cpu res \<Rightarrow> 'w outcome" where
  "go r = (case r of Inl e \<Rightarrow> Bad e | Inr s \<Rightarrow> Go s)"

definition sys_args :: "'w cpu \<Rightarrow> u64 list" where
  "sys_args s = map (gpr s) [RDI, RSI, RDX, R10, R8, R9]"

definition step_syscall :: "'w os \<Rightarrow> u64 \<Rightarrow> 'w cpu \<Rightarrow> 'w outcome" where
  "step_syscall os nxt s =
     (case os (gpr s RAX) (sys_args s) (cmem s) (wld s) of
        None \<Rightarrow> Stop (gpr s RAX) (sys_args s) s
      | Some (v, fl, m, w) \<Rightarrow>
          Go (s\<lparr>rip := nxt, gpr := (gpr s)(RAX := v, RCX := nxt, R11 := fl), cmem := m, wld := w\<rparr>))"

definition step_call :: "u64 \<Rightarrow> u64 \<Rightarrow> 'w cpu \<Rightarrow> 'w outcome" where
  "step_call target nxt s =
     (let sp = gpr s RSP - 8 in
      go (bindE (store64 sp nxt (cmem s)) (\<lambda>m. Inr ((set_reg RSP sp s)\<lparr>cmem := m, rip := target\<rparr>))))"

definition step_ret :: "'w cpu \<Rightarrow> 'w outcome" where
  "step_ret s = go (bindE (load64 (gpr s RSP) (cmem s)) (\<lambda>a. Inr ((set_reg RSP (gpr s RSP + 8) s)\<lparr>rip := a\<rparr>)))"

definition step :: "'w os \<Rightarrow> code \<Rightarrow> 'w cpu \<Rightarrow> 'w outcome" where
  "step os c s =
     (case c (rip s) of
        None \<Rightarrow> Bad WildAccess
      | Some (i, nxt) \<Rightarrow>
          (case i of
             Call target \<Rightarrow> step_call target nxt s
           | Ret \<Rightarrow> step_ret s
           | Syscall \<Rightarrow> step_syscall os nxt s
           | _ \<Rightarrow> go (bindE (effect i s) (\<lambda>s. Inr (s\<lparr>rip := nxt\<rparr>)))))"

definition advance :: "'w os \<Rightarrow> code \<Rightarrow> 'w cpu \<Rightarrow> 'w cpu option" where
  "advance os c s = (case step os c s of Go t \<Rightarrow> Some t | _ \<Rightarrow> None)"

abbreviation reaches :: "'w os \<Rightarrow> code \<Rightarrow> 'w cpu \<Rightarrow> 'w cpu \<Rightarrow> bool" where
  "reaches os c \<equiv> runs (advance os c)"

section \<open>Runs\<close>

named_theorems cpu_simps \<open>reading a state after register and memory updates\<close>

lemma set_reg_simps [simp, cpu_simps]:
  "gpr (set_reg r v s) = (gpr s)(r := v)" "cmem (set_reg r v s) = cmem s" "wld (set_reg r v s) = wld s"
  "rip (set_reg r v s) = rip s"
  by (simp_all add: set_reg_def)

lemma go_Inr [simp]: "go (Inr s) = Go s"
  by (simp add: go_def)

lemmas reaches_trans = runs_trans

lemma reaches_step: "step os c s = Go t \<Longrightarrow> reaches os c s t"
  by (rule runs_step) (simp add: advance_def)

lemma step_data:
  "is_data i \<Longrightarrow> c (rip s) = Some (i, nxt) \<Longrightarrow> step os c s = go (bindE (effect i s) (\<lambda>s. Inr (s\<lparr>rip := nxt\<rparr>)))"
  by (cases i) (simp_all add: step_def)

lemma effect_rip: "effect i (s\<lparr>rip := a\<rparr>) = bindE (effect i s) (\<lambda>t. Inr (t\<lparr>rip := a\<rparr>))"
  by (cases i) (auto simp: set_reg_def bindE_def split: sum.split)

interpretation amd: machine rip "\<lambda>a s. s\<lparr>rip := a\<rparr>" effect is_data "advance os" for os
  by unfold_locales (simp_all add: effect_rip advance_def step_data)

lemmas run_block = amd.run_block
lemmas run_block_then = amd.run_block_then

lemma step_Ret:
  "c (rip s) = Some (Ret, nxt) \<Longrightarrow> unat (gpr s RSP) + 8 \<le> msize (cmem s) \<Longrightarrow>
   step os c s = Go ((set_reg RSP (gpr s RSP + 8) s)\<lparr>rip := le_dec (peek (cmem s) (unat (gpr s RSP)) 8)\<rparr>)"
  by (simp add: step_def step_ret_def load64_def)

lemma step_Call:
  "c (rip s) = Some (Call a, nxt) \<Longrightarrow> unat (gpr s RSP - 8) + 8 \<le> msize (cmem s) \<Longrightarrow>
   step os c s = Go ((set_reg RSP (gpr s RSP - 8) s)
     \<lparr>cmem := poke (cmem s) (unat (gpr s RSP - 8)) (le_enc 8 nxt), rip := a\<rparr>)"
  by (simp add: step_def step_call_def store64_def Let_def)

lemma step_Syscall: "c (rip s) = Some (Syscall, nxt) \<Longrightarrow> step os c s = step_syscall os nxt s"
  by (simp add: step_def)

text \<open>A slot of an object: no wrap-around inside memory that fits the address space.\<close>

lemma unat_slot:
  assumes "unat (a :: u64) + n \<le> msize m" and "msize m \<le> 2 ^ 64" and "unat k < n"
  shows "unat (a + k) = unat a + unat k"
  using assms by (intro unat_add_ok) simp

end
