(* ===== verification/Jump.thy ===== *)
theory Jump
  imports X86 Endian
begin

text \<open>
  \<open>tlibc/jump.h\<close> and \<open>tlibc/jump.S\<close>: the snapshot buffer and the two routines, instruction by
  instruction.
\<close>

section \<open>The buffer and the code\<close>

definition jumpbuf :: layout where
  "jumpbuf =
     [(''rip'', 8), (''rax'', 8), (''rbx'', 8), (''rcx'', 8), (''rdx'', 8), (''rsi'', 8), (''rdi'', 8), (''rbp'', 8),
      (''rsp'', 8), (''r8'', 8), (''r9'', 8), (''r10'', 8), (''r11'', 8), (''r12'', 8), (''r13'', 8), (''r14'', 8),
      (''r15'', 8)]"

definition setjmp :: "instr list" where
  "setjmp =
     [MovStore RAX 0x8 RDI, MovStore RBX 0x10 RDI, MovStore RCX 0x18 RDI, MovStore RDX 0x20 RDI,
      MovStore RSI 0x28 RDI, MovStore RDI 0x30 RDI, MovStore RBP 0x38 RDI, MovStore RSP 0x40 RDI,
      MovStore R8 0x48 RDI, MovStore R9 0x50 RDI, MovStore R10 0x58 RDI, MovStore R11 0x60 RDI,
      MovStore R12 0x68 RDI, MovStore R13 0x70 RDI, MovStore R14 0x78 RDI, MovStore R15 0x80 RDI,
      MovLoad 0x0 RSP RAX, MovStore RAX 0x0 RDI, MovImm 0 RAX, Ret]"

definition longjmp :: "instr list" where
  "longjmp =
     [MovLoad 0x10 RDI RBX, MovLoad 0x18 RDI RCX, MovLoad 0x20 RDI RDX, MovLoad 0x38 RDI RBP,
      MovLoad 0x48 RDI R8, MovLoad 0x50 RDI R9, MovLoad 0x58 RDI R10, MovLoad 0x60 RDI R11,
      MovLoad 0x68 RDI R12, MovLoad 0x70 RDI R13, MovLoad 0x78 RDI R14, MovLoad 0x80 RDI R14,
      MovLoad 0x0 RDI RAX, MovStore RAX 0x0 RSP, MovReg RSI RAX, Ret]"

text \<open>A field of the buffer at an address, and the register each field is for.\<close>

definition jb_slot :: "mem \<Rightarrow> u64 \<Rightarrow> string \<Rightarrow> u64" where
  "jb_slot m jb f = le_dec (peek m (unat jb + offsetof jumpbuf f) (field_size jumpbuf f))"

definition jb_regs :: "reg64 list" where
  "jb_regs = [RAX, RBX, RCX, RDX, RSI, RDI, RBP, RSP, R8, R9, R10, R11, R12, R13, R14, R15]"

text \<open>The whole snapshot as bytes: the return address, then the registers.\<close>

definition snapshot :: "u64 \<Rightarrow> (reg64 \<Rightarrow> u64) \<Rightarrow> u8 list" where
  "snapshot ret g = concat (map (le_enc 8) (ret # map g jb_regs))"

text \<open>
  The call of a routine on a buffer: the code is at \<open>rip\<close>, \<open>rdi\<close> is the buffer, the buffer and the
  return address on the stack lie in memory and apart from each other.
\<close>

definition jb_call :: "code \<Rightarrow> instr list \<Rightarrow> u64 \<Rightarrow> 'w cpu \<Rightarrow> bool" where
  "jb_call c routine jb s \<longleftrightarrow>
     (\<exists>q. code_at c (rip s) routine q) \<and> gpr s RDI = jb \<and> msize (cmem s) \<le> 2 ^ 64 \<and>
     unat jb + struct_size jumpbuf \<le> msize (cmem s) \<and> unat (gpr s RSP) + 8 \<le> msize (cmem s) \<and>
     apart [(unat jb, struct_size jumpbuf)] (unat (gpr s RSP)) 8"

definition return_address :: "'w cpu \<Rightarrow> u64" where
  "return_address s = le_dec (peek (cmem s) (unat (gpr s RSP)) 8)"

section \<open>What the routines do\<close>

lemma jumpbuf_size [simp]: "struct_size jumpbuf = 136"
  by (simp add: jumpbuf_def struct_size_def)

lemma store_slot:
  assumes "unat a + 136 \<le> msize m" and "msize m \<le> 2 ^ 64" and "unat k + 8 \<le> 136"
  shows "store64 (a + k) v m = Inr (poke m (unat a + unat k) (le_enc 8 v))"
  using assms unat_slot [of a 136 m k] by (simp add: store64_def)

lemma load_slot:
  assumes "unat a + 136 \<le> msize m" and "msize m \<le> 2 ^ 64" and "unat k + 8 \<le> 136"
  shows "load64 (a + k) m = Inr (le_dec (peek m (unat a + unat k) 8))"
  using assms unat_slot [of a 136 m k] by (simp add: load64_def)

lemma load_top: "unat a + 8 \<le> msize m \<Longrightarrow> load64 a m = Inr (le_dec (peek m (unat a) 8))"
  by (simp add: load64_def)

lemma store_top: "unat a + 8 \<le> msize m \<Longrightarrow> store64 a v m = Inr (poke m (unat a) (le_enc 8 v))"
  by (simp add: store64_def)

lemmas slot_access = store_slot load_slot load_top store_top

lemma length_snapshot [simp]: "length (snapshot ret g) = 136"
  by (simp add: snapshot_def jb_regs_def)

lemma setjmp_block:
  assumes "unat (gpr s RDI) + 136 \<le> msize (cmem s)" and "msize (cmem s) \<le> 2 ^ 64"
    and "unat (gpr s RSP) + 8 \<le> msize (cmem s)" and "apart [(unat (gpr s RDI), 136)] (unat (gpr s RSP)) 8"
  shows "foldE effect (butlast setjmp) s =
    Inr (s\<lparr>gpr := (gpr s)(RAX := 0), cmem := poke (cmem s) (unat (gpr s RDI)) (snapshot (return_address s) (gpr s))\<rparr>)"
  using assms
  by (auto simp: setjmp_def slot_access set_reg_def apart_def return_address_def poke_behind poke_before
      snapshot_def jb_regs_def)

text \<open>The registers after \<open>longjmp\<close>: the slot of r15 ends in r14, and r15, rsi and rdi keep their values.\<close>

definition restored :: "mem \<Rightarrow> u64 \<Rightarrow> (reg64 \<Rightarrow> u64) \<Rightarrow> reg64 \<Rightarrow> u64" where
  "restored m jb g =
     g(RBX := jb_slot m jb ''rbx'', RCX := jb_slot m jb ''rcx'', RDX := jb_slot m jb ''rdx'',
       RBP := jb_slot m jb ''rbp'', R8 := jb_slot m jb ''r8'', R9 := jb_slot m jb ''r9'', R10 := jb_slot m jb ''r10'',
       R11 := jb_slot m jb ''r11'', R12 := jb_slot m jb ''r12'', R13 := jb_slot m jb ''r13'',
       R14 := jb_slot m jb ''r15'', RAX := g RSI)"

lemma longjmp_block:
  assumes "unat (gpr s RDI) + 136 \<le> msize (cmem s)" and "msize (cmem s) \<le> 2 ^ 64" and "unat (gpr s RSP) + 8 \<le> msize (cmem s)"
  shows "foldE effect (butlast longjmp) s =
    Inr (s\<lparr>gpr := restored (cmem s) (gpr s RDI) (gpr s),
       cmem := poke (cmem s) (unat (gpr s RSP)) (le_enc 8 (jb_slot (cmem s) (gpr s RDI) ''rip''))\<rparr>)"
  using assms
  by (simp add: longjmp_def slot_access set_reg_def restored_def jb_slot_def jumpbuf_def fun_upd_twist)

definition after_setjmp :: "u64 \<Rightarrow> 'w cpu \<Rightarrow> 'w cpu" where
  "after_setjmp jb s =
     s\<lparr>rip := return_address s, gpr := (gpr s)(RAX := 0, RSP := gpr s RSP + 8),
       cmem := poke (cmem s) (unat jb) (snapshot (return_address s) (gpr s))\<rparr>"

definition after_longjmp :: "u64 \<Rightarrow> 'w cpu \<Rightarrow> 'w cpu" where
  "after_longjmp jb s =
     s\<lparr>rip := jb_slot (cmem s) jb ''rip'', gpr := (restored (cmem s) jb (gpr s))(RSP := gpr s RSP + 8),
       cmem := poke (cmem s) (unat (gpr s RSP)) (le_enc 8 (jb_slot (cmem s) jb ''rip''))\<rparr>"

lemma routine_shape:
  "setjmp = butlast setjmp @ [Ret]" "list_all is_data (butlast setjmp)"
  "longjmp = butlast longjmp @ [Ret]" "list_all is_data (butlast longjmp)"
  by (simp_all add: setjmp_def longjmp_def)

lemma jb_callD:
  assumes "jb_call c routine jb s"
  obtains q where "code_at c (rip s) routine q" "gpr s RDI = jb" "msize (cmem s) \<le> 2 ^ 64"
    "unat (gpr s RDI) + 136 \<le> msize (cmem s)" "unat (gpr s RSP) + 8 \<le> msize (cmem s)"
    "apart [(unat (gpr s RDI), 136)] (unat (gpr s RSP)) 8"
  using assms by (auto simp: jb_call_def)

lemma setjmp_reaches:
  assumes "jb_call c setjmp jb s"
  shows "reaches os c s (after_setjmp jb s)"
proof -
  from assms obtain q where q: "code_at c (rip s) (butlast setjmp @ [Ret]) q" and jb: "gpr s RDI = jb"
    and sp: "unat (gpr s RSP) + 8 \<le> msize (cmem s)" "apart [(unat (gpr s RDI), 136)] (unat (gpr s RSP)) 8"
    and blk: "foldE effect (butlast setjmp) s =
      Inr (s\<lparr>gpr := (gpr s)(RAX := 0), cmem := poke (cmem s) (unat (gpr s RDI)) (snapshot (return_address s) (gpr s))\<rparr>)"
    using setjmp_block [of s] by (elim jb_callD) (metis routine_shape(1))
  let ?t = "s\<lparr>gpr := (gpr s)(RAX := 0), cmem := poke (cmem s) (unat (gpr s RDI)) (snapshot (return_address s) (gpr s))\<rparr>"
  obtain a where a: "reaches os c s (?t\<lparr>rip := a\<rparr>)" "c a = Some (Ret, q)"
    using run_block_then [OF q routine_shape(2) refl blk] by blast
  have "peek (cmem ?t) (unat (gpr s RSP)) 8 = peek (cmem s) (unat (gpr s RSP)) 8"
    using sp(2) by (auto simp: apart_def)
  then have "step os c (?t\<lparr>rip := a\<rparr>) = Go (after_setjmp jb s)"
    using a(2) sp(1) jb by (simp add: step_Ret after_setjmp_def return_address_def set_reg_def)
  then show ?thesis using a(1) by (blast intro: reaches_trans reaches_step)
qed

lemma longjmp_reaches:
  assumes "jb_call c longjmp jb s"
  shows "reaches os c s (after_longjmp jb s)"
proof -
  from assms obtain q where q: "code_at c (rip s) (butlast longjmp @ [Ret]) q" and jb: "gpr s RDI = jb"
    and sp: "unat (gpr s RSP) + 8 \<le> msize (cmem s)"
    and blk: "foldE effect (butlast longjmp) s =
      Inr (s\<lparr>gpr := restored (cmem s) jb (gpr s),
         cmem := poke (cmem s) (unat (gpr s RSP)) (le_enc 8 (jb_slot (cmem s) jb ''rip''))\<rparr>)"
    using longjmp_block [of s] by (elim jb_callD) (metis routine_shape(3))
  let ?t = "s\<lparr>gpr := restored (cmem s) jb (gpr s),
         cmem := poke (cmem s) (unat (gpr s RSP)) (le_enc 8 (jb_slot (cmem s) jb ''rip''))\<rparr>"
  obtain a where a: "reaches os c s (?t\<lparr>rip := a\<rparr>)" "c a = Some (Ret, q)"
    using run_block_then [OF q routine_shape(4) refl blk] by blast
  have "restored (cmem s) jb (gpr s) RSP = gpr s RSP"
    by (simp add: restored_def)
  then have "step os c (?t\<lparr>rip := a\<rparr>) = Go (after_longjmp jb s)"
    using a(2) sp jb by (simp add: step_Ret after_longjmp_def set_reg_def)
  then show ?thesis using a(1) by (blast intro: reaches_trans reaches_step)
qed

lemma snapshot_slots:
  assumes "peek m (unat jb) 136 = snapshot ret g"
  shows "jb_slot m jb ''rip'' = ret" and "jb_slot m jb ''rbx'' = g RBX" and "jb_slot m jb ''rcx'' = g RCX"
    and "jb_slot m jb ''rdx'' = g RDX" and "jb_slot m jb ''rbp'' = g RBP" and "jb_slot m jb ''r8'' = g R8"
    and "jb_slot m jb ''r9'' = g R9" and "jb_slot m jb ''r10'' = g R10" and "jb_slot m jb ''r11'' = g R11"
    and "jb_slot m jb ''r12'' = g R12" and "jb_slot m jb ''r13'' = g R13" and "jb_slot m jb ''r14'' = g R14"
    and "jb_slot m jb ''r15'' = g R15"
  using assms peek_concat [of 136 "map (le_enc 8) (ret # map g jb_regs)" m "unat jb"]
  by (simp_all add: jb_slot_def jumpbuf_def snapshot_def jb_regs_def add.assoc)

lemma restored_snapshot:
  assumes "peek m (unat jb) 136 = snapshot ret g0"
  shows "restored m jb g = (\<lambda>r. if r \<in> {RBX, RCX, RDX, RBP, R8, R9, R10, R11, R12, R13} then g0 r
    else if r = R14 then g0 R15 else if r = RAX then g RSI else g r)"
proof
  fix r
  show "restored m jb g r = (if r \<in> {RBX, RCX, RDX, RBP, R8, R9, R10, R11, R12, R13} then g0 r
    else if r = R14 then g0 R15 else if r = RAX then g RSI else g r)"
    by (cases r) (simp_all add: restored_def snapshot_slots [OF assms])
qed

section \<open>Properties\<close>

text \<open>
  C34: the non-local jump. If a program calls setjmp, runs on from its return to a call of longjmp on
  the same buffer, and the buffer still holds the snapshot, then the whole run arrives at the return
  address of that setjmp a second time, now with longjmp's second argument as the result. Exactly rbx,
  rcx, rdx, rbp and r8 to r13 have their values of the setjmp call; r14 gets the value r15 had, r15, rsi
  and rdi keep those of the longjmp call, and the stack pointer is the one of the longjmp call, not of
  the setjmp call. Memory changes only in the slot of longjmp's own return address.
\<close>

theorem longjmp_returns_to_setjmp:
  assumes "jb_call c setjmp jb s" and "reaches os c (after_setjmp jb s) u" and "jb_call c longjmp jb u"
    and "peek (cmem u) (unat jb) 136 = snapshot (return_address s) (gpr s)"
  shows "\<exists>v. reaches os c s v \<and> rip v = return_address s \<and> gpr v RAX = gpr u RSI \<and>
    (\<forall>r\<in>{RBX, RCX, RDX, RBP, R8, R9, R10, R11, R12, R13}. gpr v r = gpr s r) \<and>
    gpr v R14 = gpr s R15 \<and> gpr v R15 = gpr u R15 \<and> gpr v RSI = gpr u RSI \<and> gpr v RDI = jb \<and>
    gpr v RSP = gpr u RSP + 8 \<and> cmem v = poke (cmem u) (unat (gpr u RSP)) (le_enc 8 (return_address s))"
proof -
  have "reaches os c s (after_longjmp jb u)"
    using setjmp_reaches [OF assms(1)] assms(2) longjmp_reaches [OF assms(3)] by (blast intro: reaches_trans)
  moreover have "gpr u RDI = jb" using assms(3) by (simp add: jb_call_def)
  ultimately show ?thesis
    by (intro exI [of _ "after_longjmp jb u"])
      (simp add: after_longjmp_def restored_snapshot [OF assms(4)] snapshot_slots(1) [OF assms(4)])
qed

text \<open>
  The first return of setjmp. A call of setjmp arrives at its return address with result 0, every
  other register as before the call, and memory changed exactly in the 136 bytes of the buffer, which
  hold the return address and the sixteen registers in the order of the fields of the structure.
\<close>

theorem setjmp_saves:
  assumes "jb_call c setjmp jb s"
  shows "\<exists>t. reaches os c s t \<and> rip t = return_address s \<and> gpr t = (gpr s)(RAX := 0, RSP := gpr s RSP + 8) \<and>
    cmem t = poke (cmem s) (unat jb) (concat (map (le_enc 8) (return_address s # map (gpr s) jb_regs))) \<and>
    length jb_regs + 1 = length jumpbuf"
  using setjmp_reaches [OF assms, of os]
  by (intro exI [of _ "after_setjmp jb s"]) (simp add: after_setjmp_def snapshot_def jb_regs_def jumpbuf_def)

text \<open>
  A program for the witnesses: it calls setjmp on the buffer at 0x1000 and, on the first return, calls
  longjmp with 7.
\<close>

definition jump_code :: code where
  "jump_code = place 0x100 setjmp ++ place 0x200 longjmp ++ place 0x300 [MovImm 7 RSI, Call 0x200]"

definition jump_start :: "unit cpu" where
  "jump_start = \<lparr>rip = 0x100, gpr = (\<lambda>r. if r = RDI then 0x1000 else if r = RSP then 0x800 else if r = R15 then 15 else 1),
     cmem = poke (blank 0x2000) 0x800 (le_enc 8 (0x300 :: u64)), wld = ()\<rparr>"

lemma jump_code_at:
  "code_at jump_code 0x100 setjmp 0x150" "code_at jump_code 0x200 longjmp 0x240"
  "jump_code 0x300 = Some (MovImm 7 RSI, 0x304)" "jump_code 0x304 = Some (Call 0x200, 0x308)"
  by (simp_all add: jump_code_def setjmp_def longjmp_def map_add_def)

lemma jump_start_call: "jb_call jump_code setjmp 0x1000 jump_start"
  unfolding jb_call_def using jump_code_at(1)
  by (simp add: jump_start_def blank_def apart_def) blast

lemma jump_start_return: "return_address jump_start = 0x300"
  by (simp add: return_address_def jump_start_def)

definition jump_second :: "unit cpu" where
  "jump_second =
     (let s = after_setjmp 0x1000 jump_start
      in s\<lparr>rip := 0x200, gpr := (gpr s)(RSI := 7, RSP := 0x800), cmem := poke (cmem s) 0x800 (le_enc 8 (0x308 :: u64))\<rparr>)"

lemma jump_second_reached: "reaches os jump_code (after_setjmp 0x1000 jump_start) jump_second"
proof -
  let ?s = "after_setjmp 0x1000 jump_start"
  have s: "rip ?s = 0x300" "gpr ?s RSP = 0x808" "msize (cmem ?s) = 0x2000"
    by (simp_all add: after_setjmp_def jump_start_return) (simp_all add: jump_start_def blank_def)
  have "step os jump_code ?s = Go ((set_reg RSI 7 ?s)\<lparr>rip := 0x304\<rparr>)"
    by (simp add: step_def s jump_code_at)
  moreover have "step os jump_code ((set_reg RSI 7 ?s)\<lparr>rip := 0x304\<rparr>) = Go jump_second"
    by (simp add: step_Call s jump_code_at jump_second_def set_reg_def Let_def)
  ultimately show ?thesis
    by (blast intro: reaches_trans reaches_step)
qed

lemma jump_second_call:
  "jb_call jump_code longjmp 0x1000 jump_second"
  "peek (cmem jump_second) (unat (0x1000 :: u64)) 136 = snapshot (return_address jump_start) (gpr jump_start)"
proof -
  have m: "msize (cmem jump_second) = 0x2000" "rip jump_second = 0x200" "gpr jump_second RDI = 0x1000" "gpr jump_second RSP = 0x800"
    by (simp_all add: jump_second_def Let_def after_setjmp_def) (simp_all add: jump_start_def blank_def)
  show "jb_call jump_code longjmp 0x1000 jump_second"
    unfolding jb_call_def m using jump_code_at(2) by (simp add: apart_def m) blast
  show "peek (cmem jump_second) (unat (0x1000 :: u64)) 136 = snapshot (return_address jump_start) (gpr jump_start)"
    by (simp add: jump_second_def Let_def after_setjmp_def)
qed

theorem longjmp_returns_to_setjmp_witness:
  "\<exists>v. reaches (\<lambda>_ _ _ _. None) jump_code jump_start v \<and> rip v = 0x300 \<and> gpr v RAX = 7 \<and> gpr v RBX = 1 \<and> gpr v R14 = 15"
proof -
  have "gpr jump_second RSI = 7" "gpr jump_start RBX = 1" "gpr jump_start R15 = 15"
    by (simp_all add: jump_second_def Let_def jump_start_def)
  then show ?thesis
    using longjmp_returns_to_setjmp [OF jump_start_call jump_second_reached jump_second_call, of "\<lambda>_ _ _ _. None"]
    by (auto simp: jump_start_return)
qed

theorem setjmp_saves_witness:
  "\<exists>t. reaches (\<lambda>_ _ _ _. None) jump_code jump_start t \<and> rip t = 0x300 \<and> gpr t RAX = 0"
  using setjmp_saves [OF jump_start_call, of "\<lambda>_ _ _ _. None"] by (auto simp: jump_start_return)

end
