(* ===== verification/Sys.thy ===== *)
theory Sys
  imports X86
begin

text \<open>
  \<open>tlibc/sys.h\<close> and the x86-64 part of \<open>tlibc/sys.S\<close>: the declarations of the system calls, the stubs that
  issue them, and the program entry \<open>_start\<close>. The call numbers of \<open>syscall.h\<close> are a parameter.
\<close>

section \<open>Declarations and stubs\<close>

datatype ctype = CVoid | CInt | CUInt32 | CUInt64 | CLong | CPtr

text \<open>Name, return type and parameter types, in the order of the header.\<close>

definition process_decls :: "(string \<times> ctype \<times> ctype list) list" where
  "process_decls =
     [(''sys_exit'', CVoid, [CInt]),
      (''sys_execve'', CVoid, [CPtr, CPtr, CPtr]),
      (''sys_vfork'', CInt, []),
      (''sys_fork'', CInt, []),
      (''sys_pause'', CVoid, []),
      (''sys_waitid'', CInt, [CUInt32, CUInt32, CPtr, CInt]),
      (''sys_kill'', CInt, [CInt, CInt]),
      (''sys_getpid'', CInt, []),
      (''sys_nanosleep'', CInt, [CPtr, CPtr])]"

definition io_decls :: "(string \<times> ctype \<times> ctype list) list" where
  "io_decls =
     [(''sys_chdir'', CInt, [CPtr]),
      (''sys_getcwd'', CPtr, [CPtr, CUInt64]),
      (''sys_write'', CLong, [CInt, CPtr, CUInt64]),
      (''sys_read'', CLong, [CInt, CPtr, CUInt64]),
      (''sys_openat'', CInt, [CInt, CPtr, CUInt64]),
      (''sys_open'', CInt, [CPtr, CUInt64]),
      (''sys_close'', CVoid, [CInt]),
      (''sys_lseek'', CLong, [CInt, CLong, CInt]),
      (''sys_dup'', CInt, [CInt]),
      (''sys_dup2'', CInt, [CInt, CInt]),
      (''sys_pipe'', CInt, [CPtr]),
      (''sys_link'', CInt, [CPtr, CPtr]),
      (''sys_mkdir'', CInt, [CPtr, CInt]),
      (''sys_fstat'', CInt, [CInt, CPtr])]"

definition memory_decls :: "(string \<times> ctype \<times> ctype list) list" where
  "memory_decls =
     [(''sys_mmap'', CPtr, [CPtr, CUInt64, CInt, CInt, CInt, CLong]),
      (''sys_munmap'', CVoid, [CPtr, CUInt64]),
      (''sys_brk'', CInt, [CPtr])]"

definition dirent_decls :: "(string \<times> ctype \<times> ctype list) list" where
  "dirent_decls =
     [(''sys_getdents'', CLong, [CInt, CPtr, CUInt64])]"

definition sys_decls :: "(string \<times> ctype \<times> ctype list) list" where
  "sys_decls = process_decls @ io_decls @ memory_decls @ dirent_decls"

lemmas decl_defs = sys_decls_def process_decls_def io_decls_def memory_decls_def dirent_decls_def

definition stub :: "u64 \<Rightarrow> instr list" where
  "stub nr = [MovImm nr RAX, Syscall, Ret]"

text \<open>The two stubs whose fourth argument is moved to where the kernel looks for it.\<close>

definition sys_mmap_code :: "(string \<Rightarrow> u64) \<Rightarrow> instr list" where
  "sys_mmap_code SYS = [MovImm (SYS ''mmap'') RAX, MovReg RCX R10, Syscall, Ret]"

definition sys_waitid_code :: "(string \<Rightarrow> u64) \<Rightarrow> instr list" where
  "sys_waitid_code SYS = [MovImm (SYS ''waitid'') RAX, MovReg RCX R10, Syscall, Ret]"

definition sys_exit_code :: "(string \<Rightarrow> u64) \<Rightarrow> instr list" where
  "sys_exit_code SYS = [MovImm (SYS ''exit'') RAX, Syscall]"

text \<open>Every routine of the file with its code, in the order of the source.\<close>

definition sys_routines :: "(string \<Rightarrow> u64) \<Rightarrow> (string \<times> instr list) list" where
  "sys_routines SYS =
     [(''sys_exit'', sys_exit_code SYS),
      (''sys_write'', stub (SYS ''write'')),
      (''sys_pause'', stub (SYS ''pause'')),
      (''sys_read'', stub (SYS ''read'')),
      (''sys_open'', stub (SYS ''open'')),
      (''sys_openat'', stub (SYS ''openat'')),
      (''sys_mmap'', sys_mmap_code SYS),
      (''sys_munmap'', stub (SYS ''munmap'')),
      (''sys_close'', stub (SYS ''close'')),
      (''sys_lseek'', stub (SYS ''lseek'')),
      (''sys_brk'', stub (SYS ''brk'')),
      (''sys_getdents'', stub (SYS ''getdents'')),
      (''sys_execve'', stub (SYS ''execve'')),
      (''sys_fork'', stub (SYS ''fork'')),
      (''sys_vfork'', stub (SYS ''vfork'')),
      (''sys_dup2'', stub (SYS ''dup2'')),
      (''sys_dup'', stub (SYS ''dup'')),
      (''sys_pipe'', stub (SYS ''pipe'')),
      (''sys_link'', stub (SYS ''link'')),
      (''sys_fstat'', stub (SYS ''fstat'')),
      (''sys_mkdir'', stub (SYS ''mkdir'')),
      (''sys_waitid'', sys_waitid_code SYS),
      (''sys_chdir'', stub (SYS ''chdir'')),
      (''sys_getcwd'', stub (SYS ''getcwd'')),
      (''sys_kill'', stub (SYS ''kill'')),
      (''sys_getpid'', stub (SYS ''getpid'')),
      (''sys_nanosleep'', stub (SYS ''nanosleep''))]"

section \<open>Program entry\<close>

definition start_entry :: "u64 \<Rightarrow> instr list" where
  "start_entry main =
     [MovLoad 0 RSP RDI, MovReg RSP RSI, AddImm 0x8 RSI, MovReg RDI RAX, AddImm 2 RAX, ShlImm 3 RAX,
      MovReg RSP RDX, AddReg RAX RDX, XorReg RAX RAX, Call main]"

definition start_exit :: "u64 \<Rightarrow> instr list" where
  "start_exit sys_exit = [MovReg RAX RDI, Call sys_exit, Ret]"

definition start_code :: "u64 \<Rightarrow> u64 \<Rightarrow> instr list" where
  "start_code main sys_exit = start_entry main @ start_exit sys_exit"

section \<open>The calling convention\<close>

definition c_args :: "'w cpu \<Rightarrow> u64 list" where
  "c_args s = map (gpr s) [RDI, RSI, RDX, RCX, R8, R9]"

definition callee_saved :: "reg64 list" where
  "callee_saved = [RBX, RBP, R12, R13, R14, R15]"

text \<open>What the kernel gets in its six argument registers when a stub is called.\<close>

definition kernel_args :: "string \<Rightarrow> 'w cpu \<Rightarrow> u64 list" where
  "kernel_args f s =
     map (gpr s) [RDI, RSI, RDX, if f = ''sys_mmap'' \<or> f = ''sys_waitid'' then RCX else R10, R8, R9]"

definition moves_fourth :: "string \<Rightarrow> bool" where
  "moves_fourth f \<longleftrightarrow> f = ''sys_mmap'' \<or> f = ''sys_waitid''"

definition loads :: "string \<Rightarrow> u64 \<Rightarrow> instr list" where
  "loads f nr = MovImm nr RAX # (if moves_fourth f then [MovReg RCX R10] else [])"

text \<open>The number of the call a routine is named after: that of \<open>X\<close> for \<open>sys_X\<close>.\<close>

definition call_number :: "(string \<Rightarrow> u64) \<Rightarrow> string \<Rightarrow> u64" where
  "call_number SYS f = SYS (drop (length ''sys_'') f)"

definition call_shape :: "(string \<Rightarrow> u64) \<Rightarrow> string \<times> instr list \<Rightarrow> bool" where
  "call_shape SYS = (\<lambda>(f, code). code = loads f (call_number SYS f) @ Syscall # (if f = ''sys_exit'' then [] else [Ret]))"

lemma kernel_args_alt:
  "kernel_args f s = (if moves_fourth f then c_args s else (c_args s)[3 := gpr s R10])"
  by (simp add: kernel_args_def moves_fourth_def c_args_def numeral_3_eq_3)

lemma kernel_args_c_args:
  assumes "(f, ret, ps) \<in> set sys_decls"
  shows "take (length ps) (kernel_args f s) = take (length ps) (c_args s)"
proof -
  have "list_all (\<lambda>(f, ret, ps). length ps \<le> 3 \<or> moves_fourth f) sys_decls"
    by (simp add: decl_defs moves_fourth_def)
  then have "length ps \<le> 3 \<or> moves_fourth f"
    using assms unfolding list_all_iff by blast
  then show ?thesis by (auto simp: kernel_args_alt)
qed

lemma routines_call_shape: "list_all (call_shape SYS) (sys_routines SYS)"
  by (simp add: sys_routines_def call_shape_def call_number_def loads_def moves_fourth_def stub_def sys_exit_code_def
      sys_mmap_code_def sys_waitid_code_def)

lemma stub_shape:
  "(f, code) \<in> set (sys_routines SYS) \<Longrightarrow> code = loads f (call_number SYS f) @ Syscall # (if f = ''sys_exit'' then [] else [Ret])"
  using routines_call_shape [of SYS] by (auto simp: list_all_iff call_shape_def)

lemma loads_block:
  "list_all is_data (loads f nr)"
  "\<exists>g. foldE effect (loads f nr) s = Inr (s\<lparr>gpr := g\<rparr>) \<and> g RAX = nr \<and> sys_args (s\<lparr>gpr := g\<rparr>) = kernel_args f s \<and>
     (\<forall>r\<in>set (RSP # callee_saved). g r = gpr s r)"
  by (auto simp: loads_def set_reg_def sys_args_def kernel_args_def callee_saved_def moves_fourth_def)

lemma stub_to_syscall:
  assumes "(f, code) \<in> set (sys_routines SYS)" and "code_at c (rip s) code q"
  obtains t nxt where "reaches os c s t" "c (rip t) = Some (Syscall, nxt)"
    "gpr t RAX = call_number SYS f" "sys_args t = kernel_args f s" "cmem t = cmem s" "wld t = wld s"
    "\<forall>r\<in>set (RSP # callee_saved). gpr t r = gpr s r" "f \<noteq> ''sys_exit'' \<Longrightarrow> c nxt = Some (Ret, q)"
proof -
  let ?rest = "if f = ''sys_exit'' then [] else [Ret]"
  obtain p where p: "code_at c (rip s) (loads f (call_number SYS f)) p" "code_at c p (Syscall # ?rest) q"
    using assms by (auto simp: code_at_append dest!: stub_shape)
  obtain g where g: "foldE effect (loads f (call_number SYS f)) s = Inr (s\<lparr>gpr := g\<rparr>)" "g RAX = call_number SYS f"
      "sys_args (s\<lparr>gpr := g\<rparr>) = kernel_args f s" "\<forall>r\<in>set (RSP # callee_saved). g r = gpr s r"
    using loads_block(2) by blast
  have "reaches os c s (s\<lparr>gpr := g, rip := p\<rparr>)"
    using run_block [OF p(1) loads_block(1) refl g(1), of os] by simp
  moreover obtain nxt where "c p = Some (Syscall, nxt)" "code_at c nxt ?rest q"
    using p(2) by (auto split: option.splits)
  moreover have "f \<noteq> ''sys_exit'' \<Longrightarrow> c nxt = Some (Ret, q)"
    using calculation(3) by (auto split: option.splits)
  ultimately show thesis
    using g that [of "s\<lparr>gpr := g, rip := p\<rparr>" nxt] by (simp add: sys_args_def)
qed

text \<open>The state behind a system call that returned.\<close>

lemma step_Syscall_returns:
  assumes "c (rip s) = Some (Syscall, nxt)" and "os (gpr s RAX) (sys_args s) (cmem s) (wld s) = Some (v, fl, m, w)"
  shows "step os c s = Go (s\<lparr>rip := nxt, gpr := (gpr s)(RAX := v, RCX := nxt, R11 := fl), cmem := m, wld := w\<rparr>)"
  using assms by (simp add: step_Syscall step_syscall_def)

lemma step_Syscall_stops:
  assumes "c (rip s) = Some (Syscall, nxt)" and "os (gpr s RAX) (sys_args s) (cmem s) (wld s) = None"
  shows "step os c s = Stop (gpr s RAX) (sys_args s) s"
  using assms by (simp add: step_Syscall step_syscall_def)

lemma stub_returns:
  assumes "(f, code) \<in> set (sys_routines SYS)" and "code_at c (rip s) code q" and "f \<noteq> ''sys_exit''"
    and "os (call_number SYS f) (kernel_args f s) (cmem s) (wld s) = Some (v, fl, m, w)"
    and "unat (gpr s RSP) + 8 \<le> msize m" and "peek m (unat (gpr s RSP)) 8 = peek (cmem s) (unat (gpr s RSP)) 8"
  shows "\<exists>t. reaches os c s t \<and> rip t = le_dec (peek (cmem s) (unat (gpr s RSP)) 8) \<and> gpr t RAX = v \<and> cmem t = m \<and> wld t = w \<and>
    gpr t RSP = gpr s RSP + 8 \<and> (\<forall>r\<in>set callee_saved. gpr t r = gpr s r)"
proof -
  obtain t nxt where t: "reaches os c s t" "c (rip t) = Some (Syscall, nxt)"
    "gpr t RAX = call_number SYS f" "sys_args t = kernel_args f s" "cmem t = cmem s" "wld t = wld s"
    "\<forall>r\<in>set (RSP # callee_saved). gpr t r = gpr s r" "c nxt = Some (Ret, q)"
    using stub_to_syscall [OF assms(1,2)] assms(3) by metis
  let ?u = "t\<lparr>rip := nxt, gpr := (gpr t)(RAX := v, RCX := nxt, R11 := fl), cmem := m, wld := w\<rparr>"
  let ?v = "(set_reg RSP (gpr s RSP + 8) ?u)\<lparr>rip := le_dec (peek m (unat (gpr s RSP)) 8)\<rparr>"
  have "step os c t = Go ?u"
    using t assms(4) by (intro step_Syscall_returns) simp_all
  moreover have "step os c ?u = Go ?v"
    using t(7,8) assms(5) step_Ret [of c ?u q os] by simp
  ultimately have "reaches os c s ?v"
    using t(1) by (meson reaches_trans reaches_step)
  moreover have "gpr ?v r = gpr s r" if "r \<in> set callee_saved" for r
    using t(7) that by (auto simp: callee_saved_def)
  ultimately show ?thesis
    unfolding assms(6) [symmetric] by (intro exI [of _ ?v]) simp
qed

lemma stub_stops:
  assumes "(f, code) \<in> set (sys_routines SYS)" and "code_at c (rip s) code q"
    and "os (call_number SYS f) (kernel_args f s) (cmem s) (wld s) = None"
  shows "\<exists>t. reaches os c s t \<and> step os c t = Stop (call_number SYS f) (kernel_args f s) t \<and> cmem t = cmem s \<and> wld t = wld s"
proof -
  obtain t nxt where t: "reaches os c s t" "c (rip t) = Some (Syscall, nxt)"
    "gpr t RAX = call_number SYS f" "sys_args t = kernel_args f s" "cmem t = cmem s" "wld t = wld s"
    using stub_to_syscall [OF assms(1,2)] by metis
  then have "step os c t = Stop (call_number SYS f) (kernel_args f s) t"
    using assms(3) step_Syscall_stops [of c t nxt os] by simp
  with t show ?thesis by blast
qed

section \<open>The entry\<close>

text \<open>Consecutive 64-bit words in memory, and the stack the kernel sets up for a new program.\<close>

fun words_at :: "mem \<Rightarrow> nat \<Rightarrow> u64 list \<Rightarrow> bool" where
  "words_at m a [] = True"
| "words_at m a (w # ws) = (le_dec (peek m a 8) = w \<and> words_at m (a + 8) ws)"

definition initial_stack :: "mem \<Rightarrow> nat \<Rightarrow> u64 list \<Rightarrow> u64 list \<Rightarrow> bool" where
  "initial_stack m sp argv envp \<longleftrightarrow> words_at m sp (of_nat (length argv) # argv @ 0 # envp @ [0])"

lemma words_at_append: "words_at m a (xs @ ys) \<longleftrightarrow> words_at m a xs \<and> words_at m (a + 8 * length xs) ys"
  by (induction xs arbitrary: a) (auto simp: algebra_simps)

lemma words_at_poke_below: "p + length bs \<le> a \<Longrightarrow> words_at (poke m p bs) a ws = words_at m a ws"
  by (induction ws arbitrary: a) simp_all

lemma start_shape:
  "start_entry main = butlast (start_entry main) @ [Call main]" "list_all is_data (butlast (start_entry main))"
  by (simp_all add: start_entry_def)

lemma start_block:
  assumes "unat (gpr s RSP) + 8 \<le> msize (cmem s)"
  shows "foldE effect (butlast (start_entry main)) s =
    (let argc = le_dec (peek (cmem s) (unat (gpr s RSP)) 8)
     in Inr (s\<lparr>gpr := (gpr s)(RDI := argc, RSI := gpr s RSP + 8, RDX := gpr s RSP + push_bit 3 (argc + 2), RAX := 0)\<rparr>))"
  using assms by (simp add: start_entry_def load64_def set_reg_def Let_def fun_upd_twist)

text \<open>Up to the entry of \<open>main\<close>: the three arguments, and the return address below the kernel's stack.\<close>

lemma start_to_main:
  assumes "code_at c (rip s) (start_code main ex) q" and "initial_stack (cmem s) (unat (gpr s RSP)) argv envp"
    and "8 \<le> unat (gpr s RSP)" and "unat (gpr s RSP) + 8 * (length argv + length envp + 3) \<le> msize (cmem s)"
    and "msize (cmem s) \<le> 2 ^ 64"
  obtains t ret where "reaches os c s t" "rip t = main" "code_at c ret (start_exit ex) q"
    "gpr t RDI = of_nat (length argv)" "unat (gpr t RSI) = unat (gpr s RSP) + 8"
    "unat (gpr t RDX) = unat (gpr s RSP) + 8 * (length argv + 2)" "gpr t RSP = gpr s RSP - 8"
    "cmem t = poke (cmem s) (unat (gpr s RSP) - 8) (le_enc 8 ret)" "wld t = wld s"
proof -
  let ?sp = "gpr s RSP" and ?n = "of_nat (length argv) :: u64"
  have argc: "le_dec (peek (cmem s) (unat ?sp) 8) = ?n"
    using assms(2) by (simp add: initial_stack_def)
  have n: "unat (?n + 2) = length argv + 2"
    using assms(4,5) by (simp add: unat_ok)
  then have "unat (push_bit 3 (?n + 2)) = 8 * (length argv + 2)"
    using assms(4,5) by (simp add: push_bit_eq_mult unat_ok mult.commute)
  then have rdx: "unat (?sp + push_bit 3 (?n + 2)) = unat ?sp + 8 * (length argv + 2)"
    using assms(4,5) by (simp add: unat_ok)
  have rsi: "unat (?sp + 8) = unat ?sp + 8"
    using assms(4,5) by (simp add: unat_ok)
  have sp: "unat (?sp - 8) = unat ?sp - 8"
    using assms(3) by (simp add: unat_ok)
  obtain p where p: "code_at c (rip s) (start_entry main) p" "code_at c p (start_exit ex) q"
    using assms(1) by (auto simp: start_code_def code_at_append)
  let ?t = "s\<lparr>gpr := (gpr s)(RDI := ?n, RSI := ?sp + 8, RDX := ?sp + push_bit 3 (?n + 2), RAX := 0)\<rparr>"
  have "foldE effect (butlast (start_entry main)) s = Inr ?t"
    using start_block [of s main] assms(4) argc by (simp add: Let_def)
  moreover have "code_at c (rip s) (butlast (start_entry main) @ [Call main]) p"
    using p(1) start_shape(1) [of main] by metis
  ultimately obtain a where a: "reaches os c s (?t\<lparr>rip := a\<rparr>)" "c a = Some (Call main, p)"
    using run_block_then [OF _ start_shape(2) refl] by blast
  let ?u = "(set_reg RSP (?sp - 8) (?t\<lparr>rip := a\<rparr>))\<lparr>cmem := poke (cmem s) (unat (?sp - 8)) (le_enc 8 p), rip := main\<rparr>"
  have "step os c (?t\<lparr>rip := a\<rparr>) = Go ?u"
    using a(2) assms(3,4) sp step_Call [of c "?t\<lparr>rip := a\<rparr>" main p os] by simp
  then have "reaches os c s ?u"
    using a(1) by (meson reaches_trans reaches_step)
  then show thesis
    using that [of ?u p] p(2) rsi rdx sp by simp
qed

text \<open>From the return of \<open>main\<close> to the exit call.\<close>

lemma start_to_exit:
  assumes "code_at c (rip u) (start_exit ex) q" and "code_at c ex (sys_exit_code SYS) q'"
    and "8 \<le> unat (gpr u RSP)" and "unat (gpr u RSP) \<le> msize (cmem u)"
    and "\<And>args m w. os (SYS ''exit'') args m w = None"
  shows "\<exists>v args. reaches os c u v \<and> step os c v = Stop (SYS ''exit'') args v \<and> hd args = gpr u RAX \<and> wld v = wld u"
proof -
  obtain a b where ab: "c (rip u) = Some (MovReg RAX RDI, a)" "c a = Some (Call ex, b)"
    using assms(1) by (auto simp: start_exit_def code_at_Cons simp del: code_at.simps(2))
  let ?u1 = "(set_reg RDI (gpr u RAX) u)\<lparr>rip := a\<rparr>"
  let ?u2 = "(set_reg RSP (gpr u RSP - 8) ?u1)\<lparr>cmem := poke (cmem u) (unat (gpr u RSP - 8)) (le_enc 8 b), rip := ex\<rparr>"
  have "step os c u = Go ?u1"
    using ab(1) by (simp add: step_def)
  moreover have "step os c ?u1 = Go ?u2"
    using ab(2) assms(3,4) step_Call [of c ?u1 ex b os] by (simp add: unat_ok)
  ultimately have u: "reaches os c u ?u2"
    by (meson reaches_trans reaches_step)
  have "(''sys_exit'', sys_exit_code SYS) \<in> set (sys_routines SYS)"
    by (simp add: sys_routines_def)
  from stub_stops [OF this, of c ?u2 q' os] assms(2,5)
  obtain v where "reaches os c ?u2 v" "step os c v = Stop (SYS ''exit'') (kernel_args ''sys_exit'' ?u2) v" "wld v = wld u"
    by (auto simp: call_number_def)
  moreover have "hd (kernel_args ''sys_exit'' ?u2) = gpr u RAX"
    by (simp add: kernel_args_def)
  ultimately show ?thesis
    using u by (meson reaches_trans)
qed

section \<open>Properties\<close>

lemma declared_routine:
  assumes "(f, ret, ps) \<in> set sys_decls"
  obtains code where "map_of (sys_routines SYS) f = Some code" "(f, code) \<in> set (sys_routines SYS)"
proof -
  have "list_all (\<lambda>(f, ret, ps). f \<in> fst ` set (sys_routines SYS)) sys_decls"
    by (simp add: decl_defs sys_routines_def)
  then have "f \<in> dom (map_of (sys_routines SYS))"
    using assms by (auto simp: list_all_iff dom_map_of_conv_image_fst)
  then show thesis using that map_of_SomeD by fast
qed

text \<open>
  C32: a system call through its stub. Every function \<open>sys_X\<close> that the header declares has a routine, and a
  call of it hands the kernel the number of the call \<open>X\<close> and the C arguments in order; the argument
  registers beyond the declared parameters hold whatever the caller left in r10, r8 and r9. When the
  kernel answers, the run arrives at the caller's return address with the answer in rax and every
  callee-saved register as before; when it does not, the run ends in that system call. Exit is the one
  routine with no return.
\<close>

theorem stub_issues_call:
  fixes os :: "'w os"
  assumes "(''sys_'' @ X, ret, ps) \<in> set sys_decls"
  shows "\<exists>code. map_of (sys_routines SYS) (''sys_'' @ X) = Some code \<and> (\<forall>c (s :: 'w cpu) q. code_at c (rip s) code q \<longrightarrow>
    (\<exists>args. take (length ps) args = take (length ps) (c_args s) \<and>
      args = map (gpr s) [RDI, RSI, RDX, if X = ''mmap'' \<or> X = ''waitid'' then RCX else R10, R8, R9] \<and>
      (case os (SYS X) args (cmem s) (wld s) of
         None \<Rightarrow> \<exists>t. reaches os c s t \<and> step os c t = Stop (SYS X) args t
       | Some (v, fl, m, w) \<Rightarrow>
           X \<noteq> ''exit'' \<and> unat (gpr s RSP) + 8 \<le> msize m \<and>
           peek m (unat (gpr s RSP)) 8 = peek (cmem s) (unat (gpr s RSP)) 8 \<longrightarrow>
           (\<exists>t. reaches os c s t \<and> rip t = le_dec (peek (cmem s) (unat (gpr s RSP)) 8) \<and> gpr t RAX = v \<and> cmem t = m \<and>
             wld t = w \<and> gpr t RSP = gpr s RSP + 8 \<and> (\<forall>r\<in>set callee_saved. gpr t r = gpr s r)))))"
proof -
  let ?f = "''sys_'' @ X"
  obtain code where code: "map_of (sys_routines SYS) ?f = Some code" "(?f, code) \<in> set (sys_routines SYS)"
    using declared_routine [OF assms] by metis
  have nr: "call_number SYS ?f = SYS X" by (simp add: call_number_def)
  show ?thesis
  proof (intro exI [of _ code] conjI allI impI)
    show "map_of (sys_routines SYS) ?f = Some code" by (rule code(1))
    fix c q and s :: "'w cpu"
    assume at: "code_at c (rip s) code q"
    let ?args = "kernel_args ?f s"
    have "take (length ps) ?args = take (length ps) (c_args s)"
      by (rule kernel_args_c_args [OF assms])
    moreover have "?args = map (gpr s) [RDI, RSI, RDX, if X = ''mmap'' \<or> X = ''waitid'' then RCX else R10, R8, R9]"
      by (simp add: kernel_args_def)
    moreover note stub_stops [OF code(2) at, of os, unfolded nr] stub_returns [OF code(2) at, of os, unfolded nr]
    ultimately show "\<exists>args. take (length ps) args = take (length ps) (c_args s) \<and>
      args = map (gpr s) [RDI, RSI, RDX, if X = ''mmap'' \<or> X = ''waitid'' then RCX else R10, R8, R9] \<and>
      (case os (SYS X) args (cmem s) (wld s) of
         None \<Rightarrow> \<exists>t. reaches os c s t \<and> step os c t = Stop (SYS X) args t
       | Some (v, fl, m, w) \<Rightarrow>
           X \<noteq> ''exit'' \<and> unat (gpr s RSP) + 8 \<le> msize m \<and>
           peek m (unat (gpr s RSP)) 8 = peek (cmem s) (unat (gpr s RSP)) 8 \<longrightarrow>
           (\<exists>t. reaches os c s t \<and> rip t = le_dec (peek (cmem s) (unat (gpr s RSP)) 8) \<and> gpr t RAX = v \<and> cmem t = m \<and>
             wld t = w \<and> gpr t RSP = gpr s RSP + 8 \<and> (\<forall>r\<in>set callee_saved. gpr t r = gpr s r)))"
      by (intro exI [of _ ?args]) (auto split: option.split)
  qed
qed

text \<open>
  C33: the program entry. Started on the stack the kernel builds, _start calls main with the argument
  count, a vector of the argument pointers ending in a null pointer and the environment vector behind
  it, on a stack with the alignment the calling convention asks for; and from wherever main returns to,
  the program ends in the exit call with main's result.
\<close>

theorem start_runs_main:
  assumes "code_at c (rip s) (start_code main ex) q" and "code_at c ex (sys_exit_code SYS) q'"
    and "initial_stack (cmem s) (unat (gpr s RSP)) argv envp" and "8 \<le> unat (gpr s RSP)" and "16 dvd unat (gpr s RSP)"
    and "unat (gpr s RSP) + 8 * (length argv + length envp + 3) \<le> msize (cmem s)" and "msize (cmem s) \<le> 2 ^ 64"
    and "\<And>args m w. os (SYS ''exit'') args m w = None"
  shows "\<exists>t. reaches os c s t \<and> rip t = main \<and> gpr t RDI = of_nat (length argv) \<and>
    words_at (cmem t) (unat (gpr t RSI)) (argv @ [0]) \<and> words_at (cmem t) (unat (gpr t RDX)) (envp @ [0]) \<and>
    (unat (gpr t RSP) + 8) mod 16 = 0 \<and>
    (\<forall>u. rip u = le_dec (peek (cmem t) (unat (gpr t RSP)) 8) \<and> gpr u RSP = gpr t RSP + 8 \<and> msize (cmem u) = msize (cmem t) \<longrightarrow>
      (\<exists>v args. reaches os c u v \<and> step os c v = Stop (SYS ''exit'') args v \<and> hd args = gpr u RAX \<and> wld v = wld u))"
proof -
  obtain t ret where t: "reaches os c s t" "rip t = main" "code_at c ret (start_exit ex) q"
    "gpr t RDI = of_nat (length argv)" "unat (gpr t RSI) = unat (gpr s RSP) + 8"
    "unat (gpr t RDX) = unat (gpr s RSP) + 8 * (length argv + 2)" "gpr t RSP = gpr s RSP - 8"
    "cmem t = poke (cmem s) (unat (gpr s RSP) - 8) (le_enc 8 ret)"
    using start_to_main [OF assms(1,3,4,6,7)] by metis
  have sp: "unat (gpr t RSP) = unat (gpr s RSP) - 8"
    using t(7) assms(4) by (simp add: unat_ok)
  have "words_at (cmem t) (unat (gpr t RSI)) (argv @ [0])" "words_at (cmem t) (unat (gpr t RDX)) (envp @ [0])"
    using assms(3,4) unfolding t(5,6,8)
    by (simp_all add: words_at_poke_below initial_stack_def words_at_append algebra_simps)
  moreover have "(unat (gpr t RSP) + 8) mod 16 = 0"
    using sp assms(4,5) by simp
  moreover have "le_dec (peek (cmem t) (unat (gpr t RSP)) 8) = ret"
    by (simp add: sp t(8))
  moreover have "\<exists>v args. reaches os c u v \<and> step os c v = Stop (SYS ''exit'') args v \<and> hd args = gpr u RAX \<and> wld v = wld u"
    if "rip u = ret" "gpr u RSP = gpr s RSP" "msize (cmem u) = msize (cmem s)" for u
    using start_to_exit [of c u ex q SYS q' os] that t(3) assms(2,4,6,8) by simp
  ultimately show ?thesis
    using t by (intro exI [of _ t]) simp
qed

text \<open>A program for the witnesses: \<open>_start\<close> at 0x100, \<open>sys_exit\<close> at 0x200, \<open>main\<close> at 0x300, \<open>sys_write\<close> at 0x400.\<close>

definition sys_nr :: "string \<Rightarrow> u64" where
  "sys_nr f = (if f = ''exit'' then 60 else 1)"

definition sys_prog :: code where
  "sys_prog = place 0x100 (start_code 0x300 0x200) ++ place 0x200 (sys_exit_code sys_nr) ++ place 0x400 (stub 1)"

definition linux :: "unit os" where
  "linux nr args m w = (if nr = 60 then None else Some (42, 0, m, w))"

definition start_state :: "unit cpu" where
  "start_state = \<lparr>rip = 0x100, gpr = (\<lambda>r. if r = RSP then 0x800 else 0),
     cmem = poke (blank 0x2000) 0x800 (concat (map (le_enc 8) [1, 0x1000, 0, 0 :: u64])), wld = ()\<rparr>"

lemma sys_prog_at:
  "code_at sys_prog 0x100 (start_code 0x300 0x200) 0x134" "code_at sys_prog 0x200 (sys_exit_code sys_nr) 0x208"
  "code_at sys_prog 0x400 (stub 1) 0x40c"
  by (simp_all add: sys_prog_def start_code_def start_entry_def start_exit_def sys_exit_code_def stub_def map_add_def)

theorem start_runs_main_witness:
  "\<exists>t. reaches linux sys_prog start_state t \<and> rip t = 0x300 \<and> gpr t RDI = 1 \<and> words_at (cmem t) (unat (gpr t RSI)) [0x1000, 0]"
proof -
  have "rip start_state = 0x100" "gpr start_state RSP = 0x800" "msize (cmem start_state) = 0x2000"
    by (simp_all add: start_state_def blank_def)
  moreover have "initial_stack (cmem start_state) 0x800 [0x1000] []"
    using peek_concat [of 32 "map (le_enc 8) [1, 0x1000, 0, 0 :: u64]" "cmem start_state" "0x800"]
    by (simp add: initial_stack_def) (simp add: start_state_def)
  ultimately show ?thesis
    using start_runs_main [of sys_prog start_state "0x300" "0x200" "0x134" sys_nr "0x208" "[0x1000]" "[]" linux] sys_prog_at
    by (auto simp: linux_def sys_nr_def)
qed

theorem stub_issues_call_witness:
  "\<exists>t. reaches linux sys_prog (start_state\<lparr>rip := 0x400\<rparr>) t \<and> rip t = 1 \<and> gpr t RAX = 42"
proof -
  let ?s = "start_state\<lparr>rip := 0x400\<rparr>"
  have w: "(''sys_'' @ ''write'', CLong, [CInt, CPtr, CUInt64]) \<in> set sys_decls" "map_of (sys_routines sys_nr) (''sys_'' @ ''write'') = Some (stub 1)"
    by (simp_all add: decl_defs sys_routines_def sys_nr_def)
  from stub_issues_call [OF w(1), of sys_nr linux] sys_prog_at(3) have "unat (gpr ?s RSP) + 8 \<le> msize (cmem ?s) \<longrightarrow>
     (\<exists>t. reaches linux sys_prog ?s t \<and> rip t = le_dec (peek (cmem ?s) (unat (gpr ?s RSP)) 8) \<and> gpr t RAX = 42)"
    unfolding w(2) by (auto simp: linux_def sys_nr_def dest!: spec [of _ sys_prog] spec [of _ ?s] spec [of _ "0x40c"])
  moreover have "unat (gpr ?s RSP) + 8 \<le> msize (cmem ?s)" "le_dec (peek (cmem ?s) (unat (gpr ?s RSP)) 8) = (1 :: u64)"
    by (simp_all add: start_state_def blank_def peek_poke_inside)
  ultimately show ?thesis by auto
qed

end
