(* ===== verification/Arm.thy ===== *)
theory Arm
  imports Sys
begin

text \<open>
  The AArch64 half of \<open>tlibc/sys.S\<close> over a machine of its own: the registers x0 to x30, the stack pointer,
  memory and the kernel, which takes the number of a call in x8 and its arguments in x0 to x5.
\<close>

section \<open>The machine\<close>

text \<open>Destination first, as in the source; \<open>MovW\<close> writes the low half of a register and clears the rest.\<close>

datatype ainstr = MovW nat u32 | LdrSp nat | MovSp nat | AddI nat nat u64 | Bl u64 | RetA | Svc

record 'w arm =
  apc :: u64
  xr :: "nat \<Rightarrow> u64"
  asp :: u64
  amem :: mem
  awld :: 'w

text \<open>The kernel's answer is the result, the new memory and the new world; the registers but x0 are kept.\<close>

type_synonym 'w akernel = "u64 \<Rightarrow> u64 list \<Rightarrow> mem \<Rightarrow> 'w \<Rightarrow> (u64 \<times> mem \<times> 'w) option"

definition set_x :: "nat \<Rightarrow> u64 \<Rightarrow> 'w arm \<Rightarrow> 'w arm" where
  "set_x r v s = s\<lparr>xr := (xr s)(r := v)\<rparr>"

fun aeffect :: "ainstr \<Rightarrow> 'w arm \<Rightarrow> 'w arm res" where
  "aeffect (MovW r v) s = Inr (set_x r (ucast v) s)"
| "aeffect (LdrSp r) s = bindE (load64 (asp s) (amem s)) (\<lambda>v. Inr (set_x r v s))"
| "aeffect (MovSp r) s = Inr (set_x r (asp s) s)"
| "aeffect (AddI r q v) s = Inr (set_x r (xr s q + v) s)"
| "aeffect _ s = Inl WildAccess"

fun adata :: "ainstr \<Rightarrow> bool" where
  "adata (Bl _) = False"
| "adata RetA = False"
| "adata Svc = False"
| "adata _ = True"

definition aargs :: "'w arm \<Rightarrow> u64 list" where
  "aargs s = map (xr s) [0, 1, 2, 3, 4, 5]"

text \<open>No next state: a call the kernel does not answer, or a fault.\<close>

definition asvc :: "'w akernel \<Rightarrow> u64 \<Rightarrow> 'w arm \<Rightarrow> 'w arm option" where
  "asvc k nxt s =
     (case k (xr s 8) (aargs s) (amem s) (awld s) of
        None \<Rightarrow> None
      | Some (v, m, w) \<Rightarrow> Some ((set_x 0 v s)\<lparr>apc := nxt, amem := m, awld := w\<rparr>))"

definition asucc :: "'w akernel \<Rightarrow> ainstr program \<Rightarrow> 'w arm \<Rightarrow> 'w arm option" where
  "asucc k c s =
     (case c (apc s) of
        None \<Rightarrow> None
      | Some (i, nxt) \<Rightarrow>
          (case i of
             Bl target \<Rightarrow> Some ((set_x 30 nxt s)\<lparr>apc := target\<rparr>)
           | RetA \<Rightarrow> Some (s\<lparr>apc := xr s 30\<rparr>)
           | Svc \<Rightarrow> asvc k nxt s
           | _ \<Rightarrow> (case aeffect i s of Inl _ \<Rightarrow> None | Inr t \<Rightarrow> Some (t\<lparr>apc := nxt\<rparr>))))"

abbreviation areaches :: "'w akernel \<Rightarrow> ainstr program \<Rightarrow> 'w arm \<Rightarrow> 'w arm \<Rightarrow> bool" where
  "areaches k c \<equiv> runs (asucc k c)"

section \<open>The routines\<close>

definition astub :: "u32 \<Rightarrow> ainstr list" where
  "astub nr = [MovW 8 nr, Svc, RetA]"

definition sys_exit_arm :: "(string \<Rightarrow> u32) \<Rightarrow> ainstr list" where
  "sys_exit_arm SYS = [MovW 8 (SYS ''exit''), Svc]"

text \<open>
  Name and code, in the order of the file. \<open>sys_openat\<close> does not name the constant but the label of
  the routine itself: what the assembler makes of that operand is a parameter.
\<close>

definition sys_routines_arm :: "u32 \<Rightarrow> (string \<Rightarrow> u32) \<Rightarrow> (string \<times> ainstr list) list" where
  "sys_routines_arm label SYS =
     [(''sys_exit'', sys_exit_arm SYS),
      (''sys_openat'', astub label),
      (''sys_write'', astub (SYS ''write'')),
      (''sys_read'', astub (SYS ''read'')),
      (''sys_mmap'', astub (SYS ''mmap'')),
      (''sys_vfork'', astub (SYS ''vfork'')),
      (''sys_munmap'', astub (SYS ''munmap'')),
      (''sys_close'', astub (SYS ''close'')),
      (''sys_lseek'', astub (SYS ''lseek'')),
      (''sys_brk'', astub (SYS ''brk'')),
      (''sys_execve'', astub (SYS ''execve'')),
      (''sys_dup'', astub (SYS ''dup'')),
      (''sys_fstat'', astub (SYS ''fstat'')),
      (''sys_waitid'', astub (SYS ''waitid'')),
      (''sys_chdir'', astub (SYS ''chdir'')),
      (''sys_getcwd'', astub (SYS ''getcwd'')),
      (''sys_kill'', astub (SYS ''kill'')),
      (''sys_getpid'', astub (SYS ''getpid'')),
      (''sys_nanosleep'', astub (SYS ''nanosleep''))]"

text \<open>The number of the call a routine \<open>sys_X\<close> is named after, but for \<open>sys_openat\<close>.\<close>

definition arm_number :: "u32 \<Rightarrow> (string \<Rightarrow> u32) \<Rightarrow> string \<Rightarrow> u32" where
  "arm_number label SYS f = (if f = ''sys_openat'' then label else SYS (drop (length ''sys_'') f))"

definition start_arm :: "u64 \<Rightarrow> u64 \<Rightarrow> ainstr list" where
  "start_arm main sys_exit = [LdrSp 0, MovSp 1, AddI 1 1 0x8, Bl main, Bl sys_exit, RetA]"

section \<open>The variants in the header\<close>

definition AT_FDCWD :: int where
  "AT_FDCWD = - 100"

definition sys_fork_aarch64 :: "('w \<Rightarrow> int \<times> 'w) \<Rightarrow> 'w \<Rightarrow> int \<times> 'w" where
  "sys_fork_aarch64 sys_vfork w = sys_vfork w"

definition sys_open_aarch64 :: "(int \<Rightarrow> u8 list \<Rightarrow> u64 \<Rightarrow> 'w \<Rightarrow> int \<times> 'w) \<Rightarrow> u8 list \<Rightarrow> u64 \<Rightarrow> 'w \<Rightarrow> int \<times> 'w" where
  "sys_open_aarch64 sys_openat path mode w =
     (if path \<noteq> [] \<and> hd path = of_char CHR ''/'' then sys_openat 0 path mode w else sys_openat AT_FDCWD path mode w)"

section \<open>Runs\<close>

lemma set_x_simps [simp, cpu_simps]:
  "xr (set_x r v s) = (xr s)(r := v)" "amem (set_x r v s) = amem s" "awld (set_x r v s) = awld s"
  "apc (set_x r v s) = apc s" "asp (set_x r v s) = asp s"
  by (simp_all add: set_x_def)

lemma aeffect_pc: "aeffect i (s\<lparr>apc := a\<rparr>) = bindE (aeffect i s) (\<lambda>t. Inr (t\<lparr>apc := a\<rparr>))"
  by (cases i) (auto simp: set_x_def bindE_def split: sum.split)

lemma asucc_data: "adata i \<Longrightarrow> c (apc s) = Some (i, a) \<Longrightarrow> aeffect i s = Inr t \<Longrightarrow> asucc k c s = Some (t\<lparr>apc := a\<rparr>)"
  by (cases i) (auto simp: asucc_def)

interpretation aarch: machine apc "\<lambda>a s. s\<lparr>apc := a\<rparr>" aeffect adata "asucc k" for k
  by unfold_locales (simp_all add: aeffect_pc asucc_data)

lemma arm_stub_shape:
  assumes "(f, code) \<in> set (sys_routines_arm label SYS)"
  shows "code = [MovW 8 (arm_number label SYS f), Svc] @ (if f = ''sys_exit'' then [] else [RetA])"
proof -
  have "list_all (\<lambda>(f, code). code = [MovW 8 (arm_number label SYS f), Svc] @ (if f = ''sys_exit'' then [] else [RetA])) (sys_routines_arm label SYS)"
    by (simp add: sys_routines_arm_def astub_def sys_exit_arm_def arm_number_def)
  then show ?thesis using assms unfolding list_all_iff by blast
qed

lemma arm_stub_to_svc:
  assumes "(f, code) \<in> set (sys_routines_arm label SYS)" and "code_at c (apc s) code q"
  obtains a b where "areaches k c s ((set_x 8 (ucast (arm_number label SYS f)) s)\<lparr>apc := a\<rparr>)" "c a = Some (Svc, b)"
    "f \<noteq> ''sys_exit'' \<Longrightarrow> c b = Some (RetA, q)"
proof -
  obtain a b where ab: "c (apc s) = Some (MovW 8 (arm_number label SYS f), a)" "c a = Some (Svc, b)" "f \<noteq> ''sys_exit'' \<Longrightarrow> c b = Some (RetA, q)"
    using assms(2) arm_stub_shape [OF assms(1)]
    by (cases "f = ''sys_exit''") (auto simp: code_at_Cons simp del: code_at.simps(2))
  then have "areaches k c s ((set_x 8 (ucast (arm_number label SYS f)) s)\<lparr>apc := a\<rparr>)"
    by (intro runs_step) (simp add: asucc_def)
  with ab that show thesis by blast
qed

section \<open>What the routines do\<close>

text \<open>
  Every routine hands the kernel the number of the call it is named after (\<open>sys_openat\<close> what its label stands for) and the six argument registers as the caller set them, so no
  declared argument is lost; when the kernel answers, the run is back at the link register with the answer
  in x0 and every other register but x8 as before; when it does not, there the run ends.
\<close>

theorem arm_stub_issues_call:
  assumes "(f, code) \<in> set (sys_routines_arm label SYS)" and "code_at c (apc s) code q"
  shows "case k (ucast (arm_number label SYS f)) (aargs s) (amem s) (awld s) of
      None \<Rightarrow> \<exists>t. areaches k c s t \<and> asucc k c t = None \<and> xr t 8 = ucast (arm_number label SYS f) \<and> aargs t = aargs s
    | Some (v, m, w) \<Rightarrow> f \<noteq> ''sys_exit'' \<longrightarrow>
        areaches k c s (s\<lparr>apc := xr s 30, xr := (xr s)(8 := ucast (arm_number label SYS f), 0 := v), amem := m, awld := w\<rparr>)"
proof -
  obtain a b where ab: "areaches k c s ((set_x 8 (ucast (arm_number label SYS f)) s)\<lparr>apc := a\<rparr>)" "c a = Some (Svc, b)"
    "f \<noteq> ''sys_exit'' \<Longrightarrow> c b = Some (RetA, q)"
    using arm_stub_to_svc [OF assms] by blast
  let ?t = "(set_x 8 (ucast (arm_number label SYS f)) s)\<lparr>apc := a\<rparr>"
  have t: "aargs ?t = aargs s" "asucc k c ?t = asvc k b ?t"
    using ab(2) by (simp_all add: aargs_def asucc_def)
  show ?thesis
  proof (cases "k (ucast (arm_number label SYS f)) (aargs s) (amem s) (awld s)")
    case None
    then have "asucc k c ?t = None" using t by (simp add: asvc_def)
    with ab(1) t(1) None show ?thesis by (auto intro!: exI [of _ ?t])
  next
    case (Some r)
    obtain v m w where r: "r = (v, m, w)" by (cases r)
    let ?u = "(set_x 0 v ?t)\<lparr>apc := b, amem := m, awld := w\<rparr>"
    have "asucc k c ?t = Some ?u" using Some t by (simp add: asvc_def r)
    moreover have "asucc k c ?u = Some (s\<lparr>apc := xr s 30, xr := (xr s)(8 := ucast (arm_number label SYS f), 0 := v), amem := m, awld := w\<rparr>)"
      if "f \<noteq> ''sys_exit''"
      using ab(3) [OF that] by (simp add: asucc_def set_x_def)
    ultimately have "areaches k c s (s\<lparr>apc := xr s 30, xr := (xr s)(8 := ucast (arm_number label SYS f), 0 := v), amem := m, awld := w\<rparr>)"
      if "f \<noteq> ''sys_exit''"
      using ab(1) that by (meson runs_trans runs_step)
    then show ?thesis by (simp add: Some r)
  qed
qed

text \<open>
  \<open>_start\<close> calls \<open>main\<close> with the argument count and vector; x2, the register of the third parameter, is not set, so
  a program that takes the environment gets what was there. After \<open>main\<close> the process ends with its result.
\<close>

theorem arm_start_runs_main:
  assumes "code_at c (apc s) (start_arm main ex) q" and "code_at c ex (sys_exit_arm SYS) q'"
    and "initial_stack (amem s) (unat (asp s)) argv envp"
    and "unat (asp s) + 8 * (length argv + length envp + 3) \<le> msize (amem s)" and "msize (amem s) \<le> 2 ^ 64"
    and "\<And>args m w. k (ucast (SYS ''exit'')) args m w = None"
  shows "\<exists>t. areaches k c s t \<and> apc t = main \<and> xr t 0 = of_nat (length argv) \<and>
    words_at (amem t) (unat (xr t 1)) (argv @ [0]) \<and> xr t 2 = xr s 2 \<and> asp t = asp s \<and>
    (\<forall>u. apc u = xr t 30 \<longrightarrow>
      (\<exists>v. areaches k c u v \<and> asucc k c v = None \<and> xr v 8 = ucast (SYS ''exit'') \<and> xr v 0 = xr u 0 \<and> awld v = awld u))"
proof -
  obtain a b d where code: "code_at c (apc s) [LdrSp 0, MovSp 1, AddI 1 1 8] a" "c a = Some (Bl main, b)" "c b = Some (Bl ex, d)"
    using assms(1) unfolding start_arm_def
    by (auto simp: code_at_Cons simp del: code_at.simps(2))
  let ?t = "s\<lparr>xr := (xr s)(0 := of_nat (length argv), 1 := asp s + 8)\<rparr>"
  have "foldE aeffect [LdrSp 0, MovSp 1, AddI 1 1 8] s = Inr ?t"
    using assms(3,4) by (simp add: load64_def initial_stack_def set_x_def fun_upd_twist)
  then have "areaches k c s (?t\<lparr>apc := a\<rparr>)"
    using aarch.run_block [OF code(1) _ refl, of "?t" k] by simp
  moreover have "asucc k c (?t\<lparr>apc := a\<rparr>) = Some ((set_x 30 b (?t\<lparr>apc := a\<rparr>))\<lparr>apc := main\<rparr>)"
    using code(2) by (simp add: asucc_def)
  ultimately have r: "areaches k c s ((set_x 30 b (?t\<lparr>apc := a\<rparr>))\<lparr>apc := main\<rparr>)"
    by (blast intro: runs_trans runs_step)
  have "\<exists>v. areaches k c u v \<and> asucc k c v = None \<and> xr v 8 = ucast (SYS ''exit'') \<and> xr v 0 = xr u 0 \<and> awld v = awld u"
    if "apc u = b" for u
  proof -
    let ?u = "(set_x 30 d u)\<lparr>apc := ex\<rparr>"
    have u: "areaches k c u ?u" using that code(3) by (intro runs_step) (simp add: asucc_def)
    have "(''sys_exit'', sys_exit_arm SYS) \<in> set (sys_routines_arm 0 SYS)"
      by (simp add: sys_routines_arm_def)
    from arm_stub_to_svc [OF this, of c ?u q' k] assms(2) obtain e f where
      "areaches k c ?u ((set_x 8 (ucast (SYS ''exit'')) ?u)\<lparr>apc := e\<rparr>)" "c e = Some (Svc, f)" by (auto simp: arm_number_def)
    moreover from this(2) have "asucc k c ((set_x 8 (ucast (SYS ''exit'')) ?u)\<lparr>apc := e\<rparr>) = None"
      using assms(6) by (simp add: asucc_def asvc_def)
    ultimately show ?thesis using u
      by (intro exI [of _ "(set_x 8 (ucast (SYS ''exit'')) ?u)\<lparr>apc := e\<rparr>"]) (auto intro: runs_trans)
  qed
  moreover have "words_at (amem s) (unat (asp s + 8)) (argv @ [0])"
    using assms(3-5) by (simp add: initial_stack_def words_at_append unat_ok)
  ultimately show ?thesis
    using r by (intro exI [of _ "(set_x 30 b (?t\<lparr>apc := a\<rparr>))\<lparr>apc := main\<rparr>"]) simp
qed

text \<open>
  The declarations without a routine on this machine (\<open>sys_fork\<close> and \<open>sys_open\<close> are the inline functions
  above): a program that uses one of them does not link.
\<close>

lemma arm_missing:
  "filter (\<lambda>f. f \<notin> set (map fst (sys_routines_arm label SYS)) \<union> {''sys_fork'', ''sys_open''}) (map fst sys_decls) =
     [''sys_pause'', ''sys_dup2'', ''sys_pipe'', ''sys_link'', ''sys_mkdir'', ''sys_getdents'']"
  by (simp add: decl_defs sys_routines_arm_def)

text \<open>\<open>sys_open\<close> of the header: an absolute path is opened from descriptor 0, which the kernel ignores, a relative one from the working directory.\<close>

lemma sys_open_aarch64_dir:
  assumes "\<And>d d' p md w. p \<noteq> [] \<and> hd p = of_char CHR ''/'' \<Longrightarrow> openat d p md w = openat d' p md w"
  shows "sys_open_aarch64 openat path mode w = openat AT_FDCWD path mode w"
  using assms by (auto simp: sys_open_aarch64_def)

end
