(* ===== verification/Layouts.thy ===== *)
theory Layouts
  imports Gpt Fat_Super Start Vmlinux Jump Utils
begin

text \<open>
  The packed structures of the sources together: their sizes, that their fields do not overlap, and
  the segment descriptors of the assembly files seen through \<open>struct SegmentDescriptor\<close>.
\<close>

section \<open>Sizes\<close>

lemmas disk_layout_defs = GUID_layout_def PartitionRecord_layout_def MBR_layout_def GPTHeader_layout_def PartitionEntry_layout_def
  BPB_layout_def BPB_common_layout_def BPB_fat32_layout_def FSInfo_layout_def FATDirEntry_layout_def

lemmas boot_layout_defs = KernelHeader_layout_def header_legacy_def header_extended_def setup_data_layout_def
  Elf32_Ehdr_layout_def Elf64_Ehdr_layout_def Elf32_Phdr_layout_def Elf64_Phdr_layout_def
  DescriptorTable32_layout_def DescriptorTable64_layout_def SegmentDescriptor_bits_def SegmentSelector_bits_def

lemma disk_layouts:
  "list_all (\<lambda>(L, n). well_laid L n)
     [(GUID_layout, 16), (PartitionRecord_layout, 16), (MBR_layout, 512), (GPTHeader_layout, 92), (PartitionEntry_layout, 128),
      (BPB_layout, 512), (FSInfo_layout, 512), (FATDirEntry_layout, 32)]"
  by (simp add: well_laid_distinct struct_size_def disk_layout_defs)

lemma boot_layouts:
  "list_all (\<lambda>(L, n). well_laid L n)
     [(KernelHeader_layout, 1024), (setup_data_layout, 16),
      (Elf32_Ehdr_layout, 52), (Elf64_Ehdr_layout, 64), (Elf32_Phdr_layout, 32), (Elf64_Phdr_layout, 56),
      (DescriptorTable32_layout, 6), (DescriptorTable64_layout, 10), (SegmentDescriptor_bits, 64), (SegmentSelector_bits, 16)]"
  by (simp add: well_laid_distinct struct_size_def boot_layout_defs)

lemma process_layouts: "list_all (\<lambda>(L, n). well_laid L n) [(stat_layout, 120), (jumpbuf, 136)]"
  by (simp add: well_laid_distinct struct_size_def stat_layout_def jumpbuf_def)

lemma elf_layouts:
  "list_all (\<lambda>(ds, n). c_struct 4 ds = members ds \<and> c_struct 8 ds = members ds \<and> well_laid (members ds) n) elf_structs"
  using elf_struct_members by (auto simp: list_all_iff)

lemma jumpbuf_offsets: "map fst (spans jumpbuf) = map (\<lambda>i. 8 * i) [0..<17]"
  by (simp add: spans_def jumpbuf_def upt_rec)

section \<open>Descriptors\<close>

text \<open>The fields of a descriptor as \<open>struct SegmentDescriptor\<close> names them, in the order of the struct.\<close>

definition descriptor_fields :: "u8 list \<Rightarrow> u64 list" where
  "descriptor_fields bs = map (\<lambda>f. bit_field SegmentDescriptor_bits f (le_dec bs)) (map fst SegmentDescriptor_bits)"

lemma mbr_descriptor_fields:
  "map descriptor_fields [sub_bytes 8 8 mbr_gdt, sub_bytes 16 8 mbr_gdt] =
     [[0xffff, 0, 0, 0xa, 1, 0, 1, 0xf, 0, 0, 1, 1, 0], [0xffff, 0, 0, 2, 1, 0, 1, 0xf, 0, 0, 1, 1, 0]]"
  by (simp add: descriptor_fields_def bit_field_def SegmentDescriptor_bits_def sub_bytes_def mbr_gdt_def SEG_ASM_values)

lemma setup_descriptor_fields:
  "map descriptor_fields [sub_bytes 8 8 setup_descriptors, sub_bytes 16 8 setup_descriptors] =
     [[0xffff, 0, 0, 0xa, 1, 0, 1, 0, 0, 0, 0, 0, 0], [0xffff, 0, 0, 2, 1, 0, 1, 0, 0, 0, 0, 0, 0]]"
  by (simp add: descriptor_fields_def bit_field_def SegmentDescriptor_bits_def sub_bytes_def setup_descriptors_value)

text \<open>
  The tables side by side: the static assertions of the boot loader hold; the fields of each structure follow
  each other without overlap and fill exactly the size that the GPT, FAT, ELF and boot protocol formats give
  it (\<open>struct stat\<close> only 120 bytes); the structures of \<open>elf.h\<close> listed in \<open>elf_structs\<close> (all but the two move
  records) need no padding on a 32-bit or a 64-bit machine; the fields of the jump buffer are at the offsets
  its comments give; and the descriptors that the assembly files write out in bytes are, read as
  \<open>struct SegmentDescriptor\<close>, present code and data segments, of 32 bits and 4 GiB in \<open>mbr.S\<close>, of 16 bits and
  64 KiB in \<open>bzsetup.S\<close>.
\<close>

theorem struct_layouts:
  "bzimage_check \<and>
   list_all (\<lambda>(L, n). well_laid L n)
     [(GUID_layout, 16), (PartitionRecord_layout, 16), (MBR_layout, 512), (GPTHeader_layout, 92), (PartitionEntry_layout, 128),
      (BPB_layout, 512), (FSInfo_layout, 512), (FATDirEntry_layout, 32), (KernelHeader_layout, 1024), (setup_data_layout, 16),
      (Elf32_Ehdr_layout, 52), (Elf64_Ehdr_layout, 64), (Elf32_Phdr_layout, 32), (Elf64_Phdr_layout, 56),
      (DescriptorTable32_layout, 6), (DescriptorTable64_layout, 10), (SegmentDescriptor_bits, 64), (SegmentSelector_bits, 16),
      (stat_layout, 120), (jumpbuf, 136)] \<and>
   list_all (\<lambda>(ds, n). c_struct 4 ds = members ds \<and> c_struct 8 ds = members ds \<and> well_laid (members ds) n) elf_structs \<and>
   map members [Elf32_Ehdr_decl, Elf64_Ehdr_decl, Elf32_Phdr_decl, Elf64_Phdr_decl] =
     [Elf32_Ehdr_layout, Elf64_Ehdr_layout, Elf32_Phdr_layout, Elf64_Phdr_layout] \<and>
   map fst (spans jumpbuf) = map (\<lambda>i. 8 * i) [0..<17] \<and>
   map descriptor_fields [sub_bytes 8 8 mbr_gdt, sub_bytes 16 8 mbr_gdt] =
     [[0xffff, 0, 0, 0xa, 1, 0, 1, 0xf, 0, 0, 1, 1, 0], [0xffff, 0, 0, 2, 1, 0, 1, 0xf, 0, 0, 1, 1, 0]] \<and>
   map descriptor_fields [sub_bytes 8 8 setup_descriptors, sub_bytes 16 8 setup_descriptors] =
     [[0xffff, 0, 0, 0xa, 1, 0, 1, 0, 0, 0, 0, 0, 0], [0xffff, 0, 0, 2, 1, 0, 1, 0, 0, 0, 0, 0, 0]]"
  using disk_layouts boot_layouts process_layouts jumpbuf_offsets mbr_descriptor_fields setup_descriptor_fields bzimage_check_holds
    elf_layouts header_members
  by (simp only: list.pred_inject list.map simp_thms)

end
