(* ===== verification/Spec2Isabelle.thy ===== *)
theory Spec2Isabelle
  imports Installers Eval Utils Devices Gettext Biosmbr Jump Arm Layouts
begin

text \<open>
  A verification library for the tlibc repository: the tools that build a bootable disk, the boot code
  on it, and a freestanding C library with a shell and small programs.

  \<^bold>\<open>The parts of the program.\<close> \<open>gpt/\<close> builds disks: \<open>gpt.c\<close> writes a GUID partition table, \<open>fat.c\<close>
  formats a FAT32 volume and copies files into it, \<open>mkgpt.c\<close> and \<open>installer.c\<close> put both together on an
  image or a device. \<open>bootloader/\<close> holds what runs on such a disk: \<open>mbr.c\<close> loads a second stage from
  sector 531 and passes it sector 539; the second stage is \<open>bzimage.c\<close> (a Linux kernel image) or
  \<open>vmlinux.c\<close> (an ELF file); \<open>gettext.c\<close> and \<open>getpayload.c\<close> are host tools that cut code out of ELF files
  and payloads out of kernel images. \<open>tlibc/\<close> is the library (\<open>string.c\<close>, \<open>stdio.c\<close>, \<open>atoi.c\<close>,
  \<open>system.c\<close>), its assembly (\<open>sys.S\<close>: system calls and program entry, \<open>jump.S\<close>: non-local jumps) and the
  programs \<open>sh\<close>, \<open>eval\<close>, \<open>wc\<close>, \<open>mkdir\<close>, \<open>ls\<close> and others. \<open>bios/\<close> is a second build of the boot code that
  reads the disk through the BIOS instead of its ports. \<open>device/\<close> has two kernel modules.

  \<^bold>\<open>How code becomes definitions.\<close> Integers are words of their C width and wrap; \<open>'a res\<close> is a value or
  the fault that ends the C computation (failed assertion, access outside an object, null pointer,
  trapping division, a loop that does not end). A buffer is a \<open>mem\<close>, a size and its bytes, and \<open>rd\<close> and
  \<open>wr\<close> fault outside it. A packed struct is its list of fields and sizes, from which \<open>offsetof\<close> and
  \<open>sizeof\<close> are computed. Static buffers that outlive a call are passed along. What the operating system,
  the BIOS, the drive or the kernel answers is a parameter (a record of answers, a record of operations,
  or a function), and what a theorem relies on is a hypothesis about it: \<open>delivers\<close>, \<open>reads_sectors\<close>,
  \<open>accessible\<close>, \<open>bios_reads\<close>, \<open>bios_extended\<close>, the locale \<open>regular_files\<close>. Each such hypothesis is met by a concrete instance in the witness.

  Assembly is a list of instructions, those of the source without its \<open>nop\<close>s, over three small machines: \<open>X86\<close> and \<open>Arm\<close> for the
  64-bit code of processes (registers, memory, a kernel that answers system calls; programs run from code in
  memory, with \<open>reaches\<close> the closure of its steps; the locale \<open>machine\<close> of \<open>Machine\<close>, interpreted for both, gives
  the rules for straight-line code) and \<open>Boot_Cpu\<close> for the 16- and 32-bit code of the
  boot stage (segment registers with the base and limit they cache, descriptor loads, the protection bit,
  interrupt 0x13). Arithmetic flags exist only where the code tests them; label addresses are parameters, and
  so is the place where the linker puts code and tables.

  \<^bold>\<open>Theories.\<close>
  \<^item> \<open>Prelude\<close>: word types, faults, checked memory, little-endian encoding, fold with faults.
  \<^item> \<open>Endian\<close> (\<open>gpt/endian.h\<close>): loads, stores and swaps for both byte orders; locale \<open>scalar_codec\<close>, interpreted
    for 16, 32 and 64 bits. The stored bytes do not depend on the host.
  \<^item> \<open>Crc32\<close> (\<open>efi_crc32\<close>): equal to the bit-serial CRC; detects every one-byte change.
  \<^item> \<open>Gpt\<close> (\<open>gpt.c\<close>): both headers valid with their checksums, partitions in order and apart, the overrun of
    the entry array.
  \<^item> \<open>Fat_Format\<close>, \<open>Fat_Super\<close>, \<open>Fat_Store\<close>, \<open>Fat\<close> (\<open>fat.c\<close>): formatting, mounting, allocation, directory
    entries, copying in. The invariant \<open>fs_inv\<close> of a volume is established by formatting and kept by copying;
    locale \<open>file_store\<close>, interpreted on copying in: it refines appending the files that fit to a list of files;
    errors leave the volume as it was, and a size of 4 GiB or more is cut to 32 bits.
  \<^item> \<open>Installers\<close> (\<open>mkgpt.c\<close>, \<open>installer.c\<close>, \<open>blockdev.c\<close>, \<open>init.c\<close>): the composition on one image.
  \<^item> \<open>Stdio\<close> (\<open>string.c\<close>, \<open>atoi.c\<close>, printing in \<open>stdio.c\<close>): what a format means
    (\<open>format_text\<close>) is given apart from the code, and what the program writes (\<open>format_out\<close>) is shown to be that
    but for three conversions of 0; the printers write the numerals of the specification \<open>radix\<close>; locales \<open>radix_base\<close> and \<open>radix_loop\<close>, interpreted for decimal and hexadecimal at 32 and 64 bits.
  \<^item> \<open>Reader\<close> (\<open>fdgets\<close>): invariant of the buffered reader, the next line as refinement of a stream of lines;
    locale \<open>line_source\<close>, interpreted on the reader, carries the sessions of \<open>eval\<close> and \<open>sh\<close>.
  \<^item> \<open>Eval\<close> (\<open>eval.c\<close>), \<open>Shell\<close> (\<open>system.c\<close>, \<open>sh.c\<close>): evaluation, parsing, pipelines, whole
    sessions. A command line is read by the specification \<open>words\<close>, and the scanner agrees with it on every line.
  \<^item> \<open>Wc\<close> (\<open>wc.c\<close>), \<open>Utils\<close> (the small programs): counting against a specification of words that does
    not use the program's character table, levels of a
    path, directory listings, and what the printing programs write.
  \<^item> \<open>Devices\<close> (\<open>device/null\<close>, \<open>device/zero\<close>): reading zeros.
  \<^item> \<open>Disk\<close> (\<open>serial.h\<close>): port I/O and \<open>read_disk\<close>; locale \<open>sector_source\<close>, a routine that delivers sectors, interpreted
    on programmed I/O with a drive that holds an image, and the weaker \<open>scratch_source\<close>, a routine that also
    uses memory of its own; the first is a sublocale of the second. They carry the two kernel loaders.
  \<^item> \<open>Elf\<close> (\<open>elf.h\<close>): the structures of the header with the layout a C compiler gives them, that only the move
    records need padding, and that the macros for packed fields invert each other.
  \<^item> \<open>Vmlinux\<close> (\<open>vmlinux.c\<close>, \<open>mbr.c\<close>), \<open>Bzimage\<close> (\<open>bz_image.h\<close>, \<open>bzimage.c\<close>,
    \<open>getpayload.c\<close>), \<open>Gettext\<close> (\<open>gettext.c\<close>): what is in memory, or in the output file, at
    the end. The specifications count setup sectors by \<open>real_mode_sectors\<close> and call a segment loadable when its
    type is \<open>PT_LOAD\<close>; the program's 8-bit count and its bit test are \<open>setup_sectors\<close> and \<open>taken\<close>.
  \<^item> \<open>Machine\<close>, \<open>X86\<close>, \<open>Jump\<close> (\<open>jump.h\<close>, \<open>jump.S\<close>), \<open>Sys\<close> and \<open>Arm\<close> (\<open>sys.h\<close>, \<open>sys.S\<close>): what \<open>setjmp\<close> saves and
    what \<open>longjmp\<close> gives back; that each stub \<open>sys_X\<close> passes the number of the call \<open>X\<close> and the declared arguments
    to the kernel and returns its answer; how \<open>_start\<close> calls \<open>main\<close> and ends the process.
  \<^item> \<open>Boot_Cpu\<close>, \<open>Start\<close> (\<open>mbr.S\<close>, \<open>bzsetup.S\<close>, the 16-bit code of \<open>bzimage.c\<close>): from the BIOS to flat 32-bit code
    and from the loader back to real-address mode at the entry of the kernel's setup code.
  \<^item> \<open>Bios\<close> (\<open>bios.S\<close>, \<open>biosboot.S\<close>, \<open>testbios.S\<close>), \<open>Biosmbr\<close> (\<open>biosmbr.S\<close>): the BIOS build; its \<open>read_disk\<close> has the
    effect of the port version except for a bounce sector, the packet and the stack, and so is a
    \<open>scratch_source\<close>.
  \<^item> \<open>Layouts\<close>: the packed structures together, their sizes and that their fields do not overlap.
  \<^item> This theory: the boot chain, from the image that mkgpt writes over the boot sector, the start code and the
    kernel loader to the first instruction of the kernel's setup code, in the build that drives the disk through its
    ports (\<open>mkgpt_disk_boots\<close>) and in the BIOS build (\<open>bios_disk_boots\<close>).

  \<^bold>\<open>Bounds and fuel.\<close> Most loops are recursive functions with a termination proof. Fuel bounds the polls of
  \<open>wait_disk\<close> (one poll is enough for the drive of the witness; the hypothesis \<open>reads_sectors\<close> names
  it), the rounds of a reading session (\<open>line_loop\<close>; the session theorems give a number that is enough) and
  the reads of \<open>cat\<close> (the number of bytes pending, shown to be enough).

  \<^bold>\<open>Not modelled.\<close> Of \<open>x86.h\<close>, which forbids its own inclusion, only the names of the registers are used; the
  constants of \<open>mman.h\<close> that \<open>cat\<close> does not pass to \<open>mmap\<close> and the tables of the vendored \<open>elf.h\<close> (section types, relocations, flags of other
  machines) that no program uses have no behaviour of their own. The C stack of the loaders is not part of
  their model: where it matters, \<open>mkgpt_disk_boots\<close> and \<open>bios_disk_boots\<close> take as hypothesis that the stack
  pointer is above the loaded setup code, and the second that the stack is apart from the packet and its tables.
  Build files, \<open>configure.py\<close>, linker scripts and \<open>grub.cfg\<close> are not C code.
\<close>

section \<open>The boot chain\<close>

lemma image_sectors_bound: "unat (image_sectors h) < 2 ^ 23"
proof -
  have "unat w div 512 < 2 ^ 23" for w :: u32
    using unsigned_less [of w, where 'a = nat] by simp
  then show ?thesis by (simp add: image_sectors_def unat_div)
qed

text \<open>What the loaders see of an image in which a file lies from a sector on.\<close>

lemma file_range_of_image:
  assumes "peek m (512 * unat start) (length bs) = bs" and "p + n \<le> length bs" and "unat start + (p + n) div 512 < 2 ^ 28"
  shows "file_range (image_sector m) start p n = sub_bytes p n bs"
proof -
  have "file_range (image_sector m) start p n = peek m (512 * unat start + p) n"
    using assms(3) by (rule file_range_image)
  also have "\<dots> = sub_bytes p n (peek m (512 * unat start) (length bs))"
    using assms(2) by (simp add: sub_bytes_peek)
  finally show ?thesis by (simp only: assms(1))
qed

text \<open>
  The parts of a kernel file that lies from sector 539 on: the two sectors of its header, its real-mode
  part and its protected-mode part.
\<close>

lemma kernel_on_image:
  assumes "peek m (512 * 539) (length kimage) = kimage" and "header_supported (take 1024 kimage)"
  defines "k \<equiv> real_mode_sectors (kfield (take 1024 kimage) ''setup_sects'')" and "n \<equiv> unat (image_sectors (take 1024 kimage))"
  assumes "512 * k \<le> length kimage" and "512 * n \<le> length kimage"
  shows "2 \<le> k" "k \<le> 64"
    "file_range (image_sector m) 539 0 1024 = take 1024 kimage" "file_range (image_sector m) 539 0 (512 * k) = take (512 * k) kimage"
    "file_range (image_sector m) 539 (512 * k) (512 * (n - k)) = sub_bytes (512 * k) (512 * (n - k)) kimage"
proof -
  show k: "2 \<le> k" "k \<le> 64" using real_mode_sectors_bounds assms(2) unfolding k_def header_supported_def by auto
  have n: "n < 2 ^ 23" unfolding n_def by (rule image_sectors_bound)
  have range: "file_range (image_sector m) 539 p j = sub_bytes p j kimage" if "p + j \<le> length kimage" "p + j < 2 ^ 33" for p j
  proof -
    have "(p + j) div 512 < 2 ^ 24" using that(2) by simp
    then show ?thesis using that(1) assms(1) by (intro file_range_of_image) simp_all
  qed
  show "file_range (image_sector m) 539 0 1024 = take 1024 kimage"
    using range [of 0 1024] k(1) assms(5) by (simp add: sub_bytes_def)
  show "file_range (image_sector m) 539 0 (512 * k) = take (512 * k) kimage"
    using range [of 0 "512 * k"] k(2) assms(5) by (simp add: sub_bytes_def)
  show "file_range (image_sector m) 539 (512 * k) (512 * (n - k)) = sub_bytes (512 * k) (512 * (n - k)) kimage"
    using range [of "512 * k" "512 * (n - k)"] k n assms(5,6) by (cases "k \<le> n") (simp_all add: algebra_simps)
qed

text \<open>The first stage and the start of the loader: its two sectors are put where they are called.\<close>

lemma loader_sectors:
  assumes "peek m (512 * 531) (length loader) = loader" and "1024 \<le> length loader" and "0x1600 \<le> msize ram"
  shows "mbr_start (pio_disk m) ram = Inr (0x1200, 539, poke ram 0x1200 (take 512 loader))"
    "bzimage_start io (pio_disk m) st (poke ram 0x1200 (take 512 loader)) = bz_main io (pio_disk m) st (poke ram 0x1200 (take 1024 loader))"
proof -
  have "image_sector m 531 = sub_bytes 0 512 (peek m (512 * 531) (length loader))"
    "image_sector m 532 = sub_bytes 512 512 (peek m (512 * 531) (length loader))"
    using assms(2) sub_bytes_peek [of 0 512 "length loader" m "512 * 531"] sub_bytes_peek [of 512 512 "length loader" m "512 * 531"]
    by (simp_all add: image_sector_def)
  then have sectors: "image_sector m 531 = take 512 loader" "image_sector m 532 = take 512 (drop 512 loader)"
    by (simp_all only: assms(1) sub_bytes_def drop_0)
  have len: "length (take 512 loader) = 512" using assms(2) by simp
  have both: "take 512 loader @ take 512 (drop 512 loader) = take 1024 loader"
    using take_add [of 512 512 loader] by simp
  show "mbr_start (pio_disk m) ram = Inr (0x1200, 539, poke ram 0x1200 (take 512 loader))"
    using pio.rdk_ok [of "0x1200" ram m 531] sectors(1) assms(3) by (simp add: mbr_start_def)
  show "bzimage_start io (pio_disk m) st (poke ram 0x1200 (take 512 loader)) = bz_main io (pio_disk m) st (poke ram 0x1200 (take 1024 loader))"
    using pio.rdk_ok [of "0x1400" "poke ram 0x1200 (take 512 loader)" m 532] sectors(2) assms(3)
      poke_behind [of "0x1400" "0x1200" "take 512 loader" ram "take 512 (drop 512 loader)"] len both
    by (simp add: bzimage_start_def)
qed

text \<open>
  The machine when the loader calls \<open>jump_to_setup(0x2000, 0x10000)\<close>: flat 32-bit code, memory as the
  loader left it with the frame of the call on the stack.
\<close>

definition at_jump :: "u32 \<Rightarrow> mem \<Rightarrow> pc \<Rightarrow> bool" where
  "at_jump ret m s \<longleftrightarrow>
     protected s \<and> dbit s \<and> (\<forall>sg\<in>{DS, SS}. flat (sbase s sg) (slim s sg)) \<and>
     mm s = poke m (unat (r32 s ESP)) (le_enc 4 ret @ le_enc 4 (0x2000 :: u32) @ le_enc 4 (0x10000 :: u32))"

lemma loader_enters_setup:
  assumes "at_jump ret ram s" and "peek ram 0xa000 (length code16) = code16"
    and "0x100000 \<le> msize ram" "msize ram \<le> 2 ^ 32" and "0x2000 \<le> unat (r32 s ESP)" and "unat (r32 s ESP) + 12 \<le> 0xa000"
    and "peek ram (0x1200 + d) 24 = setup_descriptors" and "peek ram (0x1200 + t) 6 = setup_table (of_nat (0x1200 + d))"
    and "d + 24 \<le> 1536" and "t + 6 \<le> 1536" and "unat nxt \<le> 0xffff"
  shows "\<exists>k. to_setup bios (of_nat (0x1200 + t)) nxt (length code16) s = Inr k \<and> \<not> protected k \<and> \<not> dbit k \<and> \<not> intr k \<and>
    next_linear k = 0x2200 \<and> sel k CS = 0x220 \<and> (\<forall>sg. sg \<noteq> CS \<longrightarrow> sel k sg = 0x200 \<and> sbase k sg = 0x2000) \<and>
    r32 k ESP = 0xfffc \<and> only_changed [(unat (r32 s ESP), 12), (0xfffc, 4)] ram (mm k)"
proof -
  let ?sp = "unat (r32 s ESP)"
  let ?frame = "le_enc 4 ret @ le_enc 4 (0x2000 :: u32) @ le_enc 4 (0x10000 :: u32)"
  note jump = assms(1) [unfolded at_jump_def]
  have mm: "mm s = poke ram ?sp ?frame" using jump by blast
  have "setup_call (0x1200 + d) (0x1200 + t) 0x2000 0x10000 s"
    unfolding setup_call_def mm using jump assms(3-10) by (simp add: apart_def peek_poke_inside)
  moreover have "peek (mm s) 0xa000 (length code16) = code16"
    using assms(2,6) by (simp add: mm)
  ultimately obtain k where k: "to_setup bios (of_nat (0x1200 + t)) nxt (length code16) s = Inr k" "\<not> protected k" "\<not> dbit k" "\<not> intr k"
      "next_linear k = 0x2200" "sel k CS = 0x220" "\<forall>sg. sg \<noteq> CS \<longrightarrow> sel k sg = 0x200 \<and> sbase k sg = 0x2000"
      "r32 k ESP = 0x10000 - 4" "mm k = poke (mm s) (unat (0x10000 :: u32) - 4) (peek (mm s) ?sp 4)"
    using setup_reached [of "0x1200 + d" "0x1200 + t" "0x2000" "0x10000" s nxt bios] assms(11) by (auto simp: apart_def length_code16)
  have "only_changed [(?sp, 12), (0xfffc, 4)] ram (mm k)"
    unfolding k(9) mm by (auto simp: only_changed_def)
  with k show ?thesis by (intro exI [of _ k]) simp
qed

text \<open>
  C1: the disk that mkgpt builds boots. Suppose the host calls succeed, the files fit, the loader file
  has between 1024 and 4096 bytes and holds the segment table that bzsetup.S defines, and the kernel
  file has a header the kernel loader supports and holds the sectors it announces. Then mkgpt writes an
  image on which the first stage puts the first sector of the loader file at 0x1200 and passes sector
  539; the loader, which reads its second sector and then the kernel from the same disk, calls
  jump_to_setup with the real-mode and the protected-mode part of that kernel file in memory, changed
  only where the boot protocol has the loader fill in its fields; and that call, made with the stack
  above the setup code, enters the setup code at 0x2200 in real-address mode with the segments the
  protocol asks for, nothing but the frame of the call and four bytes below 0x10000 changed.
\<close>

theorem mkgpt_disk_boots:
  fixes ram :: mem
  assumes env: "opens env" "maps env" "writes_all env" "mbr_code env = Inr code"
    and fs: "\<forall>f\<in>set mkgpt_files. ready_file (host_path env) con f"
      "clusters_of (boot_fat 262140) (file_sizes con mkgpt_files) \<le> 32699"
  defines "loader \<equiv> con ''../bootloader/linuz.bin''" and "kimage \<equiv> con ''../bootloader/kernel''"
  defines "s \<equiv> real_mode_sectors (kfield (take 1024 kimage) ''setup_sects'')" and "n \<equiv> unat (image_sectors (take 1024 kimage))"
  assumes loader: "1024 \<le> length loader" "length loader \<le> 4096"
      "sub_bytes d 24 (take 1024 loader) = setup_descriptors" "sub_bytes t 6 (take 1024 loader) = setup_table (of_nat (0x1200 + d))"
      "d + 24 \<le> 1024" "t + 6 \<le> 1024" "unat nxt \<le> 0xffff"
    and kimage: "header_magic (take 1024 kimage)" "header_supported (take 1024 kimage)"
      "512 * s \<le> length kimage" "512 * n \<le> length kimage"
    and ram: "0x100000 + 512 * (n - s) \<le> msize ram" "msize ram \<le> 2 ^ 32"
  shows "\<exists>starts offs m ram1 ram2. mkgpt_main Little env = Inr (0, starts, offs, Some m) \<and>
    mbr_start (pio_disk m) ram = Inr (0x1200, 539, ram1) \<and>
    bzimage_start io (pio_disk m) st ram1 = Inr (JumpToSetup 0x2000 0x10000, st, ram2) \<and>
    only_changed handed_ranges
      (poke (poke (poke ram 0x1200 (take 1024 loader)) 0x2000 (take (512 * s) kimage)) 0x100000
        (sub_bytes (512 * s) (512 * (n - s)) kimage)) ram2 \<and>
    (\<forall>cpu ret. at_jump ret ram2 cpu \<and> 0x2000 + 512 * s \<le> unat (r32 cpu ESP) \<and> unat (r32 cpu ESP) + 12 \<le> 0xa000 \<longrightarrow>
      (\<exists>k. to_setup bios (of_nat (0x1200 + t)) nxt (length code16) cpu = Inr k \<and> \<not> protected k \<and> \<not> dbit k \<and> \<not> intr k \<and>
        next_linear k = 0x2200 \<and> sel k CS = 0x220 \<and> (\<forall>sg. sg \<noteq> CS \<longrightarrow> sel k sg = 0x200 \<and> sbase k sg = 0x2000) \<and>
        r32 k ESP = 0xfffc \<and> only_changed [(unat (r32 cpu ESP), 12), (0xfffc, 4)] ram2 (mm k)))"
proof -
  obtain offs m where m: "mkgpt_main Little env =
      Inr (0, [(''PARTITION_0_START'', 3), (''PARTITION_1_START'', 262143)], zip (map fst mkgpt_files) offs, Some m)"
    "peek m (512 * 531) (length loader) = loader" "peek m (512 * 539) (length kimage) = kimage"
    using mkgpt_image [OF env fs] loader(2) unfolding loader_def kimage_def by blast
  note kernel = kernel_on_image [OF m(3) kimage(2-4) [unfolded s_def n_def], folded s_def n_def]
  let ?ram1 = "poke ram 0x1200 (take 1024 loader)"
  let ?l = "poke (poke ?ram1 0x2000 (take (512 * s) kimage)) 0x100000 (sub_bytes (512 * s) (512 * (n - s)) kimage)"
  have run: "bz_main io (pio_disk m) st ?ram1 = Inr (JumpToSetup 0x2000 0x10000, st, handed ?l)"
    using pio.bz_main_ok [of m ?ram1 io st] kimage(1,2) ram(1)
    unfolding kernel(3) kernel(4) [unfolded s_def] kernel(5) [unfolded s_def n_def] by (simp add: s_def n_def)
  have start: "mbr_start (pio_disk m) ram = Inr (0x1200, 539, poke ram 0x1200 (take 512 loader))"
    "bzimage_start io (pio_disk m) st (poke ram 0x1200 (take 512 loader)) = Inr (JumpToSetup 0x2000 0x10000, st, handed ?l)"
    using loader_sectors(1) [OF m(2) loader(1), of ram] loader_sectors(2) [OF m(2) loader(1), of ram io st] ram(1) run by simp_all
  have room: "0x13000 \<le> msize ?l" using ram by simp
  note fields = handed_fields [OF room]
  have "peek (handed ?l) 0x1200 1024 = peek ?l 0x1200 1024"
    by (rule only_changed_peek [OF fields(7)]) (simp add: apart_def handed_ranges_def)
  then have "peek (handed ?l) 0x1200 1024 = take 1024 loader"
    using loader(1) kernel(2) by simp
  then have tables: "peek (handed ?l) (0x1200 + d) 24 = setup_descriptors" "peek (handed ?l) (0x1200 + t) 6 = setup_table (of_nat (0x1200 + d))"
    using loader(3-6) sub_bytes_peek [of d 24 1024 "handed ?l" "0x1200"] sub_bytes_peek [of t 6 1024 "handed ?l" "0x1200"] by simp_all
  have "msize (handed ?l) = msize ram" using fields(7) by (simp add: only_changed_def)
  then have "\<exists>k. to_setup bios (of_nat (0x1200 + t)) nxt (length code16) cpu = Inr k \<and> \<not> protected k \<and> \<not> dbit k \<and> \<not> intr k \<and>
        next_linear k = 0x2200 \<and> sel k CS = 0x220 \<and> (\<forall>sg. sg \<noteq> CS \<longrightarrow> sel k sg = 0x200 \<and> sbase k sg = 0x2000) \<and>
        r32 k ESP = 0xfffc \<and> only_changed [(unat (r32 cpu ESP), 12), (0xfffc, 4)] (handed ?l) (mm k)"
    if "at_jump ret (handed ?l) cpu" "0x2000 + 512 * s \<le> unat (r32 cpu ESP)" "unat (r32 cpu ESP) + 12 \<le> 0xa000" for cpu ret
    using loader_enters_setup [OF that(1) fields(6) _ _ _ that(3) tables _ _ loader(7)] that(2) loader(5,6) ram by simp
  then show ?thesis using m(1) start fields(7) by blast
qed

text \<open>A host with a loader of two sectors, its table in front, and a small kernel.\<close>

definition demo_paths :: "string \<Rightarrow> u8 list" where
  "demo_paths p =
     (if p = ''../bootloader/linuz.bin'' then setup_descriptors @ setup_table 0x1200 @ replicate 994 0x90
      else if p = ''../bootloader/kernel'' then demo_kernel @ replicate 1003 0 else [0x7f, 0x45])"

definition boot_host :: host where
  "boot_host = \<lparr>opens = True, maps = True, writes_all = True, host_path = (\<lambda>p. demo_file (demo_paths p)), mbr_code = Inr [0xfa]\<rparr>"

theorem mkgpt_disk_boots_witness:
  "\<exists>starts offs m ram1 ram2. mkgpt_main Little boot_host = Inr (0, starts, offs, Some m) \<and>
     mbr_start (pio_disk m) (blank 0x200000) = Inr (0x1200, 539, ram1) \<and>
     bzimage_start (ata_drive (blank 0)) (pio_disk m) drive_reset ram1 = Inr (JumpToSetup 0x2000 0x10000, drive_reset, ram2)"
proof -
  have tab: "length setup_descriptors = 24" "length (setup_table w) = 6" for w
    by (simp_all add: setup_descriptors_value setup_table_def)
  have len: "length (demo_paths p) < 2 ^ 32" "length (demo_paths ''../bootloader/kernel'') = 2048"
    "length (demo_paths ''../bootloader/linuz.bin'') = 1024" for p
    by (simp_all add: demo_paths_def length_demo_kernel tab)
  have hdr: "take 1024 (demo_paths ''../bootloader/kernel'') = take 1024 demo_kernel"
    by (simp add: demo_paths_def length_demo_kernel)
  have rdy: "\<forall>f\<in>set mkgpt_files. ready_file (host_path boot_host) demo_paths f"
    using len(1) by (simp add: mkgpt_files_def ready_file_def boot_host_def demo_delivers names_fit)
  have fit: "clusters_of (boot_fat 262140) (file_sizes demo_paths mkgpt_files) \<le> 32699"
    by (simp add: mkgpt_files_def clusters_for_def boot_fat_geometry demo_paths_def length_demo_kernel tab)
  have "sub_bytes 0 24 (take 1024 (demo_paths ''../bootloader/linuz.bin'')) = setup_descriptors"
    "sub_bytes 24 6 (take 1024 (demo_paths ''../bootloader/linuz.bin'')) = setup_table (of_nat (0x1200 + 0))"
    by (simp_all add: demo_paths_def sub_bytes_def tab)
  then show ?thesis
    using mkgpt_disk_boots [of boot_host "[0xfa]" demo_paths 0 24 "0x1400" "blank 0x200000" "ata_drive (blank 0)" drive_reset no_bios]
      rdy fit demo_kernel_header
    by (simp add: boot_host_def hdr len msize_blank) blast
qed

section \<open>The boot chain of the BIOS build\<close>

text \<open>The disk the BIOS serves, and what the loaders see of it.\<close>

definition disk_block :: "mem \<Rightarrow> u64 \<Rightarrow> u8 list" where
  "disk_block m n = peek m (512 * unat n) 512"

lemma file_range_blocks:
  assumes "unat start + (off + n) div 512 < 2 ^ 28"
  shows "file_range (\<lambda>k. disk_block m (ucast k)) start off n = file_range (image_sector m) start off n"
proof -
  have "disk_block m (ucast (start + of_nat (i div 512))) = image_sector m (start + of_nat (i div 512))" if "i < off + n" for i
  proof -
    have "i div 512 \<le> (off + n) div 512" using that by (simp add: div_le_mono)
    then have "unat (start + of_nat (i div 512)) < 2 ^ 28"
      using assms by (simp add: unat_add_ok unat_of_nat_ok)
    then show ?thesis
      by (simp add: disk_block_def image_sector_def unsigned_take_bit_eq take_bit_nat_eq_self unsigned_ucast_eq)
  qed
  then show ?thesis by (simp add: file_range_def file_byte_def)
qed

text \<open>
  The loader file of the BIOS build: the packet and the tables of \<open>bios.S\<close> lie in its first sector, which
  is the one in memory when the routine is first called.
\<close>

definition bios_loader :: "nat \<Rightarrow> nat \<Rightarrow> u8 list \<Rightarrow> bool" where
  "bios_loader pkt descr loader \<longleftrightarrow>
     0x1200 < pkt \<and> pkt + 22 \<le> descr \<and> descr + 54 \<le> 0x1400 \<and> sub_bytes (pkt + 18 - 0x1200) 4 loader = [0, 0, 0, 0] \<and>
     sub_bytes (descr - 0x1200) 40 loader = bios_descriptors \<and> sub_bytes (descr + 48 - 0x1200) 6 loader = bios_table (of_nat descr)"

lemma bios_loader_data:
  assumes "bios_loader pkt descr loader" and "peek m 0x1200 512 = take 512 loader" and "0x10000 \<le> msize m" and "msize m \<le> 2 ^ 32"
  shows "bios_data pkt descr m"
proof -
  have sub: "peek m (0x1200 + p) n = sub_bytes p n loader" if "p + n \<le> 512" for p n
    using sub_bytes_peek [OF that, of m "0x1200"] that unfolding assms(2) by (simp add: sub_bytes_def drop_take)
  show ?thesis
    using assms(1,3,4) sub [of "pkt + 18 - 0x1200" 4] sub [of "descr - 0x1200" 40] sub [of "descr + 48 - 0x1200" 6]
    by (auto simp: bios_data_def bios_loader_def add.commute)
qed

text \<open>How the BIOS enters the boot sector, with room for its own use below the stack pointer.\<close>

definition bios_boots :: "nat \<Rightarrow> nat \<Rightarrow> u32 \<Rightarrow> pc \<Rightarrow> bool" where
  "bios_boots gdt K start32 s \<longleftrightarrow>
     bios_entry s \<and> sel s DS = 0 \<and> sbase s DS = 0 \<and> biosmbr_data gdt (mm s) \<and> unat start32 < 0x10000 \<and>
     (\<exists>c. 16 * unat (sel s SS) + unat (ucast (r32 s ESP) :: u16) = c + K \<and> c + K \<le> gdt \<and> 0x1400 \<le> c)"

text \<open>Compiled code that calls the routine with its stack between the setup code and 0xa000.\<close>

definition loader_caller :: "nat \<Rightarrow> nat \<Rightarrow> nat \<Rightarrow> nat \<Rightarrow> pc \<Rightarrow> bool" where
  "loader_caller pkt descr lo K s \<longleftrightarrow> (\<exists>c. bios_caller pkt descr c K s \<and> lo \<le> c \<and> c + K + 36 \<le> 0xa000)"

text \<open>The start of the loader: its second and third sector are read behind the first.\<close>

lemma bios_loader_starts:
  assumes "bios_reads bios (disk_block m) K" and "loader_caller pkt descr lo K cpu" and "bios_label_ok L pkt descr"
    and "bios_loader pkt descr loader" and "bios_data pkt descr ram" and "0x2000 \<le> lo"
    and "peek m (512 * 531) (length loader) = loader" and "1536 \<le> length loader"
  shows "\<exists>ram'. biosboot_start (bios_function bios L entry ret cpu) prog ram = prog ram' \<and> bios_data pkt descr ram' \<and>
    only_changed (bios_scratch pkt descr lo (0xa000 - lo)) (poke ram 0x1400 (sub_bytes 512 1024 loader)) ram'"
proof -
  obtain c where c: "bios_caller pkt descr c K cpu" "lo \<le> c" "c + K + 36 \<le> 0xa000"
    using assms(2) by (auto simp: loader_caller_def)
  note part = assms(4) [unfolded bios_loader_def]
  obtain ram' where r: "biosboot_start (bios_function bios L entry ret cpu) prog ram = prog ram'"
    "peek ram' 0x1400 1024 = disk_block m 532 @ disk_block m 533" "only_changed [(0x1400, 1024), (pkt - 1, 19), (c, K + 36)] ram ram'"
    using biosboot_loads [OF assms(1) c(1) assms(3,5)] part assms(6) c(2) by fastforce
  have "disk_block m 532 @ disk_block m 533 = sub_bytes 512 1024 (peek m (512 * 531) (length loader))"
    using assms(8) peek_append [of m "512 * 532" 512 512] sub_bytes_peek [of 512 1024 "length loader" m "512 * 531"]
    by (simp add: disk_block_def)
  then have bytes: "peek ram' 0x1400 1024 = sub_bytes 512 1024 loader" using r(2) by (simp only: assms(7))
  have len: "length (sub_bytes 512 1024 loader) = 1024" using assms(8) by (simp add: sub_bytes_def)
  have "only_changed ((0x1400, 1024) # bios_scratch pkt descr lo (0xa000 - lo)) ram ram'"
    by (rule only_changed_weaken [OF r(3)]) (use c part in \<open>auto simp: bios_scratch_def\<close>)
  then have "only_changed (bios_scratch pkt descr lo (0xa000 - lo)) (poke ram 0x1400 (sub_bytes 512 1024 loader)) ram'"
    using only_changed_filled [OF only_changed_refl, of "0x1400" "sub_bytes 512 1024 loader"] bytes len by simp
  moreover have "bios_data pkt descr ram'"
    by (rule bios_data_frame [OF assms(5) r(3)]) (use part assms(6) c(2) in \<open>auto simp: apart_def\<close>)
  ultimately show ?thesis using r(1) by blast
qed

text \<open>The kernel loader over the BIOS: what it leaves in memory outside the ranges of the disk routine.\<close>

lemma bios_loader_loads:
  assumes "bios_reads bios (disk_block m) K" and "loader_caller pkt descr (0x2000 + 512 * k) K cpu" and "bios_label_ok L pkt descr"
    and "0x1200 < pkt" "descr + 54 \<le> 0x1400" and "bios_data pkt descr ram" and "only_changed (bios_scratch pkt descr (0x2000 + 512 * k) (0xa000 - (0x2000 + 512 * k))) a ram"
    and kernel: "peek m (512 * 539) (length kimage) = kimage" "header_magic (take 1024 kimage)" "header_supported (take 1024 kimage)"
      "512 * k \<le> length kimage" "512 * n \<le> length kimage" "0x100000 + 512 * (n - k) \<le> msize ram"
      "k = real_mode_sectors (kfield (take 1024 kimage) ''setup_sects'')" "n = unat (image_sectors (take 1024 kimage))"
  shows "\<exists>ram'. bz_main io (read_disk_bios (bios_function bios L entry ret cpu)) st ram = Inr (JumpToSetup 0x2000 0x10000, st, ram') \<and>
    only_changed (bios_scratch pkt descr (0x2000 + 512 * k) (0xa000 - (0x2000 + 512 * k)))
      (handed (poke (poke a 0x2000 (take (512 * k) kimage)) 0x100000 (sub_bytes (512 * k) (512 * (n - k)) kimage))) ram'"
proof -
  let ?lo = "0x2000 + 512 * k" and ?blk = "\<lambda>j. disk_block m (ucast (j :: u32))"
  let ?R = "bios_scratch pkt descr ?lo (0xa000 - ?lo)"
  obtain c where c: "bios_caller pkt descr c K cpu" "?lo \<le> c" "c + K + 36 \<le> 0xa000"
    using assms(2) by (auto simp: loader_caller_def)
  have pd: "pkt + 22 \<le> descr" using assms(6) by (simp add: bios_data_def)
  have src: "scratch_source (read_disk_bios (bios_function bios L entry ret cpu)) ?blk ?R (bios_data pkt descr)"
    by (rule bios_scratch_source [OF assms(1) _ c(1) assms(3) c(2)])
      (use c assms(4,5) pd in \<open>auto simp: disk_block_def apart_def\<close>)
  note on = kernel_on_image [OF kernel(1,3) kernel(4,5) [unfolded kernel(7,8)], folded kernel(7,8)]
  have n: "n < 2 ^ 23" unfolding kernel(8) by (rule image_sectors_bound)
  have eqs: "file_range ?blk 539 0 1024 = take 1024 kimage" "file_range ?blk 539 0 (512 * k) = take (512 * k) kimage"
    "file_range ?blk 539 (512 * k) (512 * (n - k)) = sub_bytes (512 * k) (512 * (n - k)) kimage"
    using on n by (simp_all add: file_range_blocks)
  have ap: "apart ?R 0x2000 (512 * k)" "apart ?R 0x100000 (512 * (n - k))"
    using assms(4,5) pd c by (auto simp: apart_def bios_scratch_def)
  show ?thesis
    using scratch_source.bz_main_refines [OF src, of ram a io st] kernel(2,3,6) assms(6,7) ap
    unfolding eqs kernel(7,8) [symmetric] by blast
qed

text \<open>From the boot sector to the call of \<open>jump_to_setup\<close>, on a disk with the loader and the kernel in their places.\<close>

lemma bios_chain_loads:
  fixes pkt descr k :: nat
  defines "scratch \<equiv> bios_scratch pkt descr (0x2000 + 512 * k) (0xa000 - (0x2000 + 512 * k))"
  assumes bios: "bios_extended bios K" "bios_reads bios (disk_block m) K"
    and loader: "peek m (512 * 531) (length loader) = loader" "1536 \<le> length loader" "bios_loader pkt descr loader" "bios_label_ok L pkt descr"
    and kernel: "peek m (512 * 539) (length kimage) = kimage" "header_magic (take 1024 kimage)" "header_supported (take 1024 kimage)"
      "512 * k \<le> length kimage" "512 * n \<le> length kimage"
      "k = real_mode_sectors (kfield (take 1024 kimage) ''setup_sects'')" "n = unat (image_sectors (take 1024 kimage))"
    and machine: "bios_boots gdt K start32 cpu0" "0x100000 + 512 * (n - k) \<le> msize (mm cpu0)" "msize (mm cpu0) \<le> 2 ^ 32"
    and callers: "loader_caller pkt descr (0x2000 + 512 * k) K cpu1" "loader_caller pkt descr (0x2000 + 512 * k) K cpu2"
  shows "\<exists>cpu ram. biosmbr bios (of_nat (gdt + 31)) (of_nat (gdt + 24)) start32 cpu0 = Inr (Some cpu) \<and>
    protected cpu \<and> dbit cpu \<and> next_linear cpu = 0x1200 \<and> peek (mm cpu) 0x1200 512 = take 512 loader \<and> msize (mm cpu) = msize (mm cpu0) \<and>
    biosboot_start (bios_function bios L entry ret1 cpu1)
      (bz_main io (read_disk_bios (bios_function bios L entry ret2 cpu2)) st) (mm cpu) = Inr (JumpToSetup 0x2000 0x10000, st, ram) \<and>
    only_changed scratch (handed (poke (poke (poke (mm cpu) 0x1400 (sub_bytes 512 1024 loader)) 0x2000 (take (512 * k) kimage)) 0x100000
      (sub_bytes (512 * k) (512 * (n - k)) kimage))) ram"
proof -
  let ?start = "biosboot_start (bios_function bios L entry ret1 cpu1)" and ?main = "bz_main io (read_disk_bios (bios_function bios L entry ret2 cpu2)) st"
  note part = loader(3) [unfolded bios_loader_def]
  obtain cpu where cpu: "biosmbr bios (of_nat (gdt + 31)) (of_nat (gdt + 24)) start32 cpu0 = Inr (Some cpu)" "protected cpu" "dbit cpu"
    "next_linear cpu = 0x1200" "peek (mm cpu) 0x1200 512 = disk_block m 531" "msize (mm cpu) = msize (mm cpu0)"
    using machine(1) biosmbr_ok [OF _ _ _ _ _ bios] unfolding bios_boots_def only_changed_def by blast
  have "disk_block m 531 = sub_bytes 0 512 (peek m (512 * 531) (length loader))"
    using loader(2) sub_bytes_peek [of 0 512 "length loader" m "512 * 531"] by (simp add: disk_block_def)
  then have first: "peek (mm cpu) 0x1200 512 = take 512 loader"
    using cpu(5) by (simp only: loader(1) sub_bytes_def drop_0)
  have data: "bios_data pkt descr (mm cpu)"
    using bios_loader_data [OF loader(3) first] machine(2,3) cpu(6) by simp
  obtain ram1 where ram1: "?start ?main (mm cpu) = ?main ram1" "bios_data pkt descr ram1"
    "only_changed scratch (poke (mm cpu) 0x1400 (sub_bytes 512 1024 loader)) ram1"
    using bios_loader_starts [OF bios(2) callers(1) loader(4,3) data _ loader(1,2), of entry ret1 ?main] unfolding scratch_def by fastforce
  have "msize ram1 = msize (mm cpu0)" using ram1(3) cpu(6) by (simp add: only_changed_def)
  then obtain ram where "?main ram1 = Inr (JumpToSetup 0x2000 0x10000, st, ram)"
    "only_changed scratch (handed (poke (poke (poke (mm cpu) 0x1400 (sub_bytes 512 1024 loader)) 0x2000 (take (512 * k) kimage)) 0x100000
      (sub_bytes (512 * k) (512 * (n - k)) kimage))) ram"
    using bios_loader_loads [OF bios(2) callers(2) loader(4) _ _ ram1(2) ram1(3) [unfolded scratch_def] kernel(1-5) _ kernel(6,7), of io entry ret2 st]
      part machine(2) unfolding scratch_def by auto
  then show ?thesis using cpu first ram1(1) by (intro exI [of _ cpu] exI [of _ ram]) simp
qed

text \<open>What the loader's tables and the 16-bit code are at that call.\<close>

lemma bios_chain_tables:
  fixes pkt descr k :: nat
  defines "scratch \<equiv> bios_scratch pkt descr (0x2000 + 512 * k) (0xa000 - (0x2000 + 512 * k))"
  assumes "peek a 0x1200 512 = take 512 loader" and "1536 \<le> length loader" and "length real = 512 * k" and "k \<le> 64" and "0x100000 \<le> msize a"
    and "only_changed scratch (handed (poke (poke (poke a 0x1400 (sub_bytes 512 1024 loader)) 0x2000 real) 0x100000 prot)) ram"
    and "0x1200 < pkt" "pkt \<le> descr"
  shows "descr + 54 \<le> 0x1200 + d \<Longrightarrow> d + j \<le> 1536 \<Longrightarrow> peek ram (0x1200 + d) j = sub_bytes d j loader"
    "descr + 54 \<le> 0xa000 \<Longrightarrow> peek ram 0xa000 (length code16) = code16"
    "only_changed (handed_ranges @ scratch) (poke (poke (poke a 0x1400 (sub_bytes 512 1024 loader)) 0x2000 real) 0x100000 prot) ram"
proof -
  let ?l = "poke (poke (poke a 0x1400 (sub_bytes 512 1024 loader)) 0x2000 real) 0x100000 prot"
  have room: "0x13000 \<le> msize ?l" using assms(6) by simp
  note fields = handed_fields [OF room]
  have len: "length (sub_bytes 512 1024 loader) = 1024" using assms(3) by (simp add: sub_bytes_def)
  show all: "only_changed (handed_ranges @ scratch) ?l ram"
    by (rule only_changed_trans [OF fields(7) assms(7)]) auto
  have "peek ram 0xa000 (length code16) = peek (handed ?l) 0xa000 (length code16)" if "descr + 54 \<le> 0xa000"
    by (rule only_changed_peek [OF assms(7)]) (use that assms(5,8,9) in \<open>auto simp: apart_def scratch_def bios_scratch_def length_code16\<close>)
  then show "descr + 54 \<le> 0xa000 \<Longrightarrow> peek ram 0xa000 (length code16) = code16" using fields(6) by simp
  have "peek ?l 0x1200 (512 + 1024) = take 512 loader @ sub_bytes 512 1024 loader"
    using assms(2) len unfolding peek_append by simp
  also have "\<dots> = take 1536 loader" using take_add [of 512 1024 loader] by (simp add: sub_bytes_def)
  finally have code: "peek ?l 0x1200 1536 = take 1536 loader" by simp
  show "peek ram (0x1200 + d) j = sub_bytes d j loader" if "descr + 54 \<le> 0x1200 + d" "d + j \<le> 1536"
  proof -
    have "peek ram (0x1200 + d) j = peek ?l (0x1200 + d) j"
      by (rule only_changed_peek [OF all])
        (use that assms(5,8,9) in \<open>auto simp: apart_def scratch_def bios_scratch_def handed_ranges_def length_code16 length_cmd_line\<close>)
    also have "\<dots> = sub_bytes d j (take 1536 loader)" using sub_bytes_peek [OF that(2), of ?l "0x1200"] by (simp add: code)
    finally show ?thesis using that(2) by (simp add: sub_bytes_def drop_take)
  qed
qed

text \<open>The state the boot protocol asks for at the entry of the setup code, loaded at 0x2000 with its heap up to 0x10000.\<close>

definition at_setup :: "pc \<Rightarrow> bool" where
  "at_setup s \<longleftrightarrow> \<not> protected s \<and> \<not> dbit s \<and> \<not> intr s \<and> next_linear s = 0x2200 \<and> sel s CS = 0x220 \<and>
     (\<forall>sg. sg \<noteq> CS \<longrightarrow> sel s sg = 0x200 \<and> sbase s sg = 0x2000) \<and> r32 s ESP = 0xfffc"

text \<open>
  C2: the disk that mkgpt builds boots through the BIOS, too. Take the loader and the boot sector of the
  BIOS build, any BIOS that offers the disk extensions and serves the sectors of the image that mkgpt
  writes, and code that calls the disk routine with its stack between the setup code and 0xa000. Then
  the boot sector enters the first sector of the loader file at 0x1200 in 32-bit mode; the loader reads
  its other two sectors and the kernel through real-address mode and calls jump_to_setup with the kernel
  file in memory. Apart from the fields the boot protocol has it fill in, memory differs from the plain
  copies of these files only in the bounce sector, the packet with its tables and the stack; and the call
  enters the setup code at 0x2200 in real-address mode, as in the build that drives the disk itself.
\<close>

theorem bios_disk_boots:
  fixes cpu0 :: pc and pkt descr :: nat
  assumes env: "opens env" "maps env" "writes_all env" "mbr_code env = Inr code"
    and fs: "\<forall>f\<in>set mkgpt_files. ready_file (host_path env) con f"
      "clusters_of (boot_fat 262140) (file_sizes con mkgpt_files) \<le> 32699"
  defines "loader \<equiv> con ''../bootloader/linuz.bin''" and "kimage \<equiv> con ''../bootloader/kernel''"
  defines "k \<equiv> real_mode_sectors (kfield (take 1024 kimage) ''setup_sects'')" and "n \<equiv> unat (image_sectors (take 1024 kimage))"
  defines "scratch \<equiv> bios_scratch pkt descr (0x2000 + 512 * k) (0xa000 - (0x2000 + 512 * k))"
  assumes loader: "1536 \<le> length loader" "length loader \<le> 4096" "bios_loader pkt descr loader" "bios_label_ok L pkt descr"
      "sub_bytes d 24 loader = setup_descriptors" "sub_bytes t 6 loader = setup_table (of_nat (0x1200 + d))"
      "descr + 54 \<le> 0x1200 + d" "d + 24 \<le> 1536" "descr + 54 \<le> 0x1200 + t" "t + 6 \<le> 1536" "unat nxt \<le> 0xffff"
    and kimage: "header_magic (take 1024 kimage)" "header_supported (take 1024 kimage)"
      "512 * k \<le> length kimage" "512 * n \<le> length kimage"
    and machine: "bios_boots gdt K start32 cpu0" "0x100000 + 512 * (n - k) \<le> msize (mm cpu0)" "msize (mm cpu0) \<le> 2 ^ 32"
    and callers: "loader_caller pkt descr (0x2000 + 512 * k) K cpu1" "loader_caller pkt descr (0x2000 + 512 * k) K cpu2"
  shows "\<exists>starts offs m. mkgpt_main Little env = Inr (0, starts, offs, Some m) \<and>
    (\<forall>bios. bios_extended bios K \<and> bios_reads bios (disk_block m) K \<longrightarrow>
      (\<exists>cpu ram. biosmbr bios (of_nat (gdt + 31)) (of_nat (gdt + 24)) start32 cpu0 = Inr (Some cpu) \<and>
        protected cpu \<and> dbit cpu \<and> next_linear cpu = 0x1200 \<and> peek (mm cpu) 0x1200 512 = take 512 loader \<and>
        biosboot_start (bios_function bios L entry ret1 cpu1)
          (bz_main io (read_disk_bios (bios_function bios L entry ret2 cpu2)) st) (mm cpu) = Inr (JumpToSetup 0x2000 0x10000, st, ram) \<and>
        only_changed (handed_ranges @ scratch)
          (poke (poke (poke (mm cpu) 0x1400 (sub_bytes 512 1024 loader)) 0x2000 (take (512 * k) kimage)) 0x100000
            (sub_bytes (512 * k) (512 * (n - k)) kimage)) ram \<and>
        (\<forall>cpu3 ret. at_jump ret ram cpu3 \<and> 0x2000 + 512 * k \<le> unat (r32 cpu3 ESP) \<and> unat (r32 cpu3 ESP) + 12 \<le> 0xa000 \<longrightarrow>
          (\<exists>cpu4. to_setup bios (of_nat (0x1200 + t)) nxt (length code16) cpu3 = Inr cpu4 \<and> at_setup cpu4))))"
proof -
  let ?l = "\<lambda>a. poke (poke (poke a 0x1400 (sub_bytes 512 1024 loader)) 0x2000 (take (512 * k) kimage)) 0x100000
      (sub_bytes (512 * k) (512 * (n - k)) kimage)"
  obtain offs m where m: "mkgpt_main Little env =
      Inr (0, [(''PARTITION_0_START'', 3), (''PARTITION_1_START'', 262143)], zip (map fst mkgpt_files) offs, Some m)"
    "peek m (512 * 531) (length loader) = loader" "peek m (512 * 539) (length kimage) = kimage"
    using mkgpt_image [OF env fs] loader(2) unfolding loader_def kimage_def by blast
  note part = loader(3) [unfolded bios_loader_def]
  have k: "k \<le> 64" using kernel_on_image(2) [OF m(3) kimage(2-4) [unfolded k_def n_def]] by (simp add: k_def)
  have "\<exists>cpu ram. biosmbr bios (of_nat (gdt + 31)) (of_nat (gdt + 24)) start32 cpu0 = Inr (Some cpu) \<and>
      protected cpu \<and> dbit cpu \<and> next_linear cpu = 0x1200 \<and> peek (mm cpu) 0x1200 512 = take 512 loader \<and>
      biosboot_start (bios_function bios L entry ret1 cpu1)
        (bz_main io (read_disk_bios (bios_function bios L entry ret2 cpu2)) st) (mm cpu) = Inr (JumpToSetup 0x2000 0x10000, st, ram) \<and>
      only_changed (handed_ranges @ scratch) (?l (mm cpu)) ram \<and>
      (\<forall>cpu3 ret. at_jump ret ram cpu3 \<and> 0x2000 + 512 * k \<le> unat (r32 cpu3 ESP) \<and> unat (r32 cpu3 ESP) + 12 \<le> 0xa000 \<longrightarrow>
        (\<exists>cpu4. to_setup bios (of_nat (0x1200 + t)) nxt (length code16) cpu3 = Inr cpu4 \<and> at_setup cpu4))"
    if bios: "bios_extended bios K" "bios_reads bios (disk_block m) K" for bios
  proof -
    obtain cpu ram where run: "biosmbr bios (of_nat (gdt + 31)) (of_nat (gdt + 24)) start32 cpu0 = Inr (Some cpu)"
      "protected cpu" "dbit cpu" "next_linear cpu = 0x1200" "peek (mm cpu) 0x1200 512 = take 512 loader" "msize (mm cpu) = msize (mm cpu0)"
      "biosboot_start (bios_function bios L entry ret1 cpu1)
        (bz_main io (read_disk_bios (bios_function bios L entry ret2 cpu2)) st) (mm cpu) = Inr (JumpToSetup 0x2000 0x10000, st, ram)"
      "only_changed scratch (handed (?l (mm cpu))) ram"
      using bios_chain_loads [OF bios m(2) loader(1,3,4) m(3) kimage k_def [THEN meta_eq_to_obj_eq] n_def [THEN meta_eq_to_obj_eq] machine callers,
          of entry ret1 io ret2 st]
      unfolding scratch_def by blast
    have "length (take (512 * k) kimage) = 512 * k" "0x100000 \<le> msize (mm cpu)" "0x1200 < pkt" "pkt \<le> descr"
      using kimage(3) machine(2) run(6) part by simp_all
    note mem = bios_chain_tables [OF run(5) loader(1) this(1) k this(2) run(8) [unfolded scratch_def] this(3,4), folded scratch_def]
    have sz: "msize ram = msize (mm cpu0)" using mem(3) run(6) by (simp add: only_changed_def)
    have "\<exists>cpu4. to_setup bios (of_nat (0x1200 + t)) nxt (length code16) cpu3 = Inr cpu4 \<and> at_setup cpu4"
      if "at_jump ret ram cpu3" "0x2000 + 512 * k \<le> unat (r32 cpu3 ESP)" "unat (r32 cpu3 ESP) + 12 \<le> 0xa000" for cpu3 ret
      using loader_enters_setup [OF that(1) mem(2) _ _ _ that(3), of d t nxt bios] mem(1) [OF loader(7,8)] mem(1) [OF loader(9,10)]
        that(2) loader(5,6,8,10,11) machine(2,3) sz part by (auto simp: at_setup_def)
    then show ?thesis using run mem(3) by blast
  qed
  then show ?thesis using m(1) by blast
qed

text \<open>A loader of the BIOS build with its tables, the host that has it, and a machine at its boot sector.\<close>

definition bios_file :: "u8 list" where
  "bios_file = peek (poke (poke demo_loader 0x1400 setup_descriptors) 0x1418 (setup_table 0x1400)) 0x1200 1536"

definition bios_paths :: "string \<Rightarrow> u8 list" where
  "bios_paths p = (if p = ''../bootloader/linuz.bin'' then bios_file else demo_paths p)"

definition bios_host :: host where
  "bios_host = boot_host\<lparr>host_path := (\<lambda>p. demo_file (bios_paths p))\<rparr>"

definition bios_machine :: pc where
  "bios_machine = (boot_pc (demo_mbr\<lparr>msize := 0x200000\<rparr>))\<lparr>r32 := (\<lambda>_. 0)(ESP := 0x7c00)\<rparr>"

lemma bios_file_parts:
  "length bios_file = 1536" "bios_loader 0x1301 0x1320 bios_file"
  "sub_bytes 0x200 24 bios_file = setup_descriptors" "sub_bytes 0x218 6 bios_file = setup_table (of_nat (0x1200 + 0x200))"
proof -
  have len: "length bios_descriptors = 40" "length (bios_table w) = 6" "length setup_descriptors = 24" "length (setup_table w) = 6" for w
    by (simp_all add: bios_descriptors_value bios_table_def setup_descriptors_value setup_table_def)
  show "length bios_file = 1536" by (simp add: bios_file_def)
  have "peek demo_loader 0x1313 4 = [0, 0, 0, 0]" "peek demo_loader 0x1320 40 = bios_descriptors" "peek demo_loader 0x1350 6 = bios_table 0x1320"
    using demo_bios(3) by (simp_all add: bios_data_def)
  then show "bios_loader 0x1301 0x1320 bios_file"
    by (simp add: bios_loader_def bios_file_def sub_bytes_peek len)
  show "sub_bytes 0x200 24 bios_file = setup_descriptors" "sub_bytes 0x218 6 bios_file = setup_table (of_nat (0x1200 + 0x200))"
    by (simp_all add: bios_file_def sub_bytes_peek len)
qed

lemma bios_machine_boots: "bios_boots 0x7c40 64 0x7c20 bios_machine"
proof -
  have len: "length (mbr_table w) = 30" for w by (simp add: mbr_table_def mbr_gdt_def SEG_ASM_def SEG_NULLASM_def)
  have "peek demo_mbr 0x7c40 30 = mbr_table 0x7c40" "peek demo_mbr 0x7c6d 4 = le_enc 4 (531 :: u32)" "peek demo_mbr 0x7c71 4 = [0, 0, 0, 0]"
    by (simp_all add: demo_mbr_def len peek_blank) (simp add: numeral_eq_Suc)
  then have "biosmbr_data 0x7c40 (mm bios_machine)"
    by (simp add: biosmbr_data_def bios_machine_def boot_pc_def peek_def)
  then show ?thesis
    by (auto simp: bios_boots_def bios_machine_def bios_entry_def boot_pc_def protected_def intro: exI [of _ "0x7bc0"])
qed

theorem bios_disk_boots_witness:
  "\<exists>starts offs m cpu ram. mkgpt_main Little bios_host = Inr (0, starts, offs, Some m) \<and>
     biosmbr (full_bios (disk_block m)) (of_nat (0x7c40 + 31)) (of_nat (0x7c40 + 24)) 0x7c20 bios_machine = Inr (Some cpu) \<and>
     biosboot_start (bios_function (full_bios (disk_block m)) demo_labels 0x1210 0x1220 (flat_pc 0x9000 (blank 0)))
       (bz_main (ata_drive (blank 0)) (read_disk_bios (bios_function (full_bios (disk_block m)) demo_labels 0x1210 0x1500
         (flat_pc 0x9000 (blank 0)))) drive_reset) (mm cpu) = Inr (JumpToSetup 0x2000 0x10000, drive_reset, ram)"
proof -
  have len: "length (bios_paths p) < 2 ^ 32" for p
    by (simp add: bios_paths_def bios_file_parts demo_paths_def length_demo_kernel)
  have hdr: "take 1024 (bios_paths ''../bootloader/kernel'') = take 1024 demo_kernel" "length (bios_paths ''../bootloader/kernel'') = 2048"
    by (simp_all add: bios_paths_def demo_paths_def length_demo_kernel)
  have rdy: "\<forall>f\<in>set mkgpt_files. ready_file (host_path bios_host) bios_paths f"
    using len by (simp add: mkgpt_files_def ready_file_def bios_host_def demo_delivers names_fit)
  have fit: "clusters_of (boot_fat 262140) (file_sizes bios_paths mkgpt_files) \<le> 32699"
    by (simp add: mkgpt_files_def clusters_for_def boot_fat_geometry bios_paths_def demo_paths_def length_demo_kernel bios_file_parts)
  have caller: "loader_caller 0x1301 0x1320 (0x2000 + 512 * 2) 64 (flat_pc 0x9000 (blank 0))"
    unfolding loader_caller_def by (rule exI [of _ "0x8f9c"]) (simp add: bios_caller_def flat_def)
  have "bios_extended (full_bios (disk_block m)) 64" "bios_reads (full_bios (disk_block m)) (disk_block m) 64" for m
    by (rule full_bios_contracts, simp add: disk_block_def)+
  moreover have "msize (mm bios_machine) = 0x200000" by (simp add: bios_machine_def boot_pc_def)
  moreover have "opens bios_host" "maps bios_host" "writes_all bios_host" "mbr_code bios_host = Inr [0xfa]"
    by (simp_all add: bios_host_def boot_host_def)
  moreover have "bios_paths ''../bootloader/linuz.bin'' = bios_file" by (simp add: bios_paths_def)
  ultimately show ?thesis
    using bios_disk_boots [of bios_host "[0xfa]" bios_paths "0x1301" "0x1320" demo_labels "0x200" "0x218" "0x1400" "0x7c40" 64 "0x7c20"
        bios_machine "flat_pc 0x9000 (blank 0)" "flat_pc 0x9000 (blank 0)" "0x1210" "0x1220" "ata_drive (blank 0)" "0x1500" drive_reset]
      rdy fit caller demo_kernel_header bios_file_parts demo_bios(2) bios_machine_boots
    by (simp add: hdr) blast
qed

end
